(* ===== verification/WLM_Prelude.thy ===== *)
theory WLM_Prelude
  imports Complex_Main "HOL-Library.Word" "HOL-Library.Sublist"
begin

section \<open>Prelude: Go values shared by every component\<close>

text \<open>
  The Go values the components share. A Go \<open>string\<close> and a Go \<open>[]byte\<close> are both a
  \<open>string\<close> here, a list of 8-bit characters. A Go \<open>int\<close>, \<open>int64\<close> or
  \<open>time.Duration\<close> is an \<open>int\<close>; where the code multiplies without a bound the
  two's complement wrap-around at 64 bits is written out with \<open>int64\<close>.
  A \<open>time.Time\<close> is its number of nanoseconds since the zero time, so \<open>IsZero\<close> is
  equality with 0.
  A Go \<open>map\<close> that the code ranges over is an association list with distinct keys;
  the order of the list stands for the order in which \<open>range\<close> visits the entries, which
  Go leaves open, and every theorem is about all lists.
\<close>

named_theorems go_map_simps \<open>laws of association lists used as Go maps\<close>
named_theorems go_string_simps \<open>laws of the string functions\<close>

subsection \<open>64-bit integers and times\<close>

type_synonym timestamp = int
type_synonym duration = int

definition int64 :: "int \<Rightarrow> int" where
  "int64 n = signed_take_bit 63 n"

definition nanos_per_second :: int where
  "nanos_per_second = 1000000000"

text \<open>\<open>time.Duration(n) * time.Second\<close>, which wraps like every \<open>int64\<close> product.\<close>

definition seconds :: "int \<Rightarrow> duration" where
  "seconds n = int64 (n * nanos_per_second)"

text \<open>\<open>t.Sub(u)\<close> saturates at the bounds of \<open>int64\<close>.\<close>

definition time_sub :: "timestamp \<Rightarrow> timestamp \<Rightarrow> duration" where
  "time_sub t u = max (- (2 ^ 63)) (min (2 ^ 63 - 1) (t - u))"

lemma int64_id: "- (2 ^ 63) \<le> n \<Longrightarrow> n < 2 ^ 63 \<Longrightarrow> int64 n = n"
  unfolding int64_def by (rule signed_take_bit_int_eq_self) simp_all

lemma int64_bounds: "- (2 ^ 63) \<le> int64 n \<and> int64 n < 2 ^ 63"
  unfolding int64_def
  using signed_take_bit_int_greater_eq_minus_exp [of 63 n] signed_take_bit_int_less_exp [of 63 n]
  by simp

lemma seconds_id: "0 \<le> n \<Longrightarrow> n \<le> 9223372036 \<Longrightarrow> seconds n = n * nanos_per_second"
  unfolding seconds_def by (rule int64_id) (simp_all add: nanos_per_second_def)

lemma time_sub_exact:
  "- (2 ^ 63) \<le> t - u \<Longrightarrow> t - u < 2 ^ 63 \<Longrightarrow> time_sub t u = t - u"
  by (simp add: time_sub_def)

lemma time_sub_ge_iff:
  "- (2 ^ 63) < d \<Longrightarrow> d < 2 ^ 63 \<Longrightarrow> d \<le> time_sub t u \<longleftrightarrow> d \<le> t - u"
  by (auto simp: time_sub_def max_def min_def)

subsection \<open>Go maps as association lists\<close>

definition mget :: "('k \<times> 'v) list \<Rightarrow> 'k \<Rightarrow> 'v option" where
  "mget m k = map_of m k"

fun mput :: "'k \<Rightarrow> 'v \<Rightarrow> ('k \<times> 'v) list \<Rightarrow> ('k \<times> 'v) list" where
  "mput k v [] = [(k, v)]"
| "mput k v (e # m) = (if fst e = k then (k, v) # m else e # mput k v m)"

definition mdel :: "'k \<Rightarrow> ('k \<times> 'v) list \<Rightarrow> ('k \<times> 'v) list" where
  "mdel k m = filter (\<lambda>e. fst e \<noteq> k) m"

definition mok :: "('k \<times> 'v) list \<Rightarrow> bool" where
  "mok m \<longleftrightarrow> distinct (map fst m)"

lemma mget_Nil [simp]: "mget [] k = None"
  by (simp add: mget_def)

lemma mget_Cons: "mget (e # m) k = (if fst e = k then Some (snd e) else mget m k)"
  by (cases e) (simp add: mget_def)

lemma mok_Nil [simp]: "mok []"
  by (simp add: mok_def)

lemma keys_mput: "fst ` set (mput k v m) = insert k (fst ` set m)"
  by (induction k v m rule: mput.induct) auto

lemma keys_mdel: "fst ` set (mdel k m) = fst ` set m - {k}"
  by (auto simp: mdel_def)

lemma mget_mput [go_map_simps]: "mget (mput k v m) k' = (if k' = k then Some v else mget m k')"
  by (induction k v m rule: mput.induct) (auto simp: mget_Cons)

lemma mget_mdel [go_map_simps]: "mget (mdel k m) k' = (if k' = k then None else mget m k')"
  by (induction m) (auto simp: mget_Cons mdel_def)

lemma mok_mput [go_map_simps]: "mok m \<Longrightarrow> mok (mput k v m)"
  by (induction k v m rule: mput.induct) (auto simp: mok_def keys_mput)

lemma mok_filter: "mok m \<Longrightarrow> mok (filter P m)"
  by (simp add: mok_def distinct_map_filter)

lemma mok_mdel [go_map_simps]: "mok m \<Longrightarrow> mok (mdel k m)"
  by (simp add: mdel_def mok_filter)

lemma mget_SomeD: "mget m k = Some v \<Longrightarrow> (k, v) \<in> set m"
  by (simp add: mget_def map_of_SomeD)

lemma mget_eq_Some: "mok m \<Longrightarrow> mget m k = Some v \<longleftrightarrow> (k, v) \<in> set m"
  by (simp add: mget_def mok_def)

lemma mget_eq_None: "mget m k = None \<longleftrightarrow> k \<notin> fst ` set m"
  by (simp add: mget_def map_of_eq_None_iff)

lemma dom_mget: "dom (mget m) = fst ` set m"
  by (rule set_eqI) (simp only: domIff mget_eq_None not_not)

lemma mget_filter:
  "mok m \<Longrightarrow> mget (filter P m) k =
     (case mget m k of None \<Rightarrow> None | Some v \<Rightarrow> if P (k, v) then Some v else None)"
  by (induction m) (auto simp: mget_Cons mok_def mget_eq_None split: option.splits)

lemma set_mput: "mok m \<Longrightarrow> set (mput k v m) = insert (k, v) (set (mdel k m))"
  by (induction k v m rule: mput.induct)
     (auto simp: mdel_def mok_def, (metis fst_conv image_eqI)+)

lemma length_mput: "length (mput k v m) = (if mget m k = None then Suc (length m) else length m)"
  by (induction k v m rule: mput.induct) (auto simp: mget_Cons)

lemma mput_absent: "mget m k = None \<Longrightarrow> mput k v m = m @ [(k, v)]"
  by (induction k v m rule: mput.induct) (auto simp: mget_Cons split: if_splits)

lemma length_mdel_le: "length (mdel k m) \<le> length m"
  by (simp add: mdel_def)

lemma length_mdel_less: "mget m k = Some v \<Longrightarrow> length (mdel k m) < length m"
  unfolding mdel_def by (rule length_filter_less [of "(k, v)"]) (auto dest: mget_SomeD)

lemma mdel_absent: "mget m k = None \<Longrightarrow> mdel k m = m"
  by (auto simp: mget_eq_None mdel_def filter_id_conv)

lemma filter_fewer:
  "(\<And>x. x \<in> set xs \<Longrightarrow> P x \<Longrightarrow> Q x) \<Longrightarrow> length (filter P xs) \<le> length (filter Q xs)"
  by (induction xs) (auto intro: le_SucI)

subsection \<open>The interface the components use of a Go map\<close>

text \<open>
  The contract of a Go map: lookup after insertion and deletion, and a length that counts
  the keys. The components prove their size bounds from these laws.
\<close>

locale go_map =
  fixes get :: "'m \<Rightarrow> 'k \<Rightarrow> 'v option"
    and put :: "'k \<Rightarrow> 'v \<Rightarrow> 'm \<Rightarrow> 'm"
    and del :: "'k \<Rightarrow> 'm \<Rightarrow> 'm"
    and len :: "'m \<Rightarrow> nat"
    and ok :: "'m \<Rightarrow> bool"
  assumes get_put: "get (put k v m) k' = (if k' = k then Some v else get m k')"
    and get_del: "get (del k m) k' = (if k' = k then None else get m k')"
    and ok_put: "ok m \<Longrightarrow> ok (put k v m)"
    and ok_del: "ok m \<Longrightarrow> ok (del k m)"
    and finite_dom: "finite (dom (get m))"
    and len_card: "ok m \<Longrightarrow> len m = card (dom (get m))"
begin

lemma dom_put: "dom (get (put k v m)) = insert k (dom (get m))"
  by (auto simp: dom_def get_put)

lemma dom_del: "dom (get (del k m)) = dom (get m) - {k}"
  by (auto simp: dom_def get_del)

lemma len_put_fresh: "ok m \<Longrightarrow> get m k = None \<Longrightarrow> len (put k v m) = Suc (len m)"
  by (simp only: len_card ok_put dom_put) (simp add: finite_dom domIff)

lemma len_put_present: "ok m \<Longrightarrow> get m k \<noteq> None \<Longrightarrow> len (put k v m) = len m"
  by (simp only: len_card ok_put dom_put) (simp add: insert_absorb domIff)

lemma len_put_le: "ok m \<Longrightarrow> len (put k v m) \<le> Suc (len m)"
  by (cases "get m k = None") (simp_all add: len_put_fresh len_put_present)

lemma len_del_present: "ok m \<Longrightarrow> get m k \<noteq> None \<Longrightarrow> Suc (len (del k m)) = len m"
  by (simp only: len_card ok_del dom_del)
     (rule card_Suc_Diff1, auto simp: finite_dom)

lemma len_del_le: "ok m \<Longrightarrow> len (del k m) \<le> len m"
  by (simp only: len_card ok_del dom_del) (rule card_mono, simp_all add: finite_dom)

lemma del_put: "get (del k (put k v m)) = get (del k m)"
  by (rule ext) (simp add: get_del get_put)

lemma put_put: "get (put k v (put k w m)) = get (put k v m)"
  by (rule ext) (simp add: get_put)

end

interpretation gmap: go_map mget mput mdel length mok
proof
  fix m :: "('k \<times> 'v) list"
  show "finite (dom (mget m))"
    by (simp add: dom_mget)
  show "mok m \<Longrightarrow> length m = card (dom (mget m))"
    by (simp only: dom_mget mok_def) (metis distinct_card length_map set_map)
qed (simp_all add: go_map_simps)

subsection \<open>Invariants of components driven by operations\<close>

text \<open>
  A component is a state and a function that runs one operation on it. An invariant every
  operation keeps holds after any sequence of operations; a property that no operation can
  undo is stable along every sequence.
\<close>

definition run_ops :: "('s \<Rightarrow> 'op \<Rightarrow> 's) \<Rightarrow> 's \<Rightarrow> 'op list \<Rightarrow> 's" where
  "run_ops step s ops = foldl step s ops"

lemma run_ops_Nil [simp]: "run_ops step s [] = s"
  by (simp add: run_ops_def)

lemma run_ops_Cons [simp]: "run_ops step s (x # xs) = run_ops step (step s x) xs"
  by (simp add: run_ops_def)

lemma run_ops_append: "run_ops step s (xs @ ys) = run_ops step (run_ops step s xs) ys"
  by (simp add: run_ops_def)

locale guarded_ops =
  fixes step :: "'s \<Rightarrow> 'op \<Rightarrow> 's"
    and inv :: "'s \<Rightarrow> bool"
    and ok :: "'op \<Rightarrow> bool"
  assumes guarded_step: "inv s \<Longrightarrow> ok x \<Longrightarrow> inv (step s x)"
begin

lemma guarded_run: "inv s \<Longrightarrow> list_all ok xs \<Longrightarrow> inv (run_ops step s xs)"
  by (induction xs arbitrary: s) (simp_all add: guarded_step)

lemma guarded_stable:
  assumes "inv s" and "Q s"
    and "\<And>s x. inv s \<Longrightarrow> Q s \<Longrightarrow> ok x \<Longrightarrow> Q (step s x)"
    and "list_all ok xs"
  shows "Q (run_ops step s xs)"
  using assms by (induction xs arbitrary: s) (simp_all add: guarded_step)

end

locale op_invariant =
  fixes step :: "'s \<Rightarrow> 'op \<Rightarrow> 's"
    and inv :: "'s \<Rightarrow> bool"
  assumes step_inv: "inv s \<Longrightarrow> inv (step s x)"

sublocale op_invariant \<subseteq> every: guarded_ops step inv "\<lambda>_. True"
  by unfold_locales (rule step_inv)

context op_invariant begin

lemma run_inv: "inv s \<Longrightarrow> inv (run_ops step s xs)"
  by (rule every.guarded_run) (simp_all add: list_all_iff)

lemma run_stable:
  assumes "inv s" and "Q s"
    and "\<And>s x. inv s \<Longrightarrow> Q s \<Longrightarrow> P x \<Longrightarrow> Q (step s x)"
    and "list_all P xs"
  shows "Q (run_ops step s xs)"
  using assms by (induction xs arbitrary: s) (simp_all add: step_inv)

end

subsection \<open>Strings\<close>

definition has_prefix :: "string \<Rightarrow> string \<Rightarrow> bool" where
  "has_prefix s p \<longleftrightarrow> take (length p) s = p"

definition trim_prefix :: "string \<Rightarrow> string \<Rightarrow> string" where
  "trim_prefix s p = (if has_prefix s p then drop (length p) s else s)"

definition trim_suffix :: "string \<Rightarrow> string \<Rightarrow> string" where
  "trim_suffix s p =
     (if length p \<le> length s \<and> drop (length s - length p) s = p
      then take (length s - length p) s else s)"

text \<open>\<open>strings.Split(s, sep)\<close> for a separator of one byte.\<close>

fun split_byte :: "char \<Rightarrow> string \<Rightarrow> string list" where
  "split_byte c [] = [[]]"
| "split_byte c (x # xs) =
     (if x = c then [] # split_byte c xs
      else (case split_byte c xs of [] \<Rightarrow> [[x]] | w # ws \<Rightarrow> (x # w) # ws))"

fun join_with :: "string \<Rightarrow> string list \<Rightarrow> string" where
  "join_with sep [] = []"
| "join_with sep [w] = w"
| "join_with sep (w # v # ws) = w @ sep @ join_with sep (v # ws)"

text \<open>
  \<open>unicode.IsSpace\<close>: the UTF-8 encodings of the runes it accepts. No encoding is a proper
  prefix or suffix of another, so stripping a leading (trailing) encoding is what
  \<open>TrimFunc\<close> does when it decodes the first (last) rune.
\<close>

definition space_runes :: "string list" where
  "space_runes =
     [[CHR 0x09], [CHR 0x0A], [CHR 0x0B], [CHR 0x0C], [CHR 0x0D], [CHR 0x20],
      [CHR 0xC2, CHR 0x85], [CHR 0xC2, CHR 0xA0], [CHR 0xE1, CHR 0x9A, CHR 0x80],
      [CHR 0xE2, CHR 0x80, CHR 0x80], [CHR 0xE2, CHR 0x80, CHR 0x81],
      [CHR 0xE2, CHR 0x80, CHR 0x82], [CHR 0xE2, CHR 0x80, CHR 0x83],
      [CHR 0xE2, CHR 0x80, CHR 0x84], [CHR 0xE2, CHR 0x80, CHR 0x85],
      [CHR 0xE2, CHR 0x80, CHR 0x86], [CHR 0xE2, CHR 0x80, CHR 0x87],
      [CHR 0xE2, CHR 0x80, CHR 0x88], [CHR 0xE2, CHR 0x80, CHR 0x89],
      [CHR 0xE2, CHR 0x80, CHR 0x8A], [CHR 0xE2, CHR 0x80, CHR 0xA8],
      [CHR 0xE2, CHR 0x80, CHR 0xA9], [CHR 0xE2, CHR 0x80, CHR 0xAF],
      [CHR 0xE2, CHR 0x81, CHR 0x9F], [CHR 0xE3, CHR 0x80, CHR 0x80]]"

function strip_left :: "string list \<Rightarrow> string \<Rightarrow> string" where
  "strip_left rs s =
     (case find (\<lambda>r. r \<noteq> [] \<and> has_prefix s r) rs of
        None \<Rightarrow> s
      | Some r \<Rightarrow> strip_left rs (drop (length r) s))"
  by pat_completeness auto
termination
  by (relation "measure (\<lambda>(rs, s). length s)")
     (auto simp: find_Some_iff has_prefix_def, metis diff_less length_greater_0_conv take_Nil)

declare strip_left.simps [simp del]

definition trim_space :: "string \<Rightarrow> string" where
  "trim_space s = rev (strip_left (map rev space_runes) (rev (strip_left space_runes s)))"

lemma has_prefix_append [simp]: "has_prefix (p @ s) p"
  by (simp add: has_prefix_def)

lemma has_prefix_iff: "has_prefix s p \<longleftrightarrow> (\<exists>t. s = p @ t)"
  by (metis append_eq_conv_conj append_take_drop_id has_prefix_def)

lemma trim_prefix_append [simp]: "trim_prefix (p @ s) p = s"
  by (simp add: trim_prefix_def)

lemma trim_suffix_append [simp]: "trim_suffix (s @ p) p = s"
  by (simp add: trim_suffix_def)

lemma split_byte_neq_Nil [simp]: "split_byte c s \<noteq> []"
  by (induction s) (auto split: list.splits)

lemma split_byte_no_sep: "w \<in> set (split_byte c s) \<Longrightarrow> c \<notin> set w"
  by (induction s arbitrary: w) (force split: if_splits list.splits)+

lemma join_split_byte: "join_with [c] (split_byte c s) = s"
proof (induction s)
  case (Cons x s)
  then show ?case
    by (cases "split_byte c s"; cases "tl (split_byte c s)") auto
qed simp

lemma split_byte_single: "c \<notin> set w \<Longrightarrow> split_byte c w = [w]"
  by (induction w) auto

lemma split_byte_append: "c \<notin> set w \<Longrightarrow> split_byte c (w @ c # s) = w # split_byte c s"
  by (induction w) auto

lemma split_join_byte:
  "ws \<noteq> [] \<Longrightarrow> list_all (\<lambda>w. c \<notin> set w) ws \<Longrightarrow> split_byte c (join_with [c] ws) = ws"
  by (induction "[c]" ws rule: join_with.induct) (auto simp: split_byte_single split_byte_append)

subsection \<open>Trimming\<close>

text \<open>Nothing strippable is left at the front, and only a front part was removed.\<close>

lemma strip_left_fixed:
  "r \<in> set rs \<Longrightarrow> r \<noteq> [] \<Longrightarrow> \<not> has_prefix (strip_left rs s) r"
proof (induction rs s rule: strip_left.induct)
  case (1 rs s)
  then show ?case
    by (subst strip_left.simps) (auto simp: find_None_iff split: option.splits)
qed

lemma strip_left_suffix: "\<exists>p. s = p @ strip_left rs s"
proof (induction rs s rule: strip_left.induct)
  case (1 rs s)
  show ?case
  proof (cases "find (\<lambda>r. r \<noteq> [] \<and> has_prefix s r) rs")
    case None
    then show ?thesis by (subst strip_left.simps) simp
  next
    case (Some r)
    with 1 obtain p where "drop (length r) s = p @ strip_left rs (drop (length r) s)"
      by blast
    moreover have "strip_left rs s = strip_left rs (drop (length r) s)"
      using Some by (subst strip_left.simps) simp
    ultimately show ?thesis
      by (metis append.assoc append_take_drop_id)
  qed
qed

lemma strip_left_id: "\<forall>r \<in> set rs. r \<noteq> [] \<longrightarrow> \<not> has_prefix s r \<Longrightarrow> strip_left rs s = s"
  by (subst strip_left.simps) (auto simp: find_None_iff find_Some_iff split: option.splits)

lemma strip_left_idem: "strip_left rs (strip_left rs s) = strip_left rs s"
  by (rule strip_left_id) (auto simp: strip_left_fixed)

text \<open>\<open>strings.TrimSpace\<close> is idempotent.\<close>

lemma trim_space_idem [simp]: "trim_space (trim_space s) = trim_space s"
proof -
  let ?l = "strip_left space_runes s"
  let ?t = "strip_left (map rev space_runes) (rev ?l)"
  obtain p where p: "rev ?l = p @ ?t"
    using strip_left_suffix by blast
  have l: "?l = rev ?t @ rev p"
    by (metis p rev_append rev_rev_ident)
  have "strip_left space_runes (rev ?t) = rev ?t"
  proof (rule strip_left_id, intro ballI impI notI)
    fix r
    assume r: "r \<in> set space_runes" "r \<noteq> []" "has_prefix (rev ?t) r"
    then have "has_prefix ?l r"
      using l by (metis append.assoc has_prefix_iff)
    with r(1,2) show False
      by (simp add: strip_left_fixed)
  qed
  then show ?thesis
    by (simp add: trim_space_def strip_left_idem)
qed

lemma trim_space_Nil [simp]: "trim_space [] = []"
proof -
  have "strip_left rs [] = []" for rs
    by (rule strip_left_id) (simp add: has_prefix_def)
  then show ?thesis by (simp add: trim_space_def)
qed

text \<open>Text without any byte of a space rune is left alone.\<close>

definition space_bytes :: "char set" where
  "space_bytes = set (concat space_runes)"

lemma trim_space_plain:
  assumes "set s \<inter> space_bytes = {}"
  shows "trim_space s = s"
proof -
  have "\<not> has_prefix s r" "\<not> has_prefix (rev s) (rev r)" if "r \<in> set space_runes" for r
  proof -
    have "r \<noteq> []" "set r \<subseteq> space_bytes"
      using that by (auto simp: space_runes_def space_bytes_def)
    then have "hd r \<in> space_bytes" "last r \<in> space_bytes"
      by (auto simp: hd_in_set last_in_set subsetD)
    moreover have "hd r \<in> set s" if "has_prefix s r"
      using that \<open>r \<noteq> []\<close> by (auto simp: has_prefix_iff)
    moreover have "last r \<in> set s" if "has_prefix (rev s) (rev r)"
      using that \<open>r \<noteq> []\<close>
      by (metis Un_iff has_prefix_iff last_in_set set_append set_rev)
    ultimately show "\<not> has_prefix s r" "\<not> has_prefix (rev s) (rev r)"
      using assms by blast+
  qed
  then show ?thesis
    by (simp add: trim_space_def strip_left_id)
qed

text \<open>The same for a component whose steps are a relation, run by an unknown scheduler.\<close>

locale rel_invariant =
  fixes step :: "'s \<Rightarrow> 's \<Rightarrow> bool"
    and inv :: "'s \<Rightarrow> bool"
  assumes step_inv: "step s t \<Longrightarrow> inv s \<Longrightarrow> inv t"
begin

lemma steps_inv: "step\<^sup>*\<^sup>* s t \<Longrightarrow> inv s \<Longrightarrow> inv t"
  by (induction rule: rtranclp_induct) (auto intro: step_inv)

lemma steps_stable:
  assumes "step\<^sup>*\<^sup>* s t" and "inv s" and "Q s"
    and "\<And>s t. step s t \<Longrightarrow> inv s \<Longrightarrow> Q s \<Longrightarrow> Q t"
  shows "Q t"
proof -
  have "inv t \<and> Q t"
    using assms(1-3) by (induction rule: rtranclp_induct) (auto intro: step_inv assms(4))
  then show ?thesis ..
qed

end

end
