(* ===== verification/Go_Codec.thy ===== *)
theory Go_Codec
  imports WLM_Prelude
begin

section \<open>The text encodings of the Go standard library the program uses\<close>

text \<open>
  \<open>encoding/hex\<close> (token fingerprints, request, job and session identifiers, checksum files)
  and \<open>encoding/base64.StdEncoding\<close> (commands and framed output), as functions on byte
  strings. Decoding returns \<open>None\<close> where Go returns an error.
\<close>

subsection \<open>Bytes as numbers\<close>

abbreviation byte_val :: "char \<Rightarrow> nat" where
  "byte_val c \<equiv> of_char c"

lemma byte_val_less [simp]: "byte_val c < 256"
  using of_char_mod_256 [where 'a = nat, of c] by (metis mod_less_divisor zero_less_numeral)

lemma byte_val_char_of: "n < 256 \<Longrightarrow> byte_val (char_of n) = n"
  by simp

subsection \<open>What a text encoding promises\<close>

locale text_codec =
  fixes enc :: "string \<Rightarrow> string"
    and dec :: "string \<Rightarrow> string option"
    and alphabet :: "char set"
  assumes dec_enc: "dec (enc s) = Some s"
    and enc_alphabet: "set (enc s) \<subseteq> alphabet"
begin

lemma enc_inject: "enc s = enc t \<longleftrightarrow> s = t"
  by (metis dec_enc option.inject)

lemma enc_avoids: "c \<notin> alphabet \<Longrightarrow> c \<notin> set (enc s)"
  using enc_alphabet by blast

end

subsection \<open>Hexadecimal\<close>

definition hex_char :: "nat \<Rightarrow> char" where
  "hex_char n = char_of (if n < 10 then 48 + n else 87 + n)"

definition hex_value :: "char \<Rightarrow> nat option" where
  "hex_value c =
     (let n = byte_val c in
      if 48 \<le> n \<and> n \<le> 57 then Some (n - 48)
      else if 97 \<le> n \<and> n \<le> 102 then Some (n - 87)
      else if 65 \<le> n \<and> n \<le> 70 then Some (n - 55)
      else None)"

fun hex_encode :: "string \<Rightarrow> string" where
  "hex_encode [] = []"
| "hex_encode (c # s) = hex_char (byte_val c div 16) # hex_char (byte_val c mod 16) # hex_encode s"

fun hex_decode :: "string \<Rightarrow> string option" where
  "hex_decode [] = Some []"
| "hex_decode [c] = None"
| "hex_decode (a # b # s) =
     (case (hex_value a, hex_value b, hex_decode s) of
        (Some h, Some l, Some t) \<Rightarrow> Some (char_of (16 * h + l) # t)
      | _ \<Rightarrow> None)"

definition hex_alphabet :: "char set" where
  "hex_alphabet = {c. hex_value c \<noteq> None}"

lemma hex_value_char: "n < 16 \<Longrightarrow> hex_value (hex_char n) = Some n"
  by (auto simp: hex_value_def hex_char_def Let_def)

lemma hex_char_alphabet: "n < 16 \<Longrightarrow> hex_char n \<in> hex_alphabet"
  by (simp add: hex_alphabet_def hex_value_char)

lemma hex_decode_encode: "hex_decode (hex_encode s) = Some s"
  by (induction s) (simp_all add: hex_value_char less_mult_imp_div_less)

lemma hex_encode_alphabet: "set (hex_encode s) \<subseteq> hex_alphabet"
  by (induction s) (simp_all add: hex_char_alphabet less_mult_imp_div_less)

lemma length_hex_encode [simp]: "length (hex_encode s) = 2 * length s"
  by (induction s) simp_all

interpretation hex: text_codec hex_encode hex_decode hex_alphabet
  by unfold_locales (rule hex_decode_encode hex_encode_alphabet)+

subsection \<open>Base64\<close>

definition b64_char :: "nat \<Rightarrow> char" where
  "b64_char n =
     char_of (if n < 26 then 65 + n else if n < 52 then 71 + n
              else if n < 62 then n - 4 else if n = 62 then 43 else (47 :: nat))"

definition b64_value :: "char \<Rightarrow> nat option" where
  "b64_value c =
     (let n = byte_val c in
      if 65 \<le> n \<and> n \<le> 90 then Some (n - 65)
      else if 97 \<le> n \<and> n \<le> 122 then Some (n - 71)
      else if 48 \<le> n \<and> n \<le> 57 then Some (n + 4)
      else if n = 43 then Some 62
      else if n = 47 then Some 63
      else None)"

definition b64_pad :: char where
  "b64_pad = CHR ''=''"

fun b64_encode :: "string \<Rightarrow> string" where
  "b64_encode [] = []"
| "b64_encode [a] =
     [b64_char (byte_val a div 4), b64_char (byte_val a mod 4 * 16), b64_pad, b64_pad]"
| "b64_encode [a, b] =
     [b64_char (byte_val a div 4),
      b64_char (byte_val a mod 4 * 16 + byte_val b div 16),
      b64_char (byte_val b mod 16 * 4), b64_pad]"
| "b64_encode (a # b # c # s) =
     b64_char (byte_val a div 4) #
     b64_char (byte_val a mod 4 * 16 + byte_val b div 16) #
     b64_char (byte_val b mod 16 * 4 + byte_val c div 64) #
     b64_char (byte_val c mod 64) # b64_encode s"

text \<open>
  The decoder on text without line breaks: groups of four, padding only in the last group,
  anything else an error. As in \<open>StdEncoding\<close>, which is not strict, the unused low bits
  of a padded group are ignored.
\<close>

fun b64_quads :: "string \<Rightarrow> string option" where
  "b64_quads [] = Some []"
| "b64_quads (w # x # y # z # s) =
     (case (b64_value w, b64_value x) of
        (Some p, Some q) \<Rightarrow>
          (if y = b64_pad then
             (if z = b64_pad \<and> s = [] then Some [char_of (p * 4 + q div 16)] else None)
           else
             (case b64_value y of
                None \<Rightarrow> None
              | Some r \<Rightarrow>
                  (if z = b64_pad then
                     (if s = [] then
                        Some [char_of (p * 4 + q div 16), char_of (q mod 16 * 16 + r div 4)]
                      else None)
                   else
                     (case (b64_value z, b64_quads s) of
                        (Some t, Some rest) \<Rightarrow>
                          Some (char_of (p * 4 + q div 16) # char_of (q mod 16 * 16 + r div 4) #
                                char_of (r mod 4 * 64 + t) # rest)
                      | _ \<Rightarrow> None))))
      | _ \<Rightarrow> None)"
| "b64_quads _ = None"

text \<open>\<open>DecodeString\<close> skips carriage returns and line feeds.\<close>

definition b64_decode :: "string \<Rightarrow> string option" where
  "b64_decode s = b64_quads (filter (\<lambda>c. c \<noteq> CHR 0x0D \<and> c \<noteq> CHR 0x0A) s)"

text \<open>\<open>StdEncoding.EncodedLen\<close>.\<close>

definition b64_encoded_len :: "nat \<Rightarrow> nat" where
  "b64_encoded_len n = (n + 2) div 3 * 4"

definition b64_alphabet :: "char set" where
  "b64_alphabet = {c. b64_value c \<noteq> None \<or> c = b64_pad}"

lemma b64_value_char: "n < 64 \<Longrightarrow> b64_value (b64_char n) = Some n"
proof -
  assume "n < 64"
  then consider "n < 26" | "26 \<le> n" "n < 52" | "52 \<le> n" "n < 62" | "n = 62" | "n = 63"
    by linarith
  then show ?thesis
    by cases (auto simp: b64_value_def b64_char_def Let_def)
qed

lemma b64_char_not_pad: "n < 64 \<Longrightarrow> b64_char n \<noteq> b64_pad"
proof
  assume "n < 64" and "b64_char n = b64_pad"
  then have "b64_value b64_pad = Some n"
    by (metis b64_value_char)
  then show False
    by (simp add: b64_value_def b64_pad_def)
qed

lemma b64_char_alphabet: "n < 64 \<Longrightarrow> b64_char n \<in> b64_alphabet"
  by (simp add: b64_alphabet_def b64_value_char)

lemma b64_pad_alphabet: "b64_pad \<in> b64_alphabet"
  by (simp add: b64_alphabet_def)

lemma b64_index_bounds:
  "byte_val a div 4 < 64" "byte_val a mod 4 * 16 < 64"
  "byte_val a mod 4 * 16 + byte_val b div 16 < 64"
  "byte_val b mod 16 * 4 < 64" "byte_val b mod 16 * 4 + byte_val c div 64 < 64"
  "byte_val c mod 64 < 64"
  using byte_val_less [of a] byte_val_less [of b] byte_val_less [of c] by linarith+

text \<open>What the decoder computes from the digits of a group.\<close>

lemma b64_first:
  fixes x y :: nat
  assumes "y < 16"
  shows "x div 4 * 4 + (x mod 4 * 16 + y) div 16 = x"
  using assms by (simp add: div_mult_mod_eq)

lemma b64_second:
  fixes x y z :: nat
  assumes "z < 4" and "y < 256"
  shows "(x mod 4 * 16 + y div 16) mod 16 * 16 + (y mod 16 * 4 + z) div 4 = y"
proof -
  have "y div 16 < 16"
    using assms by linarith
  then have "(x mod 4 * 16 + y div 16) mod 16 = y div 16"
    by (metis mod_less mod_mult_self3)
  moreover have "(y mod 16 * 4 + z) div 4 = y mod 16"
    using assms by simp
  ultimately show ?thesis
    by (simp add: div_mult_mod_eq)
qed

lemma b64_third:
  fixes y z :: nat
  assumes "z < 256"
  shows "(y * 4 + z div 64) mod 4 * 64 + z mod 64 = z"
proof -
  have "z div 64 < 4"
    using assms by linarith
  then have "(y * 4 + z div 64) mod 4 = z div 64"
    by (metis mod_less mod_mult_self3)
  then show ?thesis
    by (simp add: div_mult_mod_eq)
qed

lemmas b64_group =
  b64_first b64_second b64_third b64_first [of 0, simplified] b64_second [of 0, simplified]

lemma b64_quads_encode: "b64_quads (b64_encode s) = Some s"
proof (induction s rule: b64_encode.induct)
  case (2 a)
  then show ?case
    by (simp add: b64_value_char b64_index_bounds b64_group)
next
  case (3 a b)
  have "byte_val b div 16 < 16"
    using byte_val_less [of b] by linarith
  then show ?case
    by (simp add: b64_value_char b64_index_bounds b64_char_not_pad b64_group)
next
  case (4 a b c s)
  have "byte_val b div 16 < 16" "byte_val c div 64 < 4"
    using byte_val_less [of b] byte_val_less [of c] by linarith+
  with 4 show ?case
    by (simp add: b64_value_char b64_index_bounds b64_char_not_pad b64_group)
qed simp

lemma b64_encode_alphabet: "set (b64_encode s) \<subseteq> b64_alphabet"
  by (induction s rule: b64_encode.induct)
     (simp_all add: b64_char_alphabet b64_index_bounds b64_pad_alphabet)

lemma b64_decode_encode: "b64_decode (b64_encode s) = Some s"
proof -
  have "filter (\<lambda>c. c \<noteq> CHR 0x0D \<and> c \<noteq> CHR 0x0A) (b64_encode s) = b64_encode s"
    using b64_encode_alphabet [of s]
    by (auto simp: filter_id_conv b64_alphabet_def b64_value_def b64_pad_def)
  then show ?thesis
    by (simp add: b64_decode_def b64_quads_encode)
qed

lemma length_b64_encode: "length (b64_encode s) = b64_encoded_len (length s)"
proof (induction s rule: b64_encode.induct)
  case (4 a b c s)
  have "(5 + length s) div 3 = Suc (Suc (Suc (length s)) div 3)"
    by presburger
  with 4 show ?case
    by (simp add: b64_encoded_len_def)
qed (simp_all add: b64_encoded_len_def)

lemma b64_encoded_len_mono: "m \<le> n \<Longrightarrow> b64_encoded_len m \<le> b64_encoded_len n"
  by (simp add: b64_encoded_len_def div_le_mono)

interpretation b64: text_codec b64_encode b64_decode b64_alphabet
  by unfold_locales (rule b64_decode_encode b64_encode_alphabet)+

end
