(* ===== verification/Security.thy ===== *)
theory Security
  imports Go_Codec "HOL-Library.Char_ord" "HOL-Library.List_Lexorder"
begin

section \<open>internal/security: token, blocklist, client address, rate limit\<close>

text \<open>
  The four guards of the HTTPS server. \<open>auth.go\<close>: the bearer token, stored as its SHA-256
  hash (the hash function is a parameter). \<open>blocklist.go\<close>: per-address failure counters
  and the blocked addresses. \<open>clientip.go\<close>: the client address, with the proxy header.
  \<open>ratelimit.go\<close>: one token bucket per address. Each method runs under its mutex, so it is
  one function on the state.
\<close>

subsection \<open>auth.go\<close>

datatype token_error = Token_Read string | Token_Too_Short

record token_auth =
  hash :: string
  fingerprint :: string

definition load_token :: "(string \<Rightarrow> string) \<Rightarrow> string + string \<Rightarrow> token_error + token_auth" where
  "load_token sha256 file =
     (case file of
        Inl err \<Rightarrow> Inl (Token_Read err)
      | Inr b \<Rightarrow>
          (let token = trim_space b in
           if length token < 43 then Inl Token_Too_Short
           else (let h = sha256 token in
                 Inr \<lparr>hash = h, fingerprint = hex_encode (take 8 h)\<rparr>)))"

text \<open>\<open>subtle.ConstantTimeCompare\<close> is 1 exactly on equal slices of equal length.\<close>

definition constant_time_compare :: "string \<Rightarrow> string \<Rightarrow> int" where
  "constant_time_compare x y = (if length x = length y \<and> x = y then 1 else 0)"

definition bearer_prefix :: string where
  "bearer_prefix = ''Bearer ''"

definition authenticate :: "(string \<Rightarrow> string) \<Rightarrow> token_auth \<Rightarrow> string \<Rightarrow> bool" where
  "authenticate sha256 a header =
     (if \<not> has_prefix header bearer_prefix then False
      else (let candidate = trim_space (trim_prefix header bearer_prefix);
                h = sha256 candidate
            in constant_time_compare (hash a) h = 1))"

text \<open>A loaded token accepts a header exactly when the two trimmed tokens hash alike.\<close>

lemma authenticate_loaded:
  "load_token sha256 (Inr b) = Inr a \<Longrightarrow>
   authenticate sha256 a header \<longleftrightarrow>
     (\<exists>cand. header = bearer_prefix @ cand \<and> sha256 (trim_space cand) = sha256 (trim_space b))"
  by (auto simp: load_token_def authenticate_def Let_def constant_time_compare_def
      has_prefix_iff split: if_splits)

subsection \<open>blocklist.go\<close>

record block_entry =
  entry_ip :: string
  blocked_at :: timestamp
  failed_attempts :: int

record blocklist =
  threshold :: int
  failures :: "string \<rightharpoonup> int"
  blocked :: "(string \<times> block_entry) list"

definition new_blocklist :: "int \<Rightarrow> blocklist" where
  "new_blocklist n = \<lparr>threshold = n, failures = Map.empty, blocked = []\<rparr>"

definition is_blocked :: "blocklist \<Rightarrow> string \<Rightarrow> bool" where
  "is_blocked b ip \<longleftrightarrow> mget (blocked b) ip \<noteq> None"

definition record_failure :: "blocklist \<Rightarrow> string \<Rightarrow> timestamp \<Rightarrow> blocklist \<times> int \<times> bool" where
  "record_failure b ip now =
     (case mget (blocked b) ip of
        Some entry \<Rightarrow> (b, failed_attempts entry, True)
      | None \<Rightarrow>
          (let count = (case failures b ip of None \<Rightarrow> 0 | Some n \<Rightarrow> n) + 1;
               b1 = b\<lparr>failures := (failures b)(ip \<mapsto> count)\<rparr>
           in if threshold b \<le> count then
                (b1\<lparr>blocked :=
                      mput ip \<lparr>entry_ip = ip, blocked_at = now, failed_attempts = count\<rparr> (blocked b1),
                    failures := (failures b1)(ip := None)\<rparr>, count, True)
              else (b1, count, False)))"

definition record_success :: "blocklist \<Rightarrow> string \<Rightarrow> blocklist" where
  "record_success b ip = b\<lparr>failures := (failures b)(ip := None)\<rparr>"

definition remove_ip :: "blocklist \<Rightarrow> string \<Rightarrow> blocklist \<times> bool" where
  "remove_ip b ip =
     (b\<lparr>blocked := mdel ip (blocked b), failures := (failures b)(ip := None)\<rparr>,
      mget (blocked b) ip \<noteq> None)"

definition list_blocked :: "blocklist \<Rightarrow> block_entry list" where
  "list_blocked b = sort_key entry_ip (map snd (blocked b))"

datatype blocklist_op = Fail string timestamp | Succeed string | Remove string

fun blocklist_step :: "blocklist \<Rightarrow> blocklist_op \<Rightarrow> blocklist" where
  "blocklist_step b (Fail ip now) = fst (record_failure b ip now)"
| "blocklist_step b (Succeed ip) = record_success b ip"
| "blocklist_step b (Remove ip) = fst (remove_ip b ip)"

text \<open>
  The invariant: entries are filed under their own address and carry the count that blocked
  it; a failure counter is positive, below the threshold and never kept for a blocked address.
\<close>

definition lockout_limit :: "blocklist \<Rightarrow> int" where
  "lockout_limit b = max 1 (threshold b)"

definition blocklist_wf :: "blocklist \<Rightarrow> bool" where
  "blocklist_wf b \<longleftrightarrow> mok (blocked b) \<and>
     (\<forall>ip e. mget (blocked b) ip = Some e \<longrightarrow>
        entry_ip e = ip \<and> failed_attempts e = lockout_limit b \<and> failures b ip = None) \<and>
     (\<forall>ip n. failures b ip = Some n \<longrightarrow> 1 \<le> n \<and> n < lockout_limit b)"

lemma wf_entry:
  "blocklist_wf b \<Longrightarrow> mget (blocked b) ip = Some e \<Longrightarrow>
     entry_ip e = ip \<and> failed_attempts e = lockout_limit b \<and> failures b ip = None"
  by (simp add: blocklist_wf_def)

lemma wf_counter: "blocklist_wf b \<Longrightarrow> failures b ip = Some n \<Longrightarrow> 1 \<le> n \<and> n < lockout_limit b"
  by (simp add: blocklist_wf_def)

lemma lockout_limit_pos: "1 \<le> lockout_limit b"
  by (simp add: lockout_limit_def)

lemma blocklist_wf_new: "blocklist_wf (new_blocklist n)"
  by (simp add: blocklist_wf_def new_blocklist_def)

lemma threshold_step [simp]: "threshold (blocklist_step b x) = threshold b"
  by (cases x)
     (simp_all add: record_failure_def record_success_def remove_ip_def Let_def split: option.splits)

lemma lockout_limit_step [simp]: "lockout_limit (blocklist_step b x) = lockout_limit b"
  by (simp add: lockout_limit_def)

lemma record_failure_wf:
  assumes "blocklist_wf b"
  shows "blocklist_wf (fst (record_failure b ip now))"
proof (cases "mget (blocked b) ip")
  case None
  define count where "count = (case failures b ip of None \<Rightarrow> 0 | Some n \<Rightarrow> n) + 1"
  have "1 \<le> count" and "count \<le> lockout_limit b"
    using wf_counter [OF assms, of ip] lockout_limit_pos [of b]
    by (auto simp: count_def split: option.splits)
  then show ?thesis
    using assms None
    by (auto simp: record_failure_def blocklist_wf_def lockout_limit_def Let_def go_map_simps
        count_def [symmetric] split: if_splits)
qed (use assms in \<open>simp add: record_failure_def\<close>)

lemma blocklist_step_wf:
  assumes "blocklist_wf b"
  shows "blocklist_wf (blocklist_step b x)"
proof (cases x)
  case (Fail ip now)
  with assms show ?thesis by (simp add: record_failure_wf)
next
  case (Succeed ip)
  with assms show ?thesis
    by (auto simp: record_success_def blocklist_wf_def lockout_limit_def)
next
  case (Remove ip)
  with assms show ?thesis
    by (auto simp: remove_ip_def blocklist_wf_def lockout_limit_def go_map_simps split: if_splits)
qed

interpretation bl: op_invariant blocklist_step blocklist_wf
  by unfold_locales (rule blocklist_step_wf)

text \<open>
  The contract: for one address the blocklist is a counter of consecutive failures that
  stops at the limit, where the address is blocked until it is removed.
\<close>

definition strikes :: "blocklist \<Rightarrow> string \<Rightarrow> int" where
  "strikes b ip =
     (case mget (blocked b) ip of
        Some e \<Rightarrow> failed_attempts e
      | None \<Rightarrow> (case failures b ip of None \<Rightarrow> 0 | Some n \<Rightarrow> n))"

fun lockout_step :: "int \<Rightarrow> string \<Rightarrow> int \<Rightarrow> blocklist_op \<Rightarrow> int" where
  "lockout_step limit ip n (Fail ip' now) = (if ip' = ip then min limit (n + 1) else n)"
| "lockout_step limit ip n (Succeed ip') = (if ip' = ip \<and> n < limit then 0 else n)"
| "lockout_step limit ip n (Remove ip') = (if ip' = ip then 0 else n)"

lemma strikes_bounds:
  assumes "blocklist_wf b"
  shows "0 \<le> strikes b ip \<and> strikes b ip \<le> lockout_limit b"
  using lockout_limit_pos [of b]
  by (cases "mget (blocked b) ip"; cases "failures b ip")
     (auto simp: strikes_def dest: wf_entry [OF assms] wf_counter [OF assms])

lemma is_blocked_strikes:
  assumes "blocklist_wf b"
  shows "is_blocked b ip \<longleftrightarrow> strikes b ip = lockout_limit b"
  using lockout_limit_pos [of b]
  by (cases "mget (blocked b) ip"; cases "failures b ip")
     (auto simp: is_blocked_def strikes_def dest: wf_entry [OF assms] wf_counter [OF assms])

lemma strikes_record_failure:
  assumes "blocklist_wf b"
  shows "strikes (fst (record_failure b ip' now)) ip =
    (if ip' = ip then min (lockout_limit b) (strikes b ip + 1) else strikes b ip)"
  using wf_entry [OF assms, of ip'] wf_counter [OF assms, of ip'] lockout_limit_pos [of b]
  by (auto simp: strikes_def record_failure_def Let_def lockout_limit_def
      go_map_simps split: option.splits if_splits)

lemma strikes_step:
  assumes "blocklist_wf b"
  shows "strikes (blocklist_step b x) ip = lockout_step (lockout_limit b) ip (strikes b ip) x"
proof (cases x)
  case (Fail ip' now)
  with assms show ?thesis by (simp add: strikes_record_failure)
next
  case (Succeed ip')
  then show ?thesis
    using wf_entry [OF assms, of ip'] wf_counter [OF assms, of ip']
    by (auto simp: strikes_def record_success_def split: option.splits)
next
  case (Remove ip')
  then show ?thesis
    by (auto simp: strikes_def remove_ip_def go_map_simps split: option.split)
qed

lemma strikes_run:
  "blocklist_wf b \<Longrightarrow>
   strikes (run_ops blocklist_step b xs) ip =
     foldl (lockout_step (lockout_limit b) ip) (strikes b ip) xs"
  by (induction xs arbitrary: b) (simp_all add: blocklist_step_wf strikes_step)

subsection \<open>clientip.go\<close>

text \<open>
  \<open>net.SplitHostPort\<close>: \<open>None\<close> where Go returns an error. The address parser and
  printer of package \<open>net\<close> are parameters: \<open>parse_ip\<close> gives \<open>None\<close> for a nil
  \<open>net.IP\<close>, and equality of the values it returns stands for \<open>IP.Equal\<close>.
\<close>

record 'ip net_lib =
  parse_ip :: "string \<Rightarrow> 'ip option"
  ip_string :: "'ip \<Rightarrow> string"

fun index_byte :: "string \<Rightarrow> char \<Rightarrow> nat option" where
  "index_byte [] c = None"
| "index_byte (x # xs) c = (if x = c then Some 0 else map_option Suc (index_byte xs c))"

fun last_index_byte :: "string \<Rightarrow> char \<Rightarrow> nat option" where
  "last_index_byte [] c = None"
| "last_index_byte (x # xs) c =
     (case last_index_byte xs c of
        Some i \<Rightarrow> Some (Suc i)
      | None \<Rightarrow> if x = c then Some 0 else None)"

definition split_host_port :: "string \<Rightarrow> (string \<times> string) option" where
  "split_host_port hp =
     (let finish = (\<lambda>host i j k.
            if CHR ''['' \<in> set (drop j hp) \<or> CHR '']'' \<in> set (drop k hp) then None
            else Some (host, drop (Suc i) hp))
      in case last_index_byte hp (CHR '':'') of
        None \<Rightarrow> None
      | Some i \<Rightarrow>
          if has_prefix hp ''['' then
            (case index_byte hp (CHR '']'') of
               None \<Rightarrow> None
             | Some e \<Rightarrow> if Suc e = i then finish (drop 1 (take e hp)) i 1 (Suc e) else None)
          else
            (let host = take i hp in
             if CHR '':'' \<in> set host then None else finish host i 0 0))"

record 'ip resolver =
  trusted_proxy :: "'ip option"

definition new_resolver :: "'ip net_lib \<Rightarrow> string \<Rightarrow> 'ip resolver" where
  "new_resolver net proxy = \<lparr>trusted_proxy = parse_ip net proxy\<rparr>"

definition resolve_ip :: "'ip net_lib \<Rightarrow> 'ip resolver \<Rightarrow> string \<Rightarrow> string \<Rightarrow> string" where
  "resolve_ip net r remote_addr cf_header =
     (let host = (case split_host_port remote_addr of
                    None \<Rightarrow> remote_addr | Some (h, _) \<Rightarrow> h);
          raw = parse_ip net (trim_space host);
          direct = (case raw of Some ip \<Rightarrow> ip_string net ip | None \<Rightarrow> host)
      in if trusted_proxy r \<noteq> None \<and> raw \<noteq> None \<and> raw = trusted_proxy r then
           (case parse_ip net (trim_space cf_header) of
              Some forwarded \<Rightarrow> ip_string net forwarded
            | None \<Rightarrow> direct)
         else direct)"

text \<open>The peer the decision is about: the parsed host part of the TCP remote address.\<close>

definition peer_ip :: "'ip net_lib \<Rightarrow> string \<Rightarrow> 'ip option" where
  "peer_ip net remote_addr =
     parse_ip net (trim_space (case split_host_port remote_addr of
                                 None \<Rightarrow> remote_addr | Some (h, _) \<Rightarrow> h))"

lemma last_index_byte_append:
  "c \<notin> set port \<Longrightarrow> last_index_byte (host @ c # port) c = Some (length host)"
proof (induction host)
  case Nil
  moreover have "last_index_byte port c = None" if "c \<notin> set port"
    using that by (induction port) auto
  ultimately show ?case by simp
qed simp

lemma split_host_port_plain:
  assumes "\<forall>c \<in> set host \<union> set port. c \<noteq> CHR '':'' \<and> c \<noteq> CHR ''['' \<and> c \<noteq> CHR '']''"
  shows "split_host_port (host @ CHR '':'' # port) = Some (host, port)"
proof -
  have "last_index_byte (host @ CHR '':'' # port) (CHR '':'') = Some (length host)"
    using assms by (intro last_index_byte_append) auto
  moreover have "\<not> has_prefix (host @ CHR '':'' # port) ''[''"
    using assms by (cases host) (auto simp: has_prefix_def)
  ultimately show ?thesis
    using assms by (auto simp: split_host_port_def Let_def)
qed

subsection \<open>ratelimit.go\<close>

text \<open>
  The bucket arithmetic is in \<open>float64\<close>. Numbers are rationals and \<open>fl\<close> is the rounding
  applied to the result of each operation; of it the properties use that it is monotone and
  exact on the integers \<open>float64\<close> represents (IEEE 754 rounding to nearest is both).
\<close>

definition float_rounding :: "(rat \<Rightarrow> rat) \<Rightarrow> bool" where
  "float_rounding fl \<longleftrightarrow> mono fl \<and> (\<forall>n. \<bar>n\<bar> \<le> 2 ^ 53 \<longrightarrow> fl (of_int n) = of_int n)"

record bucket =
  tokens :: rat
  last_seen :: timestamp

record rate_limiter =
  rate :: rat
  capacity :: rat
  buckets :: "string \<rightharpoonup> bucket"

definition new_rate_limiter :: "(rat \<Rightarrow> rat) \<Rightarrow> int \<Rightarrow> int \<Rightarrow> rate_limiter" where
  "new_rate_limiter fl per_second burst =
     \<lparr>rate = fl (of_int per_second), capacity = fl (of_int burst), buckets = Map.empty\<rparr>"

text \<open>\<open>Duration.Seconds\<close>: the whole seconds plus the rest over 1e9, division truncating.\<close>

definition whole_seconds :: "duration \<Rightarrow> int" where
  "whole_seconds d = sgn d * (\<bar>d\<bar> div nanos_per_second)"

definition duration_seconds :: "(rat \<Rightarrow> rat) \<Rightarrow> duration \<Rightarrow> rat" where
  "duration_seconds fl d =
     (let sec = whole_seconds d;
          nsec = d - sec * nanos_per_second
      in fl (fl (of_int sec) + fl (fl (of_int nsec) / of_int nanos_per_second)))"

definition allow ::
    "(rat \<Rightarrow> rat) \<Rightarrow> rate_limiter \<Rightarrow> string \<Rightarrow> timestamp \<Rightarrow> rate_limiter \<times> bool" where
  "allow fl r ip now =
     (let b = (case buckets r ip of
                 None \<Rightarrow> \<lparr>tokens = capacity r, last_seen = now\<rparr> | Some b \<Rightarrow> b);
          elapsed = duration_seconds fl (time_sub now (last_seen b));
          filled = fl (tokens b + fl (elapsed * rate r));
          capped = (if capacity r < filled then capacity r else filled);
          allowed = (1 \<le> capped);
          left = (if allowed then fl (capped - 1) else capped)
      in (r\<lparr>buckets := (buckets r)(ip \<mapsto> \<lparr>tokens = left, last_seen = now\<rparr>)\<rparr>, allowed))"

fun allow_all ::
    "(rat \<Rightarrow> rat) \<Rightarrow> rate_limiter \<Rightarrow> string \<Rightarrow> timestamp list \<Rightarrow> rate_limiter \<times> bool list" where
  "allow_all fl r ip [] = (r, [])"
| "allow_all fl r ip (t # ts) =
     (let (r1, a) = allow fl r ip t; (r2, as) = allow_all fl r1 ip ts in (r2, a # as))"

subsection \<open>The rate limiter: lemmas\<close>

lemma fl_int: "float_rounding fl \<Longrightarrow> \<bar>n\<bar> \<le> 2 ^ 53 \<Longrightarrow> fl (of_int n) = of_int n"
  by (simp add: float_rounding_def)

lemma fl_0 [simp]: "float_rounding fl \<Longrightarrow> fl 0 = 0"
  using fl_int [of fl 0] by simp

lemma fl_1: "float_rounding fl \<Longrightarrow> fl 1 = 1"
  using fl_int [of fl 1] by simp

lemma fl_mono: "float_rounding fl \<Longrightarrow> x \<le> y \<Longrightarrow> fl x \<le> fl y"
  by (auto simp: float_rounding_def dest: monoD)

lemma fl_nonneg: "float_rounding fl \<Longrightarrow> 0 \<le> x \<Longrightarrow> 0 \<le> fl x"
  using fl_mono [of fl 0 x] by simp

lemma fl_ge_1: "float_rounding fl \<Longrightarrow> 1 \<le> x \<Longrightarrow> 1 \<le> fl x"
  using fl_mono [of fl 1 x] by (simp add: fl_1)

lemma duration_seconds_0 [simp]: "float_rounding fl \<Longrightarrow> duration_seconds fl 0 = 0"
  by (simp add: duration_seconds_def whole_seconds_def)

lemma whole_seconds:
  assumes "0 \<le> d"
  shows "0 \<le> whole_seconds d" and "whole_seconds d * nanos_per_second \<le> d"
    and "nanos_per_second \<le> d \<Longrightarrow> 1 \<le> whole_seconds d"
proof -
  have eq: "whole_seconds d = d div nanos_per_second"
    using assms by (cases "d = 0") (simp_all add: whole_seconds_def sgn_if)
  have pos: "0 < nanos_per_second"
    by (simp add: nanos_per_second_def)
  show "0 \<le> whole_seconds d"
    unfolding eq using assms pos by (simp add: pos_imp_zdiv_nonneg_iff)
  show "whole_seconds d * nanos_per_second \<le> d"
    unfolding eq using pos pos_mod_sign [OF pos, of d] by (simp add: minus_mod_eq_div_mult [symmetric])
  show "1 \<le> whole_seconds d" if "nanos_per_second \<le> d"
    unfolding eq using zdiv_mono1 [OF that pos] pos by simp
qed

lemma fl_nanos_nonneg:
  assumes fl: "float_rounding fl" and "0 \<le> d"
  shows "0 \<le> fl (fl (of_int (d - whole_seconds d * nanos_per_second)) / of_int nanos_per_second)"
proof -
  have "0 \<le> d - whole_seconds d * nanos_per_second"
    using whole_seconds(2) [OF assms(2)] by linarith
  then have "(0 :: rat) \<le> of_int (d - whole_seconds d * nanos_per_second)"
    by (simp only: of_int_0_le_iff)
  then show ?thesis
    by (intro fl_nonneg [OF fl] divide_nonneg_pos) (simp_all add: nanos_per_second_def)
qed

lemma duration_seconds_nonneg:
  assumes fl: "float_rounding fl" and d: "0 \<le> d"
  shows "0 \<le> duration_seconds fl d"
proof -
  have "0 \<le> fl (of_int (whole_seconds d))"
    by (rule fl_nonneg [OF fl]) (simp add: whole_seconds(1) [OF d])
  from add_nonneg_nonneg [OF this fl_nanos_nonneg [OF assms]] show ?thesis
    unfolding duration_seconds_def Let_def by (rule fl_nonneg [OF fl])
qed

lemma duration_seconds_ge_1:
  assumes fl: "float_rounding fl" and d: "nanos_per_second \<le> d"
  shows "1 \<le> duration_seconds fl d"
proof -
  have d0: "0 \<le> d"
    using d by (simp add: nanos_per_second_def)
  have "1 \<le> fl (of_int (whole_seconds d))"
    by (rule fl_ge_1 [OF fl]) (simp add: whole_seconds(3) [OF d0 d])
  with fl_nanos_nonneg [OF fl d0] show ?thesis
    unfolding duration_seconds_def Let_def by (intro fl_ge_1 [OF fl]) (rule add_increasing2)
qed

text \<open>A bucket never holds more than the capacity, whatever the clock does.\<close>

definition limiter_capped :: "(rat \<Rightarrow> rat) \<Rightarrow> rate_limiter \<Rightarrow> bool" where
  "limiter_capped fl r \<longleftrightarrow> float_rounding fl \<and>
     fl (capacity r) = capacity r \<and> (\<forall>ip b. buckets r ip = Some b \<longrightarrow> tokens b \<le> capacity r)"

definition limiter_step ::
    "(rat \<Rightarrow> rat) \<Rightarrow> rate_limiter \<Rightarrow> string \<times> timestamp \<Rightarrow> rate_limiter" where
  "limiter_step fl r x = fst (allow fl r (fst x) (snd x))"

lemma limiter_step_capped:
  assumes "limiter_capped fl r"
  shows "limiter_capped fl (limiter_step fl r x)"
proof -
  have "fl (y - 1) \<le> capacity r" if "y \<le> capacity r" for y
    using fl_mono [of fl "y - 1" "capacity r"] that assms
    by (simp add: limiter_capped_def)
  then show ?thesis
    using assms by (auto simp: limiter_capped_def limiter_step_def allow_def Let_def split: if_splits)
qed

interpretation rl: op_invariant "limiter_step fl" "limiter_capped fl" for fl
  by unfold_locales (rule limiter_step_capped)

text \<open>One request of an address at the instant of its last one takes one token.\<close>

lemma allow_same_instant:
  assumes fl: "float_rounding fl" and k: "0 \<le> k" "k \<le> c" "c \<le> 2 ^ 53"
    and r: "capacity r = of_int c"
    and b: "(case buckets r ip of None \<Rightarrow> \<lparr>tokens = capacity r, last_seen = now\<rparr> | Some b \<Rightarrow> b) =
      \<lparr>tokens = of_int k, last_seen = now\<rparr>"
  shows "allow fl r ip now =
      (r\<lparr>buckets := (buckets r)(ip \<mapsto> \<lparr>tokens = of_int (if 1 \<le> k then k - 1 else k),
                                     last_seen = now\<rparr>)\<rparr>, 1 \<le> k)"
proof -
  have "fl (of_int k) = of_int k"
    using k by (intro fl_int [OF fl]) simp
  moreover have "fl (of_int k - 1) = of_int (k - 1)" if "1 \<le> k"
    using fl_int [OF fl, of "k - 1"] k that by simp
  moreover have "(1 :: rat) \<le> of_int k \<longleftrightarrow> 1 \<le> k"
    by simp
  moreover have "time_sub now now = 0"
    by (simp add: time_sub_def)
  ultimately show ?thesis
    using fl k(2) unfolding allow_def b by (simp add: Let_def r)
qed

lemma allow_all_same_instant:
  assumes "float_rounding fl" and "0 \<le> k" "k \<le> c" "c \<le> 2 ^ 53"
    and "capacity r = of_int c"
    and "(case buckets r ip of None \<Rightarrow> \<lparr>tokens = capacity r, last_seen = now\<rparr> | Some b \<Rightarrow> b) =
      \<lparr>tokens = of_int k, last_seen = now\<rparr>"
  shows "snd (allow_all fl r ip (replicate n now)) = map (\<lambda>i. int i < k) [0..<n]"
  using assms
proof (induction n arbitrary: r k)
  case (Suc n)
  define k' where "k' = (if 1 \<le> k then k - 1 else k)"
  define r' where "r' = r\<lparr>buckets := (buckets r)(ip \<mapsto> \<lparr>tokens = of_int k', last_seen = now\<rparr>)\<rparr>"
  have step: "allow fl r ip now = (r', 1 \<le> k)"
    using allow_same_instant [OF Suc.prems] by (simp add: k'_def r'_def)
  have "snd (allow_all fl r' ip (replicate n now)) = map (\<lambda>i. int i < k') [0..<n]"
    by (rule Suc.IH) (use Suc.prems in \<open>simp_all add: k'_def r'_def\<close>)
  moreover have "map (\<lambda>i. int i < k) [0..<Suc n] = (1 \<le> k) # map (\<lambda>i. int i < k') [0..<n]"
    using Suc.prems(2) by (auto simp: k'_def map_upt_Suc simp del: upt_Suc)
  ultimately show ?case
    using step by (simp add: split_beta)
qed simp

text \<open>
  In exact arithmetic a request that passes pays for its token: the balance after it is at
  most the balance before plus what the elapsed time earned.
\<close>

definition balance :: "rate_limiter \<Rightarrow> string \<Rightarrow> rat" where
  "balance r ip = (case buckets r ip of None \<Rightarrow> capacity r | Some b \<Rightarrow> tokens b)"

lemma duration_seconds_exact:
  "duration_seconds (\<lambda>x. x) d = of_int d / of_int nanos_per_second"
  by (simp add: duration_seconds_def Let_def nanos_per_second_def field_simps)

lemma allow_exact_balance:
  assumes "0 \<le> rate r" and "buckets r ip = Some b" and "last_seen b \<le> now"
  shows "balance (fst (allow (\<lambda>x. x) r ip now)) ip +
      (if snd (allow (\<lambda>x. x) r ip now) then 1 else 0) \<le>
    balance r ip + rate r * of_int (now - last_seen b) / of_int nanos_per_second"
proof -
  have "time_sub now (last_seen b) \<le> now - last_seen b"
    using assms(3) by (simp add: time_sub_def)
  then have "(of_int (time_sub now (last_seen b)) :: rat) \<le> of_int (now - last_seen b)"
    by (simp only: of_int_le_iff)
  then have "of_int (time_sub now (last_seen b)) / of_int nanos_per_second * rate r \<le>
      rate r * of_int (now - last_seen b) / of_int nanos_per_second"
    using assms(1) mult_left_mono
    by (simp add: nanos_per_second_def divide_right_mono mult.commute)
  then show ?thesis
    using assms(2)
    by (auto simp: allow_def Let_def balance_def duration_seconds_exact)
qed

lemma allow_frame [simp]:
  "rate (fst (allow fl r ip now)) = rate r"
  "capacity (fst (allow fl r ip now)) = capacity r"
  "ip' \<noteq> ip \<Longrightarrow> buckets (fst (allow fl r ip now)) ip' = buckets r ip'"
  by (simp_all add: allow_def Let_def)

lemma allow_fresh:
  "buckets r ip = None \<Longrightarrow>
   allow fl r ip now =
     allow fl (r\<lparr>buckets := (buckets r)(ip \<mapsto> \<lparr>tokens = capacity r, last_seen = now\<rparr>)\<rparr>) ip now"
  by (simp add: allow_def Let_def)

lemma allow_bucket:
  assumes fl: "float_rounding fl" and r: "0 \<le> rate r" "0 \<le> capacity r"
    and b: "buckets r ip = Some b" "0 \<le> tokens b" "last_seen b \<le> now"
  shows "\<exists>b'. buckets (fst (allow fl r ip now)) ip = Some b' \<and> 0 \<le> tokens b' \<and> last_seen b' = now"
proof -
  have "0 \<le> time_sub now (last_seen b)"
    using b(3) by (simp add: time_sub_def)
  then have "0 \<le> fl (duration_seconds fl (time_sub now (last_seen b)) * rate r)"
    using fl r(1) by (simp add: duration_seconds_nonneg fl_nonneg)
  then have "0 \<le> fl (tokens b + fl (duration_seconds fl (time_sub now (last_seen b)) * rate r))"
    using fl b(2) by (simp add: fl_nonneg)
  then show ?thesis
    using fl r(2) b(1) by (simp add: allow_def Let_def fl_nonneg)
qed

lemma float_rounding_id: "float_rounding (\<lambda>x. x)"
  by (simp add: float_rounding_def mono_def)

lemma allow_all_window:
  assumes "0 \<le> rate r" "0 \<le> capacity r" "buckets r ip = Some b" "0 \<le> tokens b"
    and "sorted (last_seen b # ts)"
  shows "of_nat (length (filter (\<lambda>a. a) (snd (allow_all (\<lambda>x. x) r ip ts)))) \<le>
    tokens b + rate r * of_int (last (last_seen b # ts) - last_seen b) / of_int nanos_per_second"
  using assms
proof (induction ts arbitrary: r b)
  case (Cons t ts)
  let ?r = "fst (allow (\<lambda>x. x) r ip t)" and ?a = "snd (allow (\<lambda>x. x) r ip t)"
  have "last_seen b \<le> t"
    using Cons.prems(5) by simp
  with Cons.prems obtain b' where
    b': "buckets ?r ip = Some b'" "0 \<le> tokens b'" "last_seen b' = t"
    using allow_bucket [OF float_rounding_id] by blast
  let ?n = "of_nat (length (filter (\<lambda>a. a) (snd (allow_all (\<lambda>x. x) ?r ip ts)))) :: rat"
  have "?n \<le> tokens b' + rate ?r * of_int (last (last_seen b' # ts) - last_seen b') / of_int nanos_per_second"
    by (rule Cons.IH) (use Cons.prems b' in simp_all)
  moreover have "tokens b' + (if ?a then 1 else 0) \<le>
      tokens b + rate r * of_int (t - last_seen b) / of_int nanos_per_second"
    using allow_exact_balance [of r ip b t] Cons.prems b'(1) \<open>last_seen b \<le> t\<close>
    by (simp add: balance_def)
  moreover have "rate r * of_int (t - last_seen b) / of_int nanos_per_second +
      rate r * of_int (last (t # ts) - t) / of_int nanos_per_second =
      rate r * of_int (last (t # ts) - last_seen b) / of_int nanos_per_second"
    by (simp add: algebra_simps flip: add_divide_distrib)
  ultimately have "?n + (if ?a then 1 else 0) \<le> tokens b +
      rate r * of_int (last (t # ts) - last_seen b) / of_int nanos_per_second"
    using b'(3) by simp
  then show ?case
    by (simp add: split_beta split: if_splits)
qed simp

text \<open>A small address library for the witnesses: dotted addresses stand for themselves.\<close>

definition dotted_net :: "string net_lib" where
  "dotted_net = \<lparr>parse_ip = (\<lambda>s. if CHR ''.'' \<in> set s then Some s else None), ip_string = (\<lambda>s. s)\<rparr>"

subsection \<open>Properties\<close>

text \<open>
  C13: For every sequence of failures, successes and removals, the blocklist refines one
  saturating counter per address: an address is blocked exactly when its counter of
  consecutive failures has reached the limit.
\<close>
theorem blocklist_refines_counter:
  "is_blocked (run_ops blocklist_step (new_blocklist n) xs) ip \<longleftrightarrow>
     foldl (lockout_step (max 1 n) ip) 0 xs = max 1 n"
proof -
  have wf: "blocklist_wf (new_blocklist n)"
    by (rule blocklist_wf_new)
  have lim: "lockout_limit (new_blocklist n) = max 1 n"
    by (simp add: lockout_limit_def new_blocklist_def)
  have "lockout_limit (run_ops blocklist_step b xs) = lockout_limit b" for b
    by (induction xs arbitrary: b) simp_all
  moreover have "strikes (new_blocklist n) ip = 0"
    by (simp add: strikes_def new_blocklist_def)
  ultimately show ?thesis
    using is_blocked_strikes [OF bl.run_inv [OF wf]] strikes_run [OF wf, of xs ip] lim by simp
qed

text \<open>
  A blocked address stays blocked, whatever the other requests do, until it is removed by
  name; in particular neither a successful authentication nor more failures lift the block.
\<close>
theorem blocked_until_removed:
  assumes "blocklist_wf b" and "is_blocked b ip" and "list_all (\<lambda>x. x \<noteq> Remove ip) xs"
  shows "is_blocked (run_ops blocklist_step b xs) ip"
proof (rule bl.run_stable [where Q = "\<lambda>b. is_blocked b ip", OF assms(1,2) _ assms(3)])
  fix b x
  assume wf: "blocklist_wf b" and "is_blocked b ip" "x \<noteq> Remove ip"
  then have "strikes b ip = lockout_limit b"
    by (simp add: is_blocked_strikes)
  then have "strikes (blocklist_step b x) ip = lockout_limit b"
    using \<open>x \<noteq> Remove ip\<close> by (cases x) (simp_all add: strikes_step [OF wf] del: blocklist_step.simps)
  then show "is_blocked (blocklist_step b x) ip"
    by (simp add: is_blocked_strikes [OF blocklist_step_wf [OF wf]] del: blocklist_step.simps)
qed

theorem blocked_until_removed_witness:
  "is_blocked (run_ops blocklist_step
     (run_ops blocklist_step (new_blocklist 2) [Fail ''a'' 1, Fail ''a'' 2])
     [Succeed ''a'', Remove ''b'', Fail ''a'' 3]) ''a''"
proof (rule blocked_until_removed)
  show "blocklist_wf (run_ops blocklist_step (new_blocklist 2) [Fail ''a'' 1, Fail ''a'' 2])"
    by (rule bl.run_inv [OF blocklist_wf_new])
  show "is_blocked (run_ops blocklist_step (new_blocklist 2) [Fail ''a'' 1, Fail ''a'' 2]) ''a''"
    by (simp add: new_blocklist_def record_failure_def is_blocked_def mget_def)
qed simp

text \<open>
  The listing of the blocklist endpoint is complete and sound (it holds exactly the
  addresses that are blocked), sorted by address and without duplicates.
\<close>
theorem list_blocked_correct:
  assumes "blocklist_wf b"
  shows "entry_ip ` set (list_blocked b) = {ip. is_blocked b ip} \<and>
    sorted (map entry_ip (list_blocked b)) \<and> distinct (map entry_ip (list_blocked b))"
proof -
  have mok: "mok (blocked b)"
    using assms by (simp add: blocklist_wf_def)
  have "entry_ip (snd p) = fst p" if "p \<in> set (blocked b)" for p
    using that wf_entry [OF assms, of "fst p" "snd p"] mok by (simp add: mget_eq_Some)
  then have keys: "map entry_ip (map snd (blocked b)) = map fst (blocked b)"
    by simp
  then have "entry_ip ` set (list_blocked b) = fst ` set (blocked b)"
    by (metis list.set_map list_blocked_def set_sort)
  moreover have "distinct (map entry_ip (list_blocked b))"
    using mok keys unfolding list_blocked_def mok_def
    by (metis (no_types, lifting) card_distinct distinct_card length_map length_sort list.set_map set_sort)
  ultimately show ?thesis
    by (auto simp: list_blocked_def is_blocked_def mget_eq_None)
qed

theorem list_blocked_correct_witness:
  "entry_ip ` set (list_blocked (run_ops blocklist_step (new_blocklist 1) [Fail ''b'' 1, Fail ''a'' 2])) =
     {ip. is_blocked (run_ops blocklist_step (new_blocklist 1) [Fail ''b'' 1, Fail ''a'' 2]) ip}"
  using list_blocked_correct [OF bl.run_inv [OF blocklist_wf_new [of 1], of "[Fail ''b'' 1, Fail ''a'' 2]"]]
  by blast

text \<open>
  C36: The forwarded-address header is ignored unless the TCP peer itself is the configured
  proxy, so a direct caller cannot choose the address it is blocked, limited or audited under.
\<close>
theorem forwarded_header_needs_proxy:
  assumes "trusted_proxy r = None \<or> peer_ip net remote_addr \<noteq> trusted_proxy r"
  shows "resolve_ip net r remote_addr header = resolve_ip net r remote_addr header'"
  using assms by (auto simp: resolve_ip_def peer_ip_def Let_def)

theorem forwarded_header_needs_proxy_witness:
  "resolve_ip dotted_net (new_resolver dotted_net ''10.0.0.5'') ''10.0.0.6:1234'' ''203.0.113.9'' =
     resolve_ip dotted_net (new_resolver dotted_net ''10.0.0.5'') ''10.0.0.6:1234'' []"
proof (rule forwarded_header_needs_proxy)
  have "trim_space ''10.0.0.6'' = ''10.0.0.6''"
    by (rule trim_space_plain) (simp add: space_bytes_def space_runes_def)
  then show "trusted_proxy (new_resolver dotted_net ''10.0.0.5'') = None \<or>
      peer_ip dotted_net ''10.0.0.6:1234'' \<noteq> trusted_proxy (new_resolver dotted_net ''10.0.0.5'')"
    using split_host_port_plain [of "''10.0.0.6''" "''1234''"]
    by (simp add: peer_ip_def new_resolver_def dotted_net_def)
qed

text \<open>
  From the trusted proxy, a header that parses is the address the request counts for, in
  its canonical form.
\<close>
theorem forwarded_header_from_proxy:
  assumes "trusted_proxy r = Some p" and "peer_ip net remote_addr = Some p"
    and "parse_ip net (trim_space header) = Some ip"
  shows "resolve_ip net r remote_addr header = ip_string net ip"
  using assms by (simp add: resolve_ip_def peer_ip_def Let_def)

theorem forwarded_header_from_proxy_witness:
  "resolve_ip dotted_net (new_resolver dotted_net ''10.0.0.5'') ''10.0.0.5:1234'' ''203.0.113.9'' =
     ''203.0.113.9''"
proof -
  have t: "trim_space ''10.0.0.5'' = ''10.0.0.5''" "trim_space ''203.0.113.9'' = ''203.0.113.9''"
    by (rule trim_space_plain, simp add: space_bytes_def space_runes_def)+
  have "resolve_ip dotted_net (new_resolver dotted_net ''10.0.0.5'') ''10.0.0.5:1234'' ''203.0.113.9'' =
      ip_string dotted_net ''203.0.113.9''"
    by (rule forwarded_header_from_proxy [where p = "''10.0.0.5''"])
       (use t split_host_port_plain [of "''10.0.0.5''" "''1234''"] in
         \<open>simp_all add: peer_ip_def new_resolver_def dotted_net_def\<close>)
  then show ?thesis by (simp add: dotted_net_def)
qed

text \<open>
  C35: Requests of one address arriving at one instant pass exactly as many times as the
  configured burst, for every rounding of the floating-point arithmetic.
\<close>
theorem burst_is_exact:
  assumes "float_rounding fl" and "0 \<le> burst" and "burst \<le> 2 ^ 53"
  shows "snd (allow_all fl (new_rate_limiter fl per_second burst) ip (replicate n now)) =
    map (\<lambda>i. int i < burst) [0..<n]"
  by (rule allow_all_same_instant [OF assms(1), of burst burst])
     (use assms in \<open>simp_all add: new_rate_limiter_def fl_int\<close>)

theorem burst_is_exact_witness:
  "snd (allow_all (\<lambda>x. x) (new_rate_limiter (\<lambda>x. x) 10 2) ''ip'' (replicate 4 7)) =
     [True, True, False, False]"
  using burst_is_exact [OF float_rounding_id, of 2 10 "''ip''" 4 7] by (simp add: upt_rec)

text \<open>
  In exact arithmetic the requests of an address that pass between the first and the last
  instant of any run number at most the burst plus the rate times the seconds elapsed.
\<close>
theorem rate_is_bounded:
  assumes "0 \<le> per_second" and "0 \<le> burst" and "sorted (t # ts)"
  shows "of_nat (length (filter (\<lambda>a. a) (snd (allow_all (\<lambda>x. x)
            (new_rate_limiter (\<lambda>x. x) per_second burst) ip (t # ts))))) \<le>
    of_int burst + (of_int per_second :: rat) * of_int (last (t # ts) - t) / of_int nanos_per_second"
proof -
  let ?r = "new_rate_limiter (\<lambda>x. x) per_second burst"
  let ?b = "\<lparr>tokens = of_int burst, last_seen = t\<rparr> :: bucket"
  let ?r' = "?r\<lparr>buckets := (buckets ?r)(ip \<mapsto> ?b)\<rparr>"
  have "allow (\<lambda>x. x) ?r ip t = allow (\<lambda>x. x) ?r' ip t"
    using allow_fresh [of ?r ip "\<lambda>x. x" t] by (simp add: new_rate_limiter_def)
  then have "allow_all (\<lambda>x. x) ?r ip (t # ts) = allow_all (\<lambda>x. x) ?r' ip (t # ts)"
    by simp
  moreover have "of_nat (length (filter (\<lambda>a. a) (snd (allow_all (\<lambda>x. x) ?r' ip (t # ts))))) \<le>
      tokens ?b + rate ?r' * of_int (last (last_seen ?b # t # ts) - last_seen ?b) / of_int nanos_per_second"
    by (rule allow_all_window) (use assms in \<open>auto simp: new_rate_limiter_def\<close>)
  ultimately show ?thesis
    by (simp add: new_rate_limiter_def)
qed

theorem rate_is_bounded_witness:
  "of_nat (length (filter (\<lambda>a. a) (snd (allow_all (\<lambda>x. x)
      (new_rate_limiter (\<lambda>x. x) 10 20) ''ip'' [0, 5, 1000000000])))) \<le> (30 :: rat)"
  using rate_is_bounded [of 10 20 0 "[5, 1000000000]" "''ip''"]
  by (simp add: nanos_per_second_def)

text \<open>
  A limited address recovers: one second without a request is enough for its next request
  to pass, for every rounding and every rate and burst the configuration accepts.
\<close>
theorem limiter_recovers:
  assumes "float_rounding fl" and "1 \<le> rate r" and "1 \<le> capacity r"
    and "buckets r ip = Some b" and "0 \<le> tokens b"
    and "nanos_per_second \<le> time_sub now (last_seen b)"
  shows "snd (allow fl r ip now)"
proof -
  let ?e = "duration_seconds fl (time_sub now (last_seen b))"
  have "1 * 1 \<le> ?e * rate r"
    using duration_seconds_ge_1 [OF assms(1,6)] assms(2) by (intro mult_mono) auto
  then have "1 \<le> fl (?e * rate r)"
    by (intro fl_ge_1 [OF assms(1)]) simp
  with assms(5) have "1 \<le> fl (tokens b + fl (?e * rate r))"
    by (intro fl_ge_1 [OF assms(1)]) simp
  then show ?thesis
    using assms(3,4) by (simp add: allow_def Let_def)
qed

theorem limiter_recovers_witness:
  "snd (allow (\<lambda>x. x)
     \<lparr>rate = 1, capacity = 5, buckets = [''ip'' \<mapsto> \<lparr>tokens = 0, last_seen = 0\<rparr>]\<rparr> ''ip'' 1000000000)"
  by (rule limiter_recovers [where b = "\<lparr>tokens = 0, last_seen = 0\<rparr>"])
     (simp_all add: float_rounding_id nanos_per_second_def time_sub_def)

text \<open>
  When SHA-256 has no collision with the installed token, the server accepts exactly the
  headers that carry that token after \<open>Bearer\<close>, up to surrounding white space.
\<close>
theorem only_the_token_authenticates:
  assumes "load_token sha256 (Inr b) = Inr a"
    and "\<And>t. sha256 t = sha256 (trim_space b) \<Longrightarrow> t = trim_space b"
  shows "authenticate sha256 a header \<longleftrightarrow>
    (\<exists>cand. header = ''Bearer '' @ cand \<and> trim_space cand = trim_space b)"
  using assms(2) authenticate_loaded [OF assms(1)]
  by (metis bearer_prefix_def)

theorem only_the_token_authenticates_witness:
  "authenticate (\<lambda>s. s) \<lparr>hash = replicate 43 CHR ''a'', fingerprint = hex_encode (replicate 8 CHR ''a'')\<rparr> ''Bearer x'' \<longleftrightarrow>
     (\<exists>cand. ''Bearer x'' = ''Bearer '' @ cand \<and> trim_space cand = trim_space (replicate 43 CHR ''a''))"
proof (rule only_the_token_authenticates)
  have "trim_space (replicate 43 CHR ''a'') = replicate 43 CHR ''a''"
    by (rule trim_space_plain) (simp add: space_bytes_def space_runes_def)
  then show "load_token (\<lambda>s. s) (Inr (replicate 43 CHR ''a'')) =
      Inr \<lparr>hash = replicate 43 CHR ''a'', fingerprint = hex_encode (replicate 8 CHR ''a'')\<rparr>"
    by (simp add: load_token_def Let_def)
qed simp

end
