(* ===== verification/Api.thy ===== *)
theory Api
  imports Go_Codec
begin

section \<open>internal/api/types.go, and JSON decoding as the handlers use it\<close>

text \<open>
  The result of one execution, the two request types, and how a strict JSON decoder is used:
  one value, then nothing but white space. The decoder of \<open>encoding/json\<close> is a parameter.
\<close>

definition format_json :: string where
  "format_json = ''json_object''"

definition format_lines :: string where
  "format_lines = ''lines''"

record exec_result =
  success :: bool
  exit_code :: int
  format :: string
  exec_output :: string
  raw_output :: string
  stderr :: "string list"
  truncated :: bool
  timed_out :: bool
  duration_ms :: int
  session_restarted :: bool

text \<open>The zero value \<open>api.ExecutionResult{}\<close>.\<close>

definition empty_result :: exec_result where
  "empty_result = \<lparr>success = False, exit_code = 0, format = [], exec_output = [], raw_output = [],
     stderr = [], truncated = False, timed_out = False, duration_ms = 0, session_restarted = False\<rparr>"

record exec_request =
  req_command :: string
  req_format :: string

record job_request = exec_request +
  req_timeout_sec :: int

definition empty_exec_request :: exec_request where
  "empty_exec_request = \<lparr>req_command = [], req_format = []\<rparr>"

definition empty_job_request :: job_request where
  "empty_job_request = \<lparr>req_command = [], req_format = [], req_timeout_sec = 0\<rparr>"

text \<open>
  What \<open>Decoder.Decode\<close> finds when it scans an input from its start into a value that may
  hold defaults: a value and the input after it, an error, or the end of the input before a
  value is complete.
\<close>

datatype 'a json_scan = Json_Value 'a string | Json_Bad string | Json_More

type_synonym 'a json_decoder = "'a \<Rightarrow> string \<Rightarrow> 'a json_scan"

definition is_json_space :: "char \<Rightarrow> bool" where
  "is_json_space c \<longleftrightarrow> c \<in> {CHR 0x20, CHR 0x09, CHR 0x0D, CHR 0x0A}"

text \<open>A second \<open>Decode\<close> returns \<open>io.EOF\<close> exactly when only white space is left.\<close>

definition json_at_eof :: "string \<Rightarrow> bool" where
  "json_at_eof rest = list_all is_json_space rest"

end
