(* ===== verification/Config.thy ===== *)
theory Config
  imports Api Security
begin

section \<open>internal/config/config.go\<close>

text \<open>
  The agent's configuration: its defaults, its validation, loading it from a file, and the
  durations computed from it. \<open>filepath.Join\<close>, the address parser and the JSON decoder are
  parameters.
\<close>

record config =
  listen_address :: string
  token_path :: string
  tls_cert_path :: string
  tls_key_path :: string
  trusted_proxy_ip :: string
  max_sessions :: int
  idle_session_timeout_sec :: int
  command_timeout_sec :: int
  long_command_timeout_sec :: int
  max_async_jobs :: int
  max_job_results :: int
  job_retention_sec :: int
  update_check_interval_min :: int
  updater_path :: string
  updater_config_path :: string
  max_output_bytes :: int
  max_request_bytes :: int
  rate_limit_per_sec :: int
  rate_limit_burst :: int
  auth_failures_before_block :: int
  audit_log_path :: string
  audit_max_bytes :: int
  kill_switch_path :: string

definition default_config :: "(string list \<Rightarrow> string) \<Rightarrow> string \<Rightarrow> config" where
  "default_config join base_dir =
     \<lparr>listen_address = ''0.0.0.0:8443'',
      token_path = join [base_dir, ''token.txt''],
      tls_cert_path = join [base_dir, ''tls-cert.pem''],
      tls_key_path = join [base_dir, ''tls-key.pem''],
      trusted_proxy_ip = [],
      max_sessions = 5,
      idle_session_timeout_sec = 1800,
      command_timeout_sec = 120,
      long_command_timeout_sec = 7200,
      max_async_jobs = 4,
      max_job_results = 20,
      job_retention_sec = 3600,
      update_check_interval_min = 20,
      updater_path = join [base_dir, ''updater.exe''],
      updater_config_path = join [base_dir, ''updater-config.json''],
      max_output_bytes = 4 * 1024 * 1024,
      max_request_bytes = 1024 * 1024,
      rate_limit_per_sec = 10,
      rate_limit_burst = 20,
      auth_failures_before_block = 5,
      audit_log_path = join [base_dir, ''logs'', ''audit.jsonl''],
      audit_max_bytes = 50 * 1024 * 1024,
      kill_switch_path = join [base_dir, ''KILLED'']\<rparr>"

datatype config_error =
    Bad_Listen_Address | Bad_Trusted_Proxy | Missing_Paths | Bad_Max_Sessions | Bad_Timeouts
  | Bad_Jobs | Bad_Update_Interval | Missing_Updater_Paths | Bad_Sizes | Bad_Limits | Bad_Audit_Size
  | Read_Config string | Decode_Config string | Trailing_Config

text \<open>\<open>Validate\<close>: \<open>None\<close> is the nil error.\<close>

definition validate :: "'ip net_lib \<Rightarrow> config \<Rightarrow> config_error option" where
  "validate net c =
     (if split_host_port (listen_address c) = None then Some Bad_Listen_Address
      else if trusted_proxy_ip c \<noteq> [] \<and> parse_ip net (trusted_proxy_ip c) = None
        then Some Bad_Trusted_Proxy
      else if token_path c = [] \<or> tls_cert_path c = [] \<or> tls_key_path c = [] \<or>
              audit_log_path c = [] \<or> kill_switch_path c = [] then Some Missing_Paths
      else if max_sessions c < 1 \<or> max_sessions c > 100 then Some Bad_Max_Sessions
      else if idle_session_timeout_sec c < 30 \<or> command_timeout_sec c < 1 \<or>
              long_command_timeout_sec c < command_timeout_sec c then Some Bad_Timeouts
      else if max_async_jobs c < 1 \<or> max_async_jobs c > 100 \<or> max_job_results c < max_async_jobs c \<or>
              max_job_results c > 1000 \<or> job_retention_sec c < 60 then Some Bad_Jobs
      else if update_check_interval_min c < 0 \<or> update_check_interval_min c > 7 * 24 * 60
        then Some Bad_Update_Interval
      else if update_check_interval_min c > 0 \<and> (updater_path c = [] \<or> updater_config_path c = [])
        then Some Missing_Updater_Paths
      else if max_output_bytes c < 1024 \<or> max_request_bytes c < 1024 then Some Bad_Sizes
      else if rate_limit_per_sec c < 1 \<or> rate_limit_burst c < 1 \<or> auth_failures_before_block c < 1
        then Some Bad_Limits
      else if audit_max_bytes c < 1024 * 1024 then Some Bad_Audit_Size
      else None)"

definition utf8_bom :: string where
  "utf8_bom = [CHR 0xEF, CHR 0xBB, CHR 0xBF]"

text \<open>\<open>Load\<close>: the file's bytes (or the read error) decoded over the defaults, then validated.\<close>

definition load_config ::
    "'ip net_lib \<Rightarrow> config json_decoder \<Rightarrow> config \<Rightarrow> string + string \<Rightarrow> config_error + config" where
  "load_config net dec defaults file =
     (case file of
        Inl err \<Rightarrow> Inl (Read_Config err)
      | Inr b \<Rightarrow>
          (case dec defaults (trim_prefix b utf8_bom) of
             Json_Bad msg \<Rightarrow> Inl (Decode_Config msg)
           | Json_More \<Rightarrow> Inl (Decode_Config ''unexpected EOF'')
           | Json_Value c rest \<Rightarrow>
               (if \<not> json_at_eof rest then Inl Trailing_Config
                else (case validate net c of
                        Some err \<Rightarrow> Inl err
                      | None \<Rightarrow> Inr c))))"

definition command_timeout :: "config \<Rightarrow> duration" where
  "command_timeout c = seconds (command_timeout_sec c)"

definition long_command_timeout :: "config \<Rightarrow> duration" where
  "long_command_timeout c = seconds (long_command_timeout_sec c)"

definition job_retention :: "config \<Rightarrow> duration" where
  "job_retention c = seconds (job_retention_sec c)"

definition update_check_interval :: "config \<Rightarrow> duration" where
  "update_check_interval c = int64 (update_check_interval_min c * (60 * nanos_per_second))"

definition idle_timeout :: "config \<Rightarrow> duration" where
  "idle_timeout c = seconds (idle_session_timeout_sec c)"

text \<open>The ranges \<open>Validate\<close> guarantees to the rest of the program.\<close>

definition config_ok :: "config \<Rightarrow> bool" where
  "config_ok c \<longleftrightarrow>
     1 \<le> max_sessions c \<and> max_sessions c \<le> 100 \<and>
     30 \<le> idle_session_timeout_sec c \<and>
     1 \<le> command_timeout_sec c \<and> command_timeout_sec c \<le> long_command_timeout_sec c \<and>
     1 \<le> max_async_jobs c \<and> max_async_jobs c \<le> 100 \<and>
     max_async_jobs c \<le> max_job_results c \<and> max_job_results c \<le> 1000 \<and>
     60 \<le> job_retention_sec c \<and>
     0 \<le> update_check_interval_min c \<and> update_check_interval_min c \<le> 10080 \<and>
     1024 \<le> max_output_bytes c \<and> 1024 \<le> max_request_bytes c \<and>
     1 \<le> rate_limit_per_sec c \<and> 1 \<le> rate_limit_burst c \<and>
     1 \<le> auth_failures_before_block c \<and> 1048576 \<le> audit_max_bytes c"

lemma validate_ok: "validate net c = None \<Longrightarrow> config_ok c"
  by (auto simp: validate_def config_ok_def split: if_splits)

lemma load_config_Inr:
  "load_config net dec d file = Inr c \<Longrightarrow> validate net c = None"
  by (auto simp: load_config_def split: sum.splits json_scan.splits if_splits option.splits)

lemma update_check_interval_exact:
  assumes "config_ok c"
  shows "update_check_interval c = update_check_interval_min c * 60000000000"
  using assms unfolding update_check_interval_def nanos_per_second_def config_ok_def
  by (subst int64_id) simp_all

subsection \<open>Properties\<close>

text \<open>
  A configuration that loads has every limit in the range the server relies on, whatever
  the file says.
\<close>
theorem loaded_config_in_range:
  assumes "load_config net dec defaults file = Inr c"
  shows "config_ok c"
  by (rule validate_ok [OF load_config_Inr [OF assms]])

text \<open>The defaults under a base directory, with paths joined by a backslash.\<close>

definition agent_defaults :: config where
  "agent_defaults = default_config (join_with [CHR 0x5C]) ''C:''"

lemma default_address: "split_host_port ''0.0.0.0:8443'' = Some (''0.0.0.0'', ''8443'')"
  using split_host_port_plain [of "''0.0.0.0''" "''8443''"] by simp

lemma agent_defaults_valid: "validate net agent_defaults = None"
  by (simp add: validate_def agent_defaults_def default_config_def default_address)

theorem loaded_config_in_range_witness:
  "config_ok agent_defaults"
  by (rule loaded_config_in_range [of dotted_net "\<lambda>d b. Json_Value d []" agent_defaults "Inr []"])
     (simp add: load_config_def trim_prefix_def json_at_eof_def agent_defaults_valid)

text \<open>
  A UTF-8 byte order mark at the start of the file, as Windows PowerShell writes it,
  changes nothing: the file loads as it does without the mark.
\<close>
theorem bom_is_ignored:
  assumes "\<not> has_prefix b utf8_bom"
  shows "load_config net dec defaults (Inr (utf8_bom @ b)) = load_config net dec defaults (Inr b)"
  using assms by (simp add: load_config_def trim_prefix_def)

theorem bom_is_ignored_witness:
  "load_config dotted_net (\<lambda>d b. Json_Value d b) agent_defaults (Inr (utf8_bom @ ''{}'')) =
     load_config dotted_net (\<lambda>d b. Json_Value d b) agent_defaults (Inr ''{}'')"
  by (rule bom_is_ignored) (simp add: has_prefix_def utf8_bom_def)

text \<open>
  Validation puts no upper bound on the second-valued settings, and the product with
  \<open>time.Second\<close> wraps: a retention of 9223372037 seconds is accepted and becomes negative,
  while every accepted value up to 9223372036 is exact.
\<close>
theorem accepted_retention_wraps:
  "validate dotted_net (agent_defaults\<lparr>job_retention_sec := 9223372037\<rparr>) = None \<and>
   job_retention (agent_defaults\<lparr>job_retention_sec := 9223372037\<rparr>) < 0 \<and>
   list_all (\<lambda>n. job_retention (agent_defaults\<lparr>job_retention_sec := n\<rparr>) = n * 1000000000)
     [60, 3600, 9223372036]"
proof (intro conjI)
  show "validate dotted_net (agent_defaults\<lparr>job_retention_sec := 9223372037\<rparr>) = None"
    by (simp add: validate_def agent_defaults_def default_config_def default_address)
  show "job_retention (agent_defaults\<lparr>job_retention_sec := 9223372037\<rparr>) < 0"
    by (simp add: job_retention_def seconds_def nanos_per_second_def int64_def)
  show "list_all (\<lambda>n. job_retention (agent_defaults\<lparr>job_retention_sec := n\<rparr>) = n * 1000000000)
      [60, 3600, 9223372036]"
    by (simp add: job_retention_def seconds_id nanos_per_second_def)
qed

end
