(* ===== verification/Frame.thy ===== *)
theory Frame
  imports Api
begin

section \<open>internal/powershell: bounded buffer, command wrapper, framed results\<close>

text \<open>
  \<open>buffer.go\<close>: the bounded stderr buffer. \<open>wrapper.go\<close>: the one-line script sent to
  PowerShell, which carries the user's command in Base64, and the lines that script prints.
  \<open>frame.go\<close>: the parser of those lines. \<open>encoding/json\<close>'s decoding of the metadata is a
  parameter.
\<close>

subsection \<open>buffer.go\<close>

record bounded_buffer =
  buf :: string
  buf_max :: int
  buf_truncated :: bool

definition new_bounded_buffer :: "int \<Rightarrow> bounded_buffer" where
  "new_bounded_buffer m = \<lparr>buf = [], buf_max = m, buf_truncated = False\<rparr>"

text \<open>\<open>Write\<close> keeps what fits and always reports the whole slice as written.\<close>

definition buffer_write :: "bounded_buffer \<Rightarrow> string \<Rightarrow> bounded_buffer \<times> nat" where
  "buffer_write b p =
     (let remaining = buf_max b - int (length (buf b));
          fits = (if remaining > 0 then min remaining (int (length p)) else remaining);
          b1 = (if remaining > 0 then b\<lparr>buf := buf b @ take (nat fits) p\<rparr> else b);
          b2 = (if fits < int (length p) then b1\<lparr>buf_truncated := True\<rparr> else b1)
      in (b2, length p))"

definition buffer_string :: "bounded_buffer \<Rightarrow> string" where
  "buffer_string b = buf b"

subsection \<open>wrapper.go: the script\<close>

text \<open>\<open>fmt.Sprintf\<close> with the verbs the wrapper uses; numbers are given in decimal.\<close>

fun sprintf :: "string \<Rightarrow> string list \<Rightarrow> string" where
  "sprintf [] as = []"
| "sprintf [x] as = [x]"
| "sprintf (x # y # f) as =
     (if x = CHR ''%'' \<and> (y = CHR ''s'' \<or> y = CHR ''d'') \<and> as \<noteq> []
      then hd as @ sprintf f (tl as)
      else x # sprintf (y # f) as)"

fun decimal :: "nat \<Rightarrow> string" where
  "decimal n = (if n < 10 then [char_of (48 + n)] else decimal (n div 10) @ [char_of (48 + n mod 10)])"

declare decimal.simps [simp del]

definition frame_chunk_chars :: nat where
  "frame_chunk_chars = 3072"

definition begin_marker :: "string \<Rightarrow> string" where
  "begin_marker i = ''___WLM_BEGIN_'' @ i @ ''___''"

definition end_marker :: "string \<Rightarrow> string" where
  "end_marker i = ''___WLM_END_'' @ i @ ''___''"

text \<open>A quote, a double quote, a back quote and a backslash of the script, by their codes.\<close>

abbreviation (input) quote :: char where "quote \<equiv> CHR 0x27"
abbreviation (input) dquote :: char where "dquote \<equiv> CHR 0x22"
abbreviation (input) backslash :: char where "backslash \<equiv> CHR 0x5C"

definition chunk_emitter :: "string \<Rightarrow> string \<Rightarrow> string \<Rightarrow> string" where
  "chunk_emitter i pfx variable =
     sprintf
       ''$__wlm_b64_%s_%s=[Convert]::ToBase64String($__wlm_%s_%s);for($__wlm_i_%s_%s=0;$__wlm_i_%s_%s -lt $__wlm_b64_%s_%s.Length;$__wlm_i_%s_%s+=%d){[Console]::Out.WriteLine('%s:'+$__wlm_b64_%s_%s.Substring($__wlm_i_%s_%s,[Math]::Min(%d,$__wlm_b64_%s_%s.Length-$__wlm_i_%s_%s)))}''
       [pfx, i, variable, i, pfx, i, pfx, i, pfx, i, pfx, i,
        decimal frame_chunk_chars, pfx, pfx, i, pfx, i,
        decimal frame_chunk_chars, pfx, i, pfx, i]"

definition cleanup_variables :: "string \<Rightarrow> string" where
  "cleanup_variables i =
     sprintf ''Get-Variable -Name '*%s*' -ErrorAction SilentlyContinue|Remove-Variable -Force -ErrorAction SilentlyContinue'' [i]"

definition wrapper_head :: "string \<Rightarrow> string \<Rightarrow> string list" where
  "wrapper_head encoded i =
     [sprintf ''try{$__wlm_buf_%s=$Host.UI.RawUI.BufferSize;if($__wlm_buf_%s.Width -lt 200){$__wlm_buf_%s.Width=200;$Host.UI.RawUI.BufferSize=$__wlm_buf_%s}}catch{}'' [i, i, i, i],
      sprintf ''$__wlm_cmd_%s=[Text.Encoding]::UTF8.GetString([Convert]::FromBase64String('%s'))'' [i, encoded],
      sprintf (''$__wlm_err_%s=Join-Path ([IO.Path]::GetTempPath()) '%s'' @ [quote]) [i, ''wlm-'' @ i @ ''.err''],
      sprintf ''$__wlm_ok_%s=$true'' [i],
      sprintf ''$__wlm_exit_%s=0'' [i],
      sprintf ''$__wlm_trunc_%s=$false'' [i],
      sprintf (''$__wlm_caught_%s='' @ [quote, quote]) [i],
      ''$global:LASTEXITCODE=0'',
      sprintf ''try{$__wlm_sb_%s=[ScriptBlock]::Create($__wlm_cmd_%s);$__wlm_out_%s=@(. $__wlm_sb_%s 2> $__wlm_err_%s 3>&1 4>&1 5>&1 6>&1);$__wlm_psok_%s=$?;$__wlm_native_%s=$LASTEXITCODE}catch{$__wlm_ok_%s=$false;$__wlm_exit_%s=1;$__wlm_out_%s=@();$__wlm_caught_%s=($_|Out-String)}'' [i, i, i, i, i, i, i, i, i, i, i],
      sprintf ''if(-not $__wlm_psok_%s){$__wlm_ok_%s=$false;if($__wlm_exit_%s -eq 0){$__wlm_exit_%s=1}}'' [i, i, i, i],
      sprintf ''if($__wlm_native_%s -is [int] -and $__wlm_native_%s -ne 0){$__wlm_ok_%s=$false;$__wlm_exit_%s=[int]$__wlm_native_%s}'' [i, i, i, i, i],
      sprintf (''$__wlm_stderr_%s=if(Test-Path -LiteralPath $__wlm_err_%s){[IO.File]::ReadAllText($__wlm_err_%s)}else{'' @ [quote, quote] @ ''}'') [i, i, i],
      sprintf ''if($__wlm_caught_%s){$__wlm_stderr_%s+=$__wlm_caught_%s}'' [i, i, i],
      sprintf ''if(-not [string]::IsNullOrWhiteSpace($__wlm_stderr_%s)){$__wlm_ok_%s=$false;if($__wlm_exit_%s -eq 0){$__wlm_exit_%s=1}}'' [i, i, i, i]]"

definition wrapper_text :: "string \<Rightarrow> string \<Rightarrow> string" where
  "wrapper_text fmt i =
     (if fmt = ''json_object'' then
        sprintf (''try{$__wlm_text_%s=Microsoft.PowerShell.Utility'' @ [backslash] @ ''ConvertTo-Json -InputObject $__wlm_out_%s -Depth 20 -Compress}catch{$__wlm_ok_%s=$false;$__wlm_exit_%s=1;$__wlm_stderr_%s+=($_|Out-String);$__wlm_text_%s='null'}'') [i, i, i, i, i, i]
      else
        sprintf (''$__wlm_text_%s=(($__wlm_out_%s|ForEach-Object{$_|Out-String -Stream}) -join '' @ [dquote, CHR 0x60] @ ''n'' @ [dquote] @ '')'') [i, i])"

definition wrapper_tail :: "string \<Rightarrow> string \<Rightarrow> nat \<Rightarrow> string list" where
  "wrapper_tail fmt i max_bytes =
     [sprintf ''$__wlm_ob_%s=[Text.Encoding]::UTF8.GetBytes([string]$__wlm_text_%s)'' [i, i],
      sprintf ''$__wlm_eb_%s=[Text.Encoding]::UTF8.GetBytes([string]$__wlm_stderr_%s)'' [i, i],
      sprintf ''if($__wlm_ob_%s.Length -gt %d){$__wlm_ob_%s=[byte[]]$__wlm_ob_%s[0..%d];$__wlm_trunc_%s=$true}'' [i, decimal max_bytes, i, i, decimal (max_bytes - 1), i],
      sprintf ''if($__wlm_eb_%s.Length -gt %d){$__wlm_eb_%s=[byte[]]$__wlm_eb_%s[0..%d];$__wlm_trunc_%s=$true}'' [i, decimal max_bytes, i, i, decimal (max_bytes - 1), i],
      sprintf (''$__wlm_meta_%s='' @ [CHR 0x40] @ ''{success=$__wlm_ok_%s;exit_code=$__wlm_exit_%s;format='%s';truncated=$__wlm_trunc_%s}|Microsoft.PowerShell.Utility'' @ [backslash] @ ''ConvertTo-Json -Compress'') [i, i, i, fmt, i],
      sprintf ''[Console]::Out.WriteLine('%s')'' [begin_marker i],
      sprintf ''$__wlm_mb_%s=[Convert]::ToBase64String([Text.Encoding]::UTF8.GetBytes($__wlm_meta_%s));[Console]::Out.WriteLine('M:'+$__wlm_mb_%s)'' [i, i, i],
      chunk_emitter i ''O'' ''ob'',
      chunk_emitter i ''E'' ''eb'',
      sprintf ''[Console]::Out.WriteLine('%s')'' [end_marker i],
      sprintf ''if(Test-Path -LiteralPath $__wlm_err_%s){Remove-Item -LiteralPath $__wlm_err_%s -Force -ErrorAction SilentlyContinue}'' [i, i],
      cleanup_variables i]"

definition build_wrapper :: "string \<Rightarrow> string \<Rightarrow> string \<Rightarrow> nat \<Rightarrow> string" where
  "build_wrapper command fmt i max_bytes =
     join_with '';'' (wrapper_head (b64_encode command) i @ [wrapper_text fmt i] @
                    wrapper_tail fmt i max_bytes)"

subsection \<open>wrapper.go: the lines the script prints\<close>

record frame_meta =
  meta_success :: bool
  meta_exit_code :: int
  meta_format :: string
  meta_truncated :: bool

definition empty_meta :: frame_meta where
  "empty_meta = \<lparr>meta_success = False, meta_exit_code = 0, meta_format = [], meta_truncated = False\<rparr>"

record framed_result =
  fr_meta :: frame_meta
  fr_output :: string
  fr_stderr :: string
  raw_prelude :: string

text \<open>The loop of \<open>chunkEmitter\<close>: substrings of \<open>frameChunkChars\<close> characters.\<close>

function chunks :: "nat \<Rightarrow> string \<Rightarrow> string list" where
  "chunks n s = (if n = 0 \<or> s = [] then [] else take n s # chunks n (drop n s))"
  by pat_completeness auto
termination
  by (relation "measure (\<lambda>(n, s). length s)") auto

declare chunks.simps [simp del]

definition emitted_lines :: "string \<Rightarrow> string \<Rightarrow> string \<Rightarrow> string \<Rightarrow> string list" where
  "emitted_lines i meta_json out err =
     [begin_marker i, ''M:'' @ b64_encode meta_json] @
     map (\<lambda>c. ''O:'' @ c) (chunks frame_chunk_chars (b64_encode out)) @
     map (\<lambda>c. ''E:'' @ c) (chunks frame_chunk_chars (b64_encode err)) @
     [end_marker i]"

text \<open>\<open>[Console]::Out.WriteLine\<close> ends each line with CR LF.\<close>

definition printed :: "string list \<Rightarrow> string" where
  "printed ls = concat (map (\<lambda>l. l @ [CHR 0x0D, CHR 0x0A]) ls)"

definition decode_meta :: "(string \<Rightarrow> frame_meta option) \<Rightarrow> string \<Rightarrow> frame_meta option" where
  "decode_meta unmarshal encoded =
     (case b64_decode encoded of None \<Rightarrow> None | Some b \<Rightarrow> unmarshal b)"

subsection \<open>bufio.Scanner\<close>

text \<open>
  \<open>bufio.Scanner\<close> with \<open>ScanLines\<close> and a buffer of at most 64 KiB, on the bytes read
  until the pipe ends (cleanly, or with the read error given): a line of 65536 bytes or more
  fills the buffer and is an error, a final line without a line feed is a line, and one
  carriage return before the line feed is dropped.
\<close>

datatype scan_error = Token_Too_Long | Read_Failed string

definition max_token :: nat where
  "max_token = 65536"

definition drop_cr :: "string \<Rightarrow> string" where
  "drop_cr l = trim_suffix l [CHR 0x0D]"

fun scan_pieces :: "string list \<Rightarrow> scan_error option \<Rightarrow> string list \<times> scan_error option" where
  "scan_pieces [] e = ([], e)"
| "scan_pieces [l] e =
     (if max_token \<le> length l then ([], Some Token_Too_Long)
      else if l = [] then ([], e) else ([drop_cr l], e))"
| "scan_pieces (l # m # ls) e =
     (if max_token \<le> length l then ([], Some Token_Too_Long)
      else (let (rest, e') = scan_pieces (m # ls) e in (drop_cr l # rest, e')))"

definition scan_lines :: "string \<Rightarrow> scan_error option \<Rightarrow> string list \<times> scan_error option" where
  "scan_lines bytes e = scan_pieces (split_byte (CHR 0x0A) bytes) e"

subsection \<open>frame.go\<close>

datatype frame_error =
    No_Metadata | Bad_Output | Bad_Stderr | Bad_Metadata | Invalid_Line
  | Scan_Failed scan_error | Unexpected_EOF

record frame_state =
  in_frame :: bool
  fs_meta :: frame_meta
  output64 :: string
  stderr64 :: string
  prelude :: string

definition frame_start :: frame_state where
  "frame_start = \<lparr>in_frame = False, fs_meta = empty_meta, output64 = [], stderr64 = [], prelude = []\<rparr>"

definition acc_limit :: "nat \<Rightarrow> nat" where
  "acc_limit max_bytes = b64_encoded_len max_bytes + frame_chunk_chars"

definition frame_end :: "frame_state \<Rightarrow> frame_error + framed_result" where
  "frame_end st =
     (if meta_format (fs_meta st) = [] then Inl No_Metadata
      else (case b64_decode (output64 st) of
              None \<Rightarrow> Inl Bad_Output
            | Some out \<Rightarrow>
                (case b64_decode (stderr64 st) of
                   None \<Rightarrow> Inl Bad_Stderr
                 | Some err \<Rightarrow> Inr \<lparr>fr_meta = fs_meta st, fr_output = out, fr_stderr = err,
                                  raw_prelude = prelude st\<rparr>)))"

text \<open>One iteration of the scan loop: go on with a state (\<open>Inl\<close>) or return (\<open>Inr\<close>).\<close>

definition frame_line ::
    "(string \<Rightarrow> frame_meta option) \<Rightarrow> string \<Rightarrow> nat \<Rightarrow> frame_state \<Rightarrow> string \<Rightarrow>
     frame_state + (frame_error + framed_result)" where
  "frame_line unmarshal i max_bytes st text =
     (let line = trim_suffix text [CHR 0x0D] in
      if \<not> in_frame st then
        (if line = begin_marker i then Inl (st\<lparr>in_frame := True\<rparr>)
         else if prelude st = [] then Inl (st\<lparr>prelude := line\<rparr>)
         else if length (prelude st) < max_bytes then
           Inl (st\<lparr>prelude := prelude st @ [CHR 0x0A] @ line\<rparr>)
         else Inl st)
      else if line = end_marker i then Inr (frame_end st)
      else if has_prefix line ''M:'' then
        (case decode_meta unmarshal (trim_prefix line ''M:'') of
           None \<Rightarrow> Inr (Inl Bad_Metadata)
         | Some m \<Rightarrow> Inl (st\<lparr>fs_meta := m\<rparr>))
      else if has_prefix line ''O:'' then
        Inl (if length (output64 st) < acc_limit max_bytes
             then st\<lparr>output64 := output64 st @ trim_prefix line ''O:''\<rparr> else st)
      else if has_prefix line ''E:'' then
        Inl (if length (stderr64 st) < acc_limit max_bytes
             then st\<lparr>stderr64 := stderr64 st @ trim_prefix line ''E:''\<rparr> else st)
      else Inr (Inl Invalid_Line))"

fun frame_loop ::
    "(string \<Rightarrow> frame_meta option) \<Rightarrow> string \<Rightarrow> nat \<Rightarrow> frame_state \<Rightarrow> string list \<Rightarrow>
     scan_error option \<Rightarrow> frame_error + framed_result" where
  "frame_loop unmarshal i max_bytes st [] e =
     (case e of Some err \<Rightarrow> Inl (Scan_Failed err) | None \<Rightarrow> Inl Unexpected_EOF)"
| "frame_loop unmarshal i max_bytes st (l # ls) e =
     (case frame_line unmarshal i max_bytes st l of
        Inl st' \<Rightarrow> frame_loop unmarshal i max_bytes st' ls e
      | Inr r \<Rightarrow> r)"

text \<open>The state of the scan loop after some lines, while it has not returned.\<close>

fun frame_steps ::
    "(string \<Rightarrow> frame_meta option) \<Rightarrow> string \<Rightarrow> nat \<Rightarrow> frame_state \<Rightarrow> string list \<Rightarrow> frame_state option" where
  "frame_steps unmarshal i m st [] = Some st"
| "frame_steps unmarshal i m st (l # ls) =
     (case frame_line unmarshal i m st l of
        Inl st' \<Rightarrow> frame_steps unmarshal i m st' ls
      | Inr r \<Rightarrow> None)"

definition read_frame ::
    "(string \<Rightarrow> frame_meta option) \<Rightarrow> string \<Rightarrow> nat \<Rightarrow> string \<Rightarrow> scan_error option \<Rightarrow>
     frame_error + framed_result" where
  "read_frame unmarshal i max_bytes bytes read_err =
     (let (ls, e) = scan_lines bytes read_err in frame_loop unmarshal i max_bytes frame_start ls e)"

subsection \<open>Lemmas: the buffer\<close>

lemma buffer_write_spec:
  fixes p :: string
  assumes "buf b = take (nat (buf_max b)) seen" and "0 \<le> buf_max b"
    and "buf_truncated b \<longleftrightarrow> buf_max b < int (length seen)"
  defines "b' \<equiv> fst (buffer_write b p)"
  shows "buf b' = take (nat (buf_max b')) (seen @ p)" and "buf_max b' = buf_max b"
    and "buf_truncated b' \<longleftrightarrow> buf_max b' < int (length (seen @ p))"
proof -
  have len: "int (length (buf b)) = min (buf_max b) (int (length seen))"
    using assms(1,2) by (auto simp: min_def)
  show "buf_max b' = buf_max b"
    by (simp add: b'_def buffer_write_def Let_def)
  show "buf_truncated b' \<longleftrightarrow> buf_max b' < int (length (seen @ p))"
    using assms(3) len by (auto simp: b'_def buffer_write_def Let_def)
  show "buf b' = take (nat (buf_max b')) (seen @ p)"
  proof (cases "int (length seen) < buf_max b")
    case True
    then have "nat (buf_max b) - length seen = nat (buf_max b - int (length seen))"
      by linarith
    with True show ?thesis
      using assms(1) len by (auto simp: b'_def buffer_write_def Let_def min_def)
  next
    case False
    with assms(1) len show ?thesis
      by (simp add: b'_def buffer_write_def Let_def)
  qed
qed

definition buffer_writes :: "bounded_buffer \<Rightarrow> string list \<Rightarrow> bounded_buffer" where
  "buffer_writes b ps = run_ops (\<lambda>b p. fst (buffer_write b p)) b ps"

lemma buffer_writes_spec:
  assumes "buf b = take (nat (buf_max b)) seen" and "0 \<le> buf_max b"
    and "buf_truncated b \<longleftrightarrow> buf_max b < int (length seen)"
  shows "buf (buffer_writes b ps) = take (nat (buf_max b)) (seen @ concat ps) \<and>
    (buf_truncated (buffer_writes b ps) \<longleftrightarrow> buf_max b < int (length (seen @ concat ps)))"
  using assms
proof (induction ps arbitrary: b seen)
  case (Cons p ps)
  from Cons.IH [OF buffer_write_spec(1) [OF Cons.prems] _ buffer_write_spec(3) [OF Cons.prems]]
  show ?case
    using Cons.prems(2) buffer_write_spec(2) [OF Cons.prems] by (simp add: buffer_writes_def)
qed (simp add: buffer_writes_def)

subsection \<open>Lemmas: the script\<close>

lemma set_sprintf: "set (sprintf f as) \<subseteq> set f \<union> \<Union> (set ` set as)"
proof (induction f as rule: sprintf.induct)
  case (3 x y f as)
  show ?case
  proof (cases "x = CHR ''%'' \<and> (y = CHR ''s'' \<or> y = CHR ''d'') \<and> as \<noteq> []")
    case True
    then have "set (sprintf f (tl as)) \<subseteq> set f \<union> \<Union> (set ` set (tl as))"
      using 3(1) by blast
    moreover have "set (hd as) \<subseteq> \<Union> (set ` set as)" "\<Union> (set ` set (tl as)) \<subseteq> \<Union> (set ` set as)"
      using True by (cases as; auto)+
    ultimately show ?thesis
      using True by auto
  next
    case False
    with 3(2) show ?thesis by auto
  qed
qed auto

lemma set_join_with: "set (join_with sep ws) \<subseteq> set sep \<union> \<Union> (set ` set ws)"
  by (induction sep ws rule: join_with.induct) auto

lemma join_with_Cons: "ws \<noteq> [] \<Longrightarrow> join_with sep (w # ws) = w @ sep @ join_with sep ws"
  by (cases ws) auto

lemma not_in_sprintf:
  "c \<notin> set f \<Longrightarrow> \<forall>a \<in> set as. c \<notin> set a \<Longrightarrow> c \<notin> set (sprintf f as)"
  using set_sprintf [of f as] by auto

lemma not_in_join:
  "c \<notin> set sep \<Longrightarrow> \<forall>w \<in> set ws. c \<notin> set w \<Longrightarrow> c \<notin> set (join_with sep ws)"
  using set_join_with [of sep ws] by auto

text \<open>The text of a number is made of decimal digits.\<close>

lemma decimal_digits: "set (decimal n) \<subseteq> set ''0123456789''"
proof (induction n rule: decimal.induct)
  case (1 n)
  have digit: "char_of (48 + d) \<in> set ''0123456789''" if "d < 10" for d :: nat
  proof -
    from that have "d \<in> {0, 1, 2, 3, 4, 5, 6, 7, 8, 9}" by auto
    then show ?thesis by (elim insertE) (simp_all add: char_of_def bit_0)
  qed
  show ?case
  proof (cases "n < 10")
    case True
    with digit show ?thesis by (subst decimal.simps) simp
  next
    case False
    with 1 digit [of "n mod 10"] show ?thesis by (subst decimal.simps) simp
  qed
qed

lemma command_part:
  "sprintf ''$__wlm_cmd_%s=[Text.Encoding]::UTF8.GetString([Convert]::FromBase64String('%s'))'' [i, encoded] =
   ''$__wlm_cmd_'' @ i @ ''=[Text.Encoding]::UTF8.GetString([Convert]::FromBase64String('' @ [quote] @
   encoded @ [quote] @ ''))''"
  by simp

subsection \<open>Lemmas: the printed lines and the scanner\<close>

lemma concat_chunks: "0 < n \<Longrightarrow> concat (chunks n s) = s"
  by (induction n s rule: chunks.induct) (subst chunks.simps, simp)

lemma chunks_bounds: "c \<in> set (chunks n s) \<Longrightarrow> length c \<le> n \<and> set c \<subseteq> set s"
proof (induction n s rule: chunks.induct)
  case (1 n s)
  from "1.prems" have "n \<noteq> 0" "s \<noteq> []" and "c = take n s \<or> c \<in> set (chunks n (drop n s))"
    by (auto simp: chunks.simps [of n s] split: if_splits)
  with "1.IH" show ?case
    by (auto dest: in_set_takeD in_set_dropD)
qed

text \<open>Lines that a printed stream can hold: no line feed, and short enough for the scanner.\<close>

definition printable :: "string \<Rightarrow> bool" where
  "printable l \<longleftrightarrow> CHR 0x0A \<notin> set l \<and> length l + 1 < max_token"

lemma scan_pieces_Cons:
  "ls \<noteq> [] \<Longrightarrow> length l < max_token \<Longrightarrow>
   scan_pieces (l # ls) e = (drop_cr l # fst (scan_pieces ls e), snd (scan_pieces ls e))"
  by (cases ls) (simp_all add: split_beta)

lemma scan_lines_Cons:
  "printable l \<Longrightarrow>
   scan_lines (l @ CHR 0x0D # CHR 0x0A # s) e =
     (l # fst (scan_lines s e), snd (scan_lines s e))"
  using split_byte_append [of "CHR 0x0A" "l @ [CHR 0x0D]" s]
  by (simp add: scan_lines_def scan_pieces_Cons printable_def drop_cr_def)

lemma scan_printed:
  "list_all printable ls \<Longrightarrow>
   scan_lines (printed ls @ s) e = (ls @ fst (scan_lines s e), snd (scan_lines s e))"
  by (induction ls) (simp_all add: printed_def scan_lines_Cons)

subsection \<open>Lemmas: the parser\<close>

lemma frame_loop_steps:
  "frame_steps unmarshal i m st ls = Some st' \<Longrightarrow>
   frame_loop unmarshal i m st (ls @ ls') e = frame_loop unmarshal i m st' ls' e"
  by (induction ls arbitrary: st) (auto split: sum.splits)

lemma trim_cr_id:
  assumes "CHR 0x0D \<notin> set l"
  shows "trim_suffix l [CHR 0x0D] = l"
proof -
  have "drop k l \<noteq> [CHR 0x0D]" for k
    using assms by (metis in_set_dropD list.set_intros(1))
  then show ?thesis by (simp add: trim_suffix_def)
qed

text \<open>Before the frame only the prelude changes.\<close>

lemma frame_steps_prelude:
  assumes "\<not> in_frame st" and "\<forall>l \<in> set ls. trim_suffix l [CHR 0x0D] \<noteq> begin_marker i"
  shows "\<exists>p. frame_steps unmarshal i m st ls = Some (st\<lparr>prelude := p\<rparr>)"
  using assms
proof (induction ls arbitrary: st)
  case Nil
  show ?case by (intro exI [of _ "prelude st"]) simp
next
  case (Cons l ls)
  have "\<exists>p. frame_line unmarshal i m st l = Inl (st\<lparr>prelude := p\<rparr>)"
    using Cons.prems by (auto simp: frame_line_def Let_def intro: exI [of _ "prelude st"])
  then obtain p where p: "frame_line unmarshal i m st l = Inl (st\<lparr>prelude := p\<rparr>)"
    by blast
  have "\<exists>q. frame_steps unmarshal i m (st\<lparr>prelude := p\<rparr>) ls = Some (st\<lparr>prelude := p\<rparr>\<lparr>prelude := q\<rparr>)"
    by (rule Cons.IH) (use Cons.prems in simp_all)
  with p show ?case by simp
qed

lemma frame_steps_output:
  assumes "in_frame st" and "\<forall>c \<in> set cs. CHR 0x0D \<notin> set c"
    and "length (output64 st) + length (concat cs) \<le> b64_encoded_len m"
  shows "frame_steps unmarshal i m st (map (\<lambda>c. ''O:'' @ c) cs) =
    Some (st\<lparr>output64 := output64 st @ concat cs\<rparr>)"
  using assms
proof (induction cs arbitrary: st)
  case (Cons c cs)
  then have "frame_line unmarshal i m st (''O:'' @ c) = Inl (st\<lparr>output64 := output64 st @ c\<rparr>)"
    by (simp add: frame_line_def trim_cr_id has_prefix_def trim_prefix_def end_marker_def
        acc_limit_def frame_chunk_chars_def)
  with Cons.IH [of "st\<lparr>output64 := output64 st @ c\<rparr>"] Cons.prems show ?case
    by simp
qed simp

lemma frame_steps_stderr:
  assumes "in_frame st" and "\<forall>c \<in> set cs. CHR 0x0D \<notin> set c"
    and "length (stderr64 st) + length (concat cs) \<le> b64_encoded_len m"
  shows "frame_steps unmarshal i m st (map (\<lambda>c. ''E:'' @ c) cs) =
    Some (st\<lparr>stderr64 := stderr64 st @ concat cs\<rparr>)"
  using assms
proof (induction cs arbitrary: st)
  case (Cons c cs)
  then have "frame_line unmarshal i m st (''E:'' @ c) = Inl (st\<lparr>stderr64 := stderr64 st @ c\<rparr>)"
    by (simp add: frame_line_def trim_cr_id has_prefix_def trim_prefix_def end_marker_def
        acc_limit_def frame_chunk_chars_def)
  with Cons.IH [of "st\<lparr>stderr64 := stderr64 st @ c\<rparr>"] Cons.prems show ?case
    by simp
qed simp

lemma frame_steps_append:
  "frame_steps unmarshal i m st (ls @ ls') =
     Option.bind (frame_steps unmarshal i m st ls) (\<lambda>st'. frame_steps unmarshal i m st' ls')"
  by (induction ls arbitrary: st) (auto split: sum.splits)

lemma b64_no_break: "CHR 0x0D \<notin> set (b64_encode s)" "CHR 0x0A \<notin> set (b64_encode s)"
  by (rule b64.enc_avoids, simp add: b64_alphabet_def b64_value_def b64_pad_def)+

lemma hex_no_break: "CHR 0x0D \<notin> set (hex_encode s)" "CHR 0x0A \<notin> set (hex_encode s)"
  by (rule hex.enc_avoids, simp add: hex_alphabet_def hex_value_def)+

lemma b64_chunks_concat: "concat (chunks frame_chunk_chars (b64_encode s)) = b64_encode s"
  by (simp add: concat_chunks frame_chunk_chars_def)

lemma b64_chunks_clean:
  "\<forall>c \<in> set (chunks frame_chunk_chars (b64_encode s)).
     CHR 0x0D \<notin> set c \<and> CHR 0x0A \<notin> set c \<and> length c \<le> 3072"
  using chunks_bounds [of _ frame_chunk_chars "b64_encode s"] b64_no_break [of s]
  by (auto simp: frame_chunk_chars_def)

lemma emitted_printable:
  assumes "length bs = 16" and "b64_encoded_len (length meta_json) \<le> 65000"
  shows "list_all printable (emitted_lines (hex_encode bs) meta_json out err)"
  using assms hex_no_break [of bs] b64_no_break [of meta_json] b64_chunks_clean
  by (fastforce simp: emitted_lines_def list_all_iff printable_def begin_marker_def end_marker_def
      max_token_def length_b64_encode)

lemma emitted_frame:
  assumes "unmarshal meta_json = Some meta" and "meta_format meta \<noteq> []"
    and "length out \<le> m" and "length err \<le> m"
    and "\<not> in_frame st" "output64 st = []" "stderr64 st = []"
  shows "frame_loop unmarshal (hex_encode bs) m st (emitted_lines (hex_encode bs) meta_json out err @ rest) e =
    Inr \<lparr>fr_meta = meta, fr_output = out, fr_stderr = err, raw_prelude = prelude st\<rparr>"
proof -
  let ?i = "hex_encode bs"
  let ?os = "chunks frame_chunk_chars (b64_encode out)"
  let ?es = "chunks frame_chunk_chars (b64_encode err)"
  let ?st1 = "st\<lparr>in_frame := True\<rparr>" and ?st2 = "st\<lparr>in_frame := True, fs_meta := meta\<rparr>"
  let ?st4 = "?st2\<lparr>output64 := b64_encode out, stderr64 := b64_encode err\<rparr>"
  have line1: "frame_line unmarshal ?i m st (begin_marker ?i) = Inl ?st1"
    using assms(5) hex_no_break [of bs] by (simp add: frame_line_def trim_cr_id begin_marker_def)
  have line2: "frame_line unmarshal ?i m ?st1 (''M:'' @ b64_encode meta_json) = Inl ?st2"
    using assms(1) b64_no_break [of meta_json]
    by (simp add: frame_line_def trim_cr_id end_marker_def has_prefix_def trim_prefix_def
        decode_meta_def b64_decode_encode)
  have lens: "length (b64_encode out) \<le> b64_encoded_len m" "length (b64_encode err) \<le> b64_encoded_len m"
    using assms(3,4) by (simp_all add: length_b64_encode b64_encoded_len_mono)
  have outs: "frame_steps unmarshal ?i m ?st2 (map (\<lambda>c. ''O:'' @ c) ?os) =
      Some (?st2\<lparr>output64 := b64_encode out\<rparr>)"
    using assms(6) lens b64_chunks_concat [of out] b64_chunks_clean [of out] frame_steps_output [of ?st2 ?os m] by simp
  have errs: "frame_steps unmarshal ?i m (?st2\<lparr>output64 := b64_encode out\<rparr>) (map (\<lambda>c. ''E:'' @ c) ?es) =
      Some ?st4"
    using assms(7) lens b64_chunks_concat [of err] b64_chunks_clean [of err]
      frame_steps_stderr [of "?st2\<lparr>output64 := b64_encode out\<rparr>" ?es m] by simp
  have "frame_steps unmarshal ?i m st
      ([begin_marker ?i, ''M:'' @ b64_encode meta_json] @ map (\<lambda>c. ''O:'' @ c) ?os @ map (\<lambda>c. ''E:'' @ c) ?es) =
      Some ?st4"
    using line1 line2 outs errs by (simp add: frame_steps_append)
  from frame_loop_steps [OF this, of "end_marker ?i # rest" e]
  have "frame_loop unmarshal ?i m st (emitted_lines ?i meta_json out err @ rest) e =
      frame_loop unmarshal ?i m ?st4 (end_marker ?i # rest) e"
    by (simp add: emitted_lines_def)
  moreover have "frame_line unmarshal ?i m ?st4 (end_marker ?i) = Inr (frame_end ?st4)"
    using hex_no_break [of bs] by (simp add: frame_line_def trim_cr_id end_marker_def)
  ultimately show ?thesis
    using assms(2) by (simp add: frame_end_def b64_decode_encode)
qed

text \<open>A frame is accepted only between its own markers.\<close>

lemma frame_loop_in_frame:
  "frame_loop unmarshal i m st ls e = Inr r \<Longrightarrow> in_frame st \<Longrightarrow>
   end_marker i \<in> (\<lambda>l. trim_suffix l [CHR 0x0D]) ` set ls"
proof (induction ls arbitrary: st)
  case (Cons l ls)
  show ?case
  proof (cases "frame_line unmarshal i m st l")
    case (Inl st')
    then have "in_frame st'"
      using Cons.prems(2) by (auto simp: frame_line_def Let_def split: if_splits option.splits)
    with Cons Inl show ?thesis by simp
  next
    case (Inr r')
    with Cons.prems show ?thesis
      by (auto simp: frame_line_def Let_def split: if_splits option.splits)
  qed
qed (simp split: option.splits)

lemma frame_loop_markers:
  assumes "frame_loop unmarshal i m st ls e = Inr r" and "\<not> in_frame st"
  shows "\<exists>as l bs. ls = as @ l # bs \<and> trim_suffix l [CHR 0x0D] = begin_marker i \<and>
    end_marker i \<in> (\<lambda>l. trim_suffix l [CHR 0x0D]) ` set bs"
  using assms
proof (induction ls arbitrary: st)
  case (Cons l ls)
  show ?case
  proof (cases "trim_suffix l [CHR 0x0D] = begin_marker i")
    case True
    then have "frame_loop unmarshal i m (st\<lparr>in_frame := True\<rparr>) ls e = Inr r"
      using Cons.prems by (simp add: frame_line_def)
    from frame_loop_in_frame [OF this] True show ?thesis
      by (intro exI [of _ "[]"] exI [of _ l] exI [of _ ls]) simp
  next
    case False
    then obtain st' where "frame_line unmarshal i m st l = Inl st'" "\<not> in_frame st'"
      using Cons.prems(2) by (cases "frame_line unmarshal i m st l")
        (auto simp: frame_line_def Let_def split: if_splits)
    with Cons.prems(1) Cons.IH [of st'] show ?thesis
      by simp (metis append_Cons)
  qed
qed (simp split: option.splits)

text \<open>No line of the scanner fills its buffer, so the state of the loop stays bounded.\<close>

lemma drop_cr_length: "length (drop_cr l) \<le> length l"
  by (simp add: drop_cr_def trim_suffix_def)

lemma scan_pieces_length: "l \<in> set (fst (scan_pieces ls e)) \<Longrightarrow> length l < max_token"
proof (induction ls e rule: scan_pieces.induct)
  case (2 k e)
  then show ?case
    using drop_cr_length [of k] by (auto split: if_splits)
next
  case (3 k m ls e)
  then show ?case
    using drop_cr_length [of k] by (auto simp: split_beta split: if_splits)
qed simp

lemma scan_lines_length: "l \<in> set (fst (scan_lines bytes e)) \<Longrightarrow> length l < 65536"
  using scan_pieces_length by (simp add: scan_lines_def max_token_def)

definition frame_small :: "nat \<Rightarrow> frame_state \<Rightarrow> bool" where
  "frame_small m st \<longleftrightarrow> length (output64 st) < b64_encoded_len m + 3072 + 65536 \<and>
     length (stderr64 st) < b64_encoded_len m + 3072 + 65536 \<and> length (prelude st) < m + 65536"

lemma frame_line_small:
  assumes "frame_line unmarshal i m st l = Inl st'" and "length l < 65536" and "frame_small m st"
  shows "frame_small m st'"
proof -
  have trim: "length (trim_prefix (trim_suffix l [CHR 0x0D]) p) < 65536"
      "length (trim_suffix l [CHR 0x0D]) < 65536" for p
    using assms(2) by (auto simp: trim_prefix_def trim_suffix_def)
  show ?thesis
    using assms trim(2) trim(1) [of "''O:''"] trim(1) [of "''E:''"]
    by (auto simp: frame_line_def frame_small_def acc_limit_def frame_chunk_chars_def Let_def
        split: if_splits option.splits)
qed

lemma frame_steps_small:
  "frame_steps unmarshal i m st ls = Some st' \<Longrightarrow> \<forall>l \<in> set ls. length l < 65536 \<Longrightarrow> frame_small m st \<Longrightarrow>
   frame_small m st'"
  by (induction ls arbitrary: st) (auto split: sum.splits dest: frame_line_small)

lemma frame_start_small: "frame_small m frame_start"
  by (simp add: frame_small_def frame_start_def)

text \<open>A result is made from the state at its last line.\<close>

lemma frame_loop_result:
  "frame_loop unmarshal i m st ls e = Inr fr \<Longrightarrow>
   \<exists>n st'. frame_steps unmarshal i m st (take n ls) = Some st' \<and> frame_end st' = Inr fr"
proof (induction ls arbitrary: st)
  case (Cons l ls)
  show ?case
  proof (cases "frame_line unmarshal i m st l")
    case (Inl st')
    then have "frame_loop unmarshal i m st' ls e = Inr fr"
      using Cons(2) by simp
    from Cons(1) [OF this] obtain n st''
      where "frame_steps unmarshal i m st' (take n ls) = Some st''" "frame_end st'' = Inr fr" by blast
    then show ?thesis
      using Inl by (intro exI [of _ "Suc n"] exI [of _ st'']) simp
  next
    case (Inr r)
    then have "frame_end st = Inr fr"
      using Cons(2) by (auto simp: frame_line_def Let_def split: if_splits option.splits)
    then show ?thesis
      by (intro exI [of _ 0] exI [of _ st]) simp
  qed
qed (simp split: option.splits)

lemma b64_quads_length: "b64_quads s = Some b \<Longrightarrow> 4 * length b \<le> 3 * length s"
  by (induction s arbitrary: b rule: b64_quads.induct)
     (auto split: if_splits option.splits simp: Let_def bind_eq_Some_conv)

lemma b64_decode_length: "b64_decode s = Some b \<Longrightarrow> 4 * length b \<le> 3 * length s"
  unfolding b64_decode_def
  by (drule b64_quads_length) (meson length_filter_le mult_le_mono2 order_trans)

lemma frame_end_small:
  assumes "frame_end st = Inr fr" and "frame_small m st"
  shows "4 * length (fr_output fr) < 3 * (b64_encoded_len m + 3072 + 65536) \<and>
    4 * length (fr_stderr fr) < 3 * (b64_encoded_len m + 3072 + 65536) \<and> length (raw_prelude fr) < m + 65536"
  using assms by (auto simp: frame_end_def frame_small_def dest!: b64_decode_length split: if_splits option.splits)

text \<open>Texts without a line break; the script is put together from such texts.\<close>

definition one_line :: "string \<Rightarrow> bool" where
  "one_line s \<longleftrightarrow> CHR 0x0A \<notin> set s \<and> CHR 0x0D \<notin> set s"

lemma one_line_sprintf: "one_line f \<Longrightarrow> list_all one_line as \<Longrightarrow> one_line (sprintf f as)"
  by (simp add: one_line_def list_all_iff not_in_sprintf)

lemma one_line_join: "one_line sep \<Longrightarrow> list_all one_line ws \<Longrightarrow> one_line (join_with sep ws)"
  by (simp add: one_line_def list_all_iff not_in_join)

lemma one_line_decimal: "one_line (decimal n)"
  using decimal_digits [of n] by (auto simp: one_line_def)

lemma one_line_append: "one_line (s @ t) \<longleftrightarrow> one_line s \<and> one_line t"
  by (auto simp: one_line_def)

lemma one_line_markers:
  assumes "one_line i"
  shows "one_line (begin_marker i)" and "one_line (end_marker i)" and "one_line (''wlm-'' @ i @ ''.err'')"
  using assms by (simp_all add: one_line_def begin_marker_def end_marker_def)

lemma one_line_head:
  assumes "one_line i" and "one_line e"
  shows "list_all one_line (wrapper_head e i)"
  unfolding wrapper_head_def list.pred_inject
  by (intro conjI one_line_sprintf TrueI; ((simp add: assms one_line_markers del: append_Cons; fail) | simp add: one_line_def))

lemma one_line_text:
  assumes "one_line i"
  shows "one_line (wrapper_text fmt i)"
  unfolding wrapper_text_def if_split
  by (intro conjI impI one_line_sprintf; ((simp add: assms; fail) | simp add: one_line_def))

lemma one_line_chunk_emitter:
  assumes "one_line i" and "one_line p" and "one_line v"
  shows "one_line (chunk_emitter i p v)"
  unfolding chunk_emitter_def
  by (intro one_line_sprintf; ((simp add: assms one_line_decimal; fail) | simp add: one_line_def))

lemma one_line_tail:
  assumes "one_line i" and "one_line fmt"
  shows "list_all one_line (wrapper_tail fmt i m)"
proof -
  have "one_line ''O''" "one_line ''E''" "one_line ''ob''" "one_line ''eb''"
    by (simp_all add: one_line_def)
  note emit = one_line_chunk_emitter [OF assms(1)] this
  show ?thesis
    unfolding wrapper_tail_def list.pred_inject cleanup_variables_def
    by (intro conjI one_line_sprintf TrueI;
        ((simp add: assms one_line_markers one_line_decimal emit; fail) | simp add: one_line_def))
qed

lemma one_line_wrapper:
  assumes "one_line fmt" and "one_line i"
  shows "one_line (build_wrapper command fmt i m)"
proof -
  have "one_line (b64_encode command)"
    using b64_no_break by (simp add: one_line_def)
  then have "list_all one_line (wrapper_head (b64_encode command) i @ [wrapper_text fmt i] @ wrapper_tail fmt i m)"
    using assms by (simp add: one_line_head one_line_text one_line_tail)
  then show ?thesis
    unfolding build_wrapper_def by (intro one_line_join) (simp add: one_line_def)
qed

subsection \<open>Properties\<close>

lemma read_emitted:
  assumes "unmarshal meta_json = Some meta" and "meta_format meta \<noteq> []"
    and "length out \<le> m" and "length err \<le> m"
    and "b64_encoded_len (length meta_json) \<le> 65000" and "length bs = 16"
    and "list_all printable noise"
    and "\<forall>l \<in> set noise. trim_suffix l [CHR 0x0D] \<noteq> begin_marker (hex_encode bs)"
  shows "\<exists>p. read_frame unmarshal (hex_encode bs) m
      (printed (noise @ emitted_lines (hex_encode bs) meta_json out err) @ rest) read_err =
    Inr \<lparr>fr_meta = meta, fr_output = out, fr_stderr = err, raw_prelude = p\<rparr>"
proof -
  obtain p where p: "frame_steps unmarshal (hex_encode bs) m frame_start noise =
      Some (frame_start\<lparr>prelude := p\<rparr>)"
    using frame_steps_prelude [OF _ assms(8), of frame_start] by (auto simp: frame_start_def)
  have "list_all printable (noise @ emitted_lines (hex_encode bs) meta_json out err)"
    using assms(7) emitted_printable [OF assms(6,5)] by simp
  from scan_printed [OF this] show ?thesis
    using assms(1-4)
      emitted_frame [of unmarshal meta_json meta out m err "frame_start\<lparr>prelude := p\<rparr>" bs]
      frame_loop_steps [OF p]
    by (simp add: read_frame_def split_beta frame_start_def)
qed

text \<open>
  C11: What the generated script prints is read back exactly. Whatever printable lines the
  command wrote before the frame, and whatever follows it, the parser returns the metadata,
  the output and the error text the script emitted in Base64 chunks.
\<close>

theorem frame_roundtrip:
  assumes "unmarshal meta_json = Some meta" and "meta_format meta \<noteq> []"
    and "length out \<le> m" and "length err \<le> m"
    and "b64_encoded_len (length meta_json) \<le> 65000" and "length bs = 16"
    and "list_all printable noise"
    and "\<forall>l \<in> set noise. trim_suffix l [CHR 0x0D] \<noteq> begin_marker (hex_encode bs)"
  shows "\<exists>p. read_frame unmarshal (hex_encode bs) m
      (printed (noise @ emitted_lines (hex_encode bs) meta_json out err) @ rest) read_err =
    Inr \<lparr>fr_meta = meta, fr_output = out, fr_stderr = err, raw_prelude = p\<rparr>"
  using assms by (rule read_emitted)

definition lines_meta :: frame_meta where
  "lines_meta = \<lparr>meta_success = True, meta_exit_code = 0, meta_format = format_lines, meta_truncated = False\<rparr>"

theorem frame_roundtrip_witness:
  "\<exists>p. read_frame (\<lambda>j. Some lines_meta) (hex_encode (replicate 16 CHR ''k'')) 1024
      (printed ([''noise''] @ emitted_lines (hex_encode (replicate 16 CHR ''k'')) ''{}'' ''hello'' []) @ ''tail'')
      None =
    Inr \<lparr>fr_meta = lines_meta, fr_output = ''hello'', fr_stderr = [], raw_prelude = p\<rparr>"
  by (rule frame_roundtrip)
     (simp_all add: lines_meta_def format_lines_def b64_encoded_len_def printable_def max_token_def
       trim_cr_id begin_marker_def)

text \<open>
  No result without a whole frame: when the parser returns a result, the stream held the
  begin marker of this command's identifier and, after it, the end marker.
\<close>
theorem result_needs_whole_frame:
  assumes "read_frame unmarshal i m bytes read_err = Inr r"
  shows "\<exists>as l bs. fst (scan_lines bytes read_err) = as @ l # bs \<and>
    trim_suffix l [CHR 0x0D] = begin_marker i \<and>
    end_marker i \<in> (\<lambda>l. trim_suffix l [CHR 0x0D]) ` set bs"
  using assms frame_loop_markers [of unmarshal i m frame_start]
  by (auto simp: read_frame_def split_beta frame_start_def)

theorem result_needs_whole_frame_witness:
  "\<exists>as l bs. fst (scan_lines (printed (emitted_lines (hex_encode (replicate 16 CHR ''k'')) ''{}'' [] [])) None) =
      as @ l # bs \<and>
    trim_suffix l [CHR 0x0D] = begin_marker (hex_encode (replicate 16 CHR ''k'')) \<and>
    end_marker (hex_encode (replicate 16 CHR ''k'')) \<in> (\<lambda>l. trim_suffix l [CHR 0x0D]) ` set bs"
proof -
  obtain p where "read_frame (\<lambda>j. Some lines_meta) (hex_encode (replicate 16 CHR ''k'')) 1024
      (printed (emitted_lines (hex_encode (replicate 16 CHR ''k'')) ''{}'' [] [])) None =
      Inr \<lparr>fr_meta = lines_meta, fr_output = [], fr_stderr = [], raw_prelude = p\<rparr>"
    using read_emitted [of "\<lambda>j. Some lines_meta" "''{}''" lines_meta "[]" 1024 "[]"
        "replicate 16 CHR ''k''" "[]" "[]" None]
    by (auto simp: lines_meta_def format_lines_def b64_encoded_len_def)
  then show ?thesis by (rule result_needs_whole_frame)
qed

text \<open>
  C33: Bounded memory. Whatever bytes arrive, after any number of lines the scanner yields (each
  shorter than its buffer of 64 KiB) the two Base64 accumulators of \<open>readFrame\<close> are below the
  length of the Base64 text of the configured limit, plus one chunk, plus one line, and the
  prelude is below the limit plus one line; so the output and the error text of a result are
  below three quarters of that, and its prelude below the limit plus one line.
\<close>

theorem accumulators_bounded:
  "(\<forall>n. case frame_steps unmarshal i m frame_start (take n (fst (scan_lines bytes read_err))) of
       Some st \<Rightarrow> length (output64 st) < b64_encoded_len m + 3072 + 65536 \<and>
         length (stderr64 st) < b64_encoded_len m + 3072 + 65536 \<and> length (prelude st) < m + 65536
     | None \<Rightarrow> True) \<and>
   (case read_frame unmarshal i m bytes read_err of
      Inr fr \<Rightarrow> 4 * length (fr_output fr) < 3 * (b64_encoded_len m + 3072 + 65536) \<and>
        4 * length (fr_stderr fr) < 3 * (b64_encoded_len m + 3072 + 65536) \<and> length (raw_prelude fr) < m + 65536
    | Inl _ \<Rightarrow> True)"
proof -
  let ?ls = "fst (scan_lines bytes read_err)"
  have small: "frame_small m st" if "frame_steps unmarshal i m frame_start (take n ?ls) = Some st" for n st
    by (rule frame_steps_small [OF that _ frame_start_small]) (use scan_lines_length in_set_takeD in fast)
  have "4 * length (fr_output fr) < 3 * (b64_encoded_len m + 3072 + 65536) \<and>
      4 * length (fr_stderr fr) < 3 * (b64_encoded_len m + 3072 + 65536) \<and> length (raw_prelude fr) < m + 65536"
    if "read_frame unmarshal i m bytes read_err = Inr fr" for fr
  proof -
    have "frame_loop unmarshal i m frame_start ?ls (snd (scan_lines bytes read_err)) = Inr fr"
      using that by (simp add: read_frame_def split_beta)
    from frame_loop_result [OF this] small frame_end_small show ?thesis by blast
  qed
  then show ?thesis
    using small by (fastforce simp: frame_small_def split: option.split sum.split)
qed

theorem accumulators_bounded_witness:
  "\<exists>fr. read_frame (\<lambda>j. Some lines_meta) (hex_encode (replicate 16 CHR ''k'')) 1024
      (printed ([''noise''] @ emitted_lines (hex_encode (replicate 16 CHR ''k'')) ''{}'' ''hello'' []) @ ''tail'')
      None = Inr fr \<and> fr_output fr = ''hello'' \<and>
    4 * length (fr_output fr) < 3 * (b64_encoded_len 1024 + 3072 + 65536)"
proof -
  let ?i = "hex_encode (replicate 16 CHR ''k'')"
  let ?bytes = "printed ([''noise''] @ emitted_lines ?i ''{}'' ''hello'' []) @ ''tail''"
  obtain p where fr: "read_frame (\<lambda>j. Some lines_meta) ?i 1024 ?bytes None =
      Inr \<lparr>fr_meta = lines_meta, fr_output = ''hello'', fr_stderr = [], raw_prelude = p\<rparr>" (is "_ = Inr ?fr")
    using read_emitted [of "\<lambda>j. Some lines_meta" "''{}''" lines_meta "''hello''" 1024 "[]"
        "replicate 16 CHR ''k''" "[''noise'']" "''tail''" None]
    by (auto simp: lines_meta_def format_lines_def b64_encoded_len_def printable_def max_token_def
        trim_cr_id begin_marker_def)
  have "4 * length (fr_output ?fr) < 3 * (b64_encoded_len 1024 + 3072 + 65536)"
    using accumulators_bounded [where unmarshal = "\<lambda>j. Some lines_meta" and i = ?i and m = 1024
        and bytes = ?bytes and read_err = None]
    unfolding fr sum.case by (elim conjE)
  with fr show ?thesis
    by (intro exI [of _ ?fr]) (simp only: framed_result.select_convs simp_thms)
qed

text \<open>
  C12: The user's command is data in the script, never source: for every command the script is
  one fixed text around a quoted literal that holds the command in Base64, an alphabet without
  the quote that ends the literal, and decodes to exactly the command.
\<close>
theorem command_is_quoted_data:
  "\<exists>before after. \<forall>command.
     build_wrapper command fmt i m = before @ [CHR 0x27] @ b64_encode command @ [CHR 0x27] @ after \<and>
     CHR 0x27 \<notin> set (b64_encode command) \<and> b64_decode (b64_encode command) = Some command"
proof -
  define p0 where "p0 = hd (wrapper_head [] i)"
  define qs where "qs = tl (tl (wrapper_head [] i)) @ [wrapper_text fmt i] @ wrapper_tail fmt i m"
  let ?pre = "''$__wlm_cmd_'' @ i @ ''=[Text.Encoding]::UTF8.GetString([Convert]::FromBase64String(''"
  have "build_wrapper command fmt i m =
      (p0 @ '';'' @ ?pre) @ [CHR 0x27] @ b64_encode command @ [CHR 0x27] @ (''))'' @ '';'' @ join_with '';'' qs)"
    for command
  proof -
    have "wrapper_head (b64_encode command) i @ [wrapper_text fmt i] @ wrapper_tail fmt i m =
        p0 # (?pre @ [CHR 0x27] @ b64_encode command @ [CHR 0x27] @ ''))'') # qs"
      unfolding p0_def qs_def wrapper_head_def command_part by simp
    moreover have "qs \<noteq> []"
      by (simp add: qs_def)
    ultimately show ?thesis
      by (simp add: build_wrapper_def join_with_Cons)
  qed
  moreover have "CHR 0x27 \<notin> set (b64_encode command)" for command
    by (rule b64.enc_avoids) (simp add: b64_alphabet_def b64_value_def b64_pad_def)
  ultimately show ?thesis
    using b64.dec_enc by blast
qed

text \<open>
  The script is one line. With an identifier the program generates and one of the two
  formats the handlers accept, no line break occurs in it, so the line break written after it
  submits exactly this command.
\<close>
theorem script_is_one_line:
  assumes "fmt = format_json \<or> fmt = format_lines"
  shows "CHR 0x0A \<notin> set (build_wrapper command fmt (hex_encode bs) m) \<and>
    CHR 0x0D \<notin> set (build_wrapper command fmt (hex_encode bs) m)"
proof -
  have "one_line fmt"
    using assms by (auto simp: one_line_def format_json_def format_lines_def)
  then show ?thesis
    using one_line_wrapper [of fmt "hex_encode bs" command m] by (simp add: one_line_def hex_no_break)
qed

theorem script_is_one_line_witness:
  "CHR 0x0A \<notin> set (build_wrapper [CHR 0x0A] format_lines (hex_encode ''id'') 1024)"
  using script_is_one_line [of format_lines "[CHR 0x0A]" "''id''" 1024] by simp

end
