(* ===== verification/Runner.thy ===== *)
theory Runner
  imports Frame
begin

section \<open>internal/powershell/runner.go: one-shot execution and its kill switch\<close>

text \<open>
  \<open>Runner.Run\<close> and the operations that kill its processes. The results it builds
  (\<open>timeoutResult\<close>, \<open>toAPIResult\<close>, \<open>splitLines\<close>) are functions. Its control flow is
  a step relation over every call in progress, one step per section of code between two points
  where another goroutine can run, so that the kill switch interleaves with the calls as the
  two mutex sections of \<open>Run\<close> allow. The process, the pipe and the deadline are the
  environment: they choose among the steps.
\<close>

subsection \<open>Errors\<close>

datatype run_error =
    Timed_Out | Run_Blocked | Session_Not_Found | Session_Limit | Shell_Exited string | Run_Failed string

definition error_text :: "run_error \<Rightarrow> string" where
  "error_text e =
     (case e of
        Timed_Out \<Rightarrow> ''PowerShell command timed out''
      | Run_Blocked \<Rightarrow> ''PowerShell execution is blocked''
      | Session_Not_Found \<Rightarrow> ''session not found''
      | Session_Limit \<Rightarrow> ''maximum number of sessions reached''
      | Shell_Exited d \<Rightarrow> ''PowerShell process exited before returning a complete result: '' @ d
      | Run_Failed d \<Rightarrow> d)"

type_synonym outcome = "exec_result \<times> run_error option"

subsection \<open>Results\<close>

text \<open>The parts of \<open>encoding/json\<close> used on results, a parameter.\<close>

record json_lib =
  json_valid :: "string \<Rightarrow> bool"
  json_strings :: "string list \<Rightarrow> string"

fun replace_crlf :: "string \<Rightarrow> string" where
  "replace_crlf [] = []"
| "replace_crlf [x] = [x]"
| "replace_crlf (x # y # s) =
     (if x = CHR 0x0D \<and> y = CHR 0x0A then CHR 0x0A # replace_crlf s
      else x # replace_crlf (y # s))"

definition split_lines :: "string \<Rightarrow> string list" where
  "split_lines s =
     (let t = trim_suffix (replace_crlf s) [CHR 0x0A] in
      if t = [] then [] else split_byte (CHR 0x0A) t)"

definition timeout_result :: "string \<Rightarrow> int \<Rightarrow> bool \<Rightarrow> exec_result" where
  "timeout_result fmt ms restarted = empty_result
     \<lparr>success := False, exit_code := -1, format := fmt, exec_output := ''null'', stderr := [],
      timed_out := True, duration_ms := ms, session_restarted := restarted\<rparr>"

definition to_api_result :: "json_lib \<Rightarrow> framed_result \<Rightarrow> int \<Rightarrow> bool \<Rightarrow> exec_result" where
  "to_api_result js r ms restarted =
     (let m = fr_meta r;
          base = empty_result
            \<lparr>success := meta_success m, exit_code := meta_exit_code m, format := meta_format m,
             exec_output := ''null'', stderr := split_lines (fr_stderr r),
             truncated := meta_truncated m, duration_ms := ms, session_restarted := restarted\<rparr>
      in if meta_format m = format_json \<and> \<not> meta_truncated m \<and> json_valid js (fr_output r)
         then base\<lparr>exec_output := fr_output r\<rparr>
         else if meta_format m = format_lines
         then base\<lparr>exec_output := json_strings js (split_lines (fr_output r))\<rparr>
         else base\<lparr>raw_output := fr_output r\<rparr>)"

subsection \<open>The state of the runner and of the calls in progress\<close>

type_synonym pid = nat

text \<open>
  A process: not started, running, told to end (its stdin and its job are closed and it was
  terminated, which Windows carries out later), and ended, which is when \<open>waitDone\<close> is ready.
\<close>

datatype proc = Absent | Alive | Dying | Ended

text \<open>
  Where a call of \<open>Run\<close> is: before reading \<open>blocked\<close>, before starting the child, before
  the second look at \<open>blocked\<close>, killing the child because of it and waiting for its end, before
  writing the command, in the first \<open>select\<close>, in the second one, waiting for the end of the
  child it has killed (\<open><-p.waitDone\<close>), at the deferred kill, at the deferred delete, returned.
\<close>

datatype run_pc =
    Not_Called | At_Check | At_Start | At_Register pid | At_Doomed pid | At_Write pid
  | At_Wait pid | At_Drain pid framed_result | At_Exit pid outcome | At_Doomed_Exit pid
  | At_Kill pid outcome | At_Delete pid outcome | Returned outcome

record runner =
  active :: "pid set"
  run_blocked :: bool
  procs :: "pid \<Rightarrow> proc"
  next_pid :: pid
  runs :: "nat \<Rightarrow> run_pc"
  to_kill :: "pid set"
  fed :: "pid set"
  unwaited :: "pid set"

text \<open>
  \<open>to_kill\<close> holds the processes a \<open>KillAll\<close> or \<open>BlockAndKillAll\<close> collected under the
  lock and has not killed yet. Two fields that no step reads record processes: \<open>fed\<close> those
  that were sent a command, \<open>unwaited\<close> those whose call, after a failed write, returns
  without waiting for their end.
\<close>

definition new_runner :: runner where
  "new_runner = \<lparr>active = {}, run_blocked = False, procs = (\<lambda>_. Absent), next_pid = 0,
     runs = (\<lambda>_. Not_Called), to_kill = {}, fed = {}, unwaited = {}\<rparr>"

text \<open>
  \<open>childProcess.kill\<close>, which acts once: it closes stdin and the job and terminates the process,
  whose end it does not wait for.
\<close>

definition kill_proc :: "pid \<Rightarrow> runner \<Rightarrow> runner" where
  "kill_proc p s =
     s\<lparr>procs := (procs s)(p := (if procs s p = Alive then Dying else procs s p))\<rparr>"

abbreviation goto_pc :: "nat \<Rightarrow> run_pc \<Rightarrow> runner \<Rightarrow> runner" where
  "goto_pc r pc s \<equiv> s\<lparr>runs := (runs s)(r := pc)\<rparr>"

text \<open>
  The steps of the calls, of the two functions that kill, and of the processes, which end when they
  are told to or by themselves. \<open>fmt r\<close> is the format argument of call \<open>r\<close>; milliseconds and error texts are
  the environment's.
\<close>

inductive run_step :: "json_lib \<Rightarrow> (nat \<Rightarrow> string) \<Rightarrow> runner \<Rightarrow> runner \<Rightarrow> bool"
  for js :: json_lib and fmt :: "nat \<Rightarrow> string" where
  call_expired: "runs s r = Not_Called \<Longrightarrow>
    run_step js fmt s (goto_pc r (Returned (timeout_result (fmt r) ms False, Some Timed_Out)) s)"
| call: "runs s r = Not_Called \<Longrightarrow> run_step js fmt s (goto_pc r At_Check s)"
| check_blocked: "runs s r = At_Check \<Longrightarrow> run_blocked s \<Longrightarrow>
    run_step js fmt s (goto_pc r (Returned (empty_result, Some Run_Blocked)) s)"
| check_free: "runs s r = At_Check \<Longrightarrow> \<not> run_blocked s \<Longrightarrow>
    run_step js fmt s (goto_pc r At_Start s)"
| start_failed: "runs s r = At_Start \<Longrightarrow>
    run_step js fmt s (goto_pc r (Returned (empty_result, Some (Run_Failed msg))) s)"
| start_child: "runs s r = At_Start \<Longrightarrow>
    run_step js fmt s (goto_pc r (At_Register (next_pid s))
      (s\<lparr>procs := (procs s)(next_pid s := Alive), next_pid := Suc (next_pid s)\<rparr>))"
| register_blocked: "runs s r = At_Register p \<Longrightarrow> run_blocked s \<Longrightarrow>
    run_step js fmt s (goto_pc r (At_Doomed p) s)"
| register: "runs s r = At_Register p \<Longrightarrow> \<not> run_blocked s \<Longrightarrow>
    run_step js fmt s (goto_pc r (At_Write p) (s\<lparr>active := insert p (active s)\<rparr>))"
| doomed: "runs s r = At_Doomed p \<Longrightarrow>
    run_step js fmt s (goto_pc r (At_Doomed_Exit p) (kill_proc p s))"
| doomed_exit: "runs s r = At_Doomed_Exit p \<Longrightarrow> procs s p = Ended \<Longrightarrow>
    run_step js fmt s (goto_pc r (Returned (empty_result, Some Run_Blocked)) s)"
| write_failed: "runs s r = At_Write p \<Longrightarrow>
    run_step js fmt s (goto_pc r (At_Kill p (empty_result, Some (Run_Failed msg)))
      (s\<lparr>unwaited := insert p (unwaited s)\<rparr>))"
| write_done: "runs s r = At_Write p \<Longrightarrow> procs s p = Alive \<Longrightarrow>
    run_step js fmt s (goto_pc r (At_Wait p) (s\<lparr>fed := insert p (fed s)\<rparr>))"
| wait_expired: "runs s r = At_Wait p \<Longrightarrow>
    run_step js fmt s (goto_pc r (At_Exit p (timeout_result (fmt r) ms False, Some Timed_Out))
      (kill_proc p s))"
| wait_bad_frame: "runs s r = At_Wait p \<Longrightarrow>
    run_step js fmt s (goto_pc r (At_Exit p (empty_result, Some (Shell_Exited msg))) (kill_proc p s))"
| wait_frame: "runs s r = At_Wait p \<Longrightarrow> run_step js fmt s (goto_pc r (At_Drain p fr) s)"
| drain_expired: "runs s r = At_Drain p fr \<Longrightarrow>
    run_step js fmt s (goto_pc r (At_Exit p (timeout_result (fmt r) ms False, Some Timed_Out))
      (kill_proc p s))"
| drain_done: "runs s r = At_Drain p fr \<Longrightarrow> procs s p = Ended \<Longrightarrow>
    run_step js fmt s (goto_pc r (At_Kill p (to_api_result js fr ms False, None)) s)"
| exited: "runs s r = At_Exit p res \<Longrightarrow> procs s p = Ended \<Longrightarrow>
    run_step js fmt s (goto_pc r (At_Kill p res) s)"
| deferred_kill: "runs s r = At_Kill p res \<Longrightarrow>
    run_step js fmt s (goto_pc r (At_Delete p res) (kill_proc p s))"
| deferred_delete: "runs s r = At_Delete p res \<Longrightarrow>
    run_step js fmt s (goto_pc r (Returned res) (s\<lparr>active := active s - {p}\<rparr>))"
| process_ends: "procs s p \<in> {Alive, Dying} \<Longrightarrow>
    run_step js fmt s (s\<lparr>procs := (procs s)(p := Ended)\<rparr>)"
| kill_all: "run_step js fmt s (s\<lparr>to_kill := to_kill s \<union> active s\<rparr>)"
| block_and_kill_all:
    "run_step js fmt s (s\<lparr>run_blocked := True, to_kill := to_kill s \<union> active s\<rparr>)"
| kill_one: "p \<in> to_kill s \<Longrightarrow>
    run_step js fmt s ((kill_proc p s)\<lparr>to_kill := to_kill s - {p}\<rparr>)"

inductive_cases run_stepE: "run_step js fmt s t"

text \<open>
  The process a call holds, the one it has in \<open>active\<close>, and the one it still has to kill.
\<close>

fun holds :: "run_pc \<Rightarrow> pid option" where
  "holds (At_Register p) = Some p"
| "holds (At_Doomed p) = Some p"
| "holds (At_Write p) = Some p"
| "holds (At_Wait p) = Some p"
| "holds (At_Drain p fr) = Some p"
| "holds (At_Exit p res) = Some p"
| "holds (At_Doomed_Exit p) = Some p"
| "holds (At_Kill p res) = Some p"
| "holds (At_Delete p res) = Some p"
| "holds _ = None"

fun registers :: "run_pc \<Rightarrow> pid option" where
  "registers (At_Register p) = None"
| "registers (At_Doomed p) = None"
| "registers (At_Doomed_Exit p) = None"
| "registers pc = holds pc"

fun keeps :: "run_pc \<Rightarrow> pid option" where
  "keeps (At_Delete p res) = None"
| "keeps (At_Doomed_Exit p) = None"
| "keeps pc = holds pc"

text \<open>The process whose end a call still waits for before it returns.\<close>

fun awaits :: "run_pc \<Rightarrow> pid option" where
  "awaits (At_Kill p res) = None"
| "awaits (At_Delete p res) = None"
| "awaits pc = holds pc"

fun outcome_of :: "run_pc \<Rightarrow> outcome option" where
  "outcome_of (At_Kill p res) = Some res"
| "outcome_of (At_Exit p res) = Some res"
| "outcome_of (At_Delete p res) = Some res"
| "outcome_of (Returned res) = Some res"
| "outcome_of _ = None"

text \<open>Every outcome \<open>Run\<close> can produce for a format.\<close>

definition run_outcome :: "json_lib \<Rightarrow> string \<Rightarrow> outcome \<Rightarrow> bool" where
  "run_outcome js f res \<longleftrightarrow>
     (\<exists>ms. res = (timeout_result f ms False, Some Timed_Out)) \<or>
     res = (empty_result, Some Run_Blocked) \<or>
     (\<exists>msg. res = (empty_result, Some (Run_Failed msg)) \<or> res = (empty_result, Some (Shell_Exited msg))) \<or>
     (\<exists>fr ms. res = (to_api_result js fr ms False, None))"

subsection \<open>What every reachable state satisfies\<close>

definition pids_wf :: "runner \<Rightarrow> bool" where
  "pids_wf s \<longleftrightarrow>
     (\<forall>r p. holds (runs s r) = Some p \<longrightarrow> p < next_pid s) \<and>
     (\<forall>p. procs s p \<noteq> Absent \<longrightarrow> p < next_pid s) \<and>
     (\<forall>p \<in> to_kill s. p < next_pid s) \<and>
     (\<forall>r r' p. holds (runs s r) = Some p \<longrightarrow> holds (runs s r') = Some p \<longrightarrow> r = r')"

definition started_wf :: "runner \<Rightarrow> bool" where
  "started_wf s \<longleftrightarrow> (\<forall>p < next_pid s. procs s p \<noteq> Absent)"

definition active_wf :: "runner \<Rightarrow> bool" where
  "active_wf s \<longleftrightarrow> active s = {p. \<exists>r. registers (runs s r) = Some p}"

definition alive_held :: "runner \<Rightarrow> bool" where
  "alive_held s \<longleftrightarrow> (\<forall>p. procs s p = Alive \<longrightarrow> (\<exists>r. keeps (runs s r) = Some p))"

text \<open>A process that has not ended has a call that waits for it, but for a failed write.\<close>

definition awaited_wf :: "runner \<Rightarrow> bool" where
  "awaited_wf s \<longleftrightarrow>
     (\<forall>p. procs s p \<in> {Alive, Dying} \<longrightarrow> p \<in> unwaited s \<or> (\<exists>r. awaits (runs s r) = Some p))"

definition doomed_wf :: "runner \<Rightarrow> bool" where
  "doomed_wf s \<longleftrightarrow> (run_blocked s \<longrightarrow> (\<forall>p \<in> active s. procs s p = Alive \<longrightarrow> p \<in> to_kill s))"

definition outcomes_wf :: "json_lib \<Rightarrow> (nat \<Rightarrow> string) \<Rightarrow> runner \<Rightarrow> bool" where
  "outcomes_wf js fmt s \<longleftrightarrow>
     (\<forall>r res. outcome_of (runs s r) = Some res \<longrightarrow> run_outcome js (fmt r) res)"

text \<open>A process that was sent a command was registered first.\<close>

definition fed_wf :: "runner \<Rightarrow> bool" where
  "fed_wf s \<longleftrightarrow>
     (\<forall>p \<in> fed s. p < next_pid s \<and>
        (\<forall>r. holds (runs s r) = Some p \<longrightarrow> registers (runs s r) = Some p))"

definition runner_inv :: "json_lib \<Rightarrow> (nat \<Rightarrow> string) \<Rightarrow> runner \<Rightarrow> bool" where
  "runner_inv js fmt s \<longleftrightarrow>
     pids_wf s \<and> started_wf s \<and> active_wf s \<and> alive_held s \<and> awaited_wf s \<and> doomed_wf s \<and> fed_wf s \<and>
     outcomes_wf js fmt s"

lemma registers_holds: "registers pc = Some p \<Longrightarrow> holds pc = Some p"
  by (induction pc rule: registers.induct) simp_all

lemma pids_wf_goto:
  assumes "pids_wf s" and "runs u = runs s" and "next_pid s \<le> next_pid u"
    and "\<And>p. procs u p \<noteq> Absent \<Longrightarrow> procs s p \<noteq> Absent \<or> p < next_pid u \<or> holds (runs s r) = Some p"
    and "to_kill u = to_kill s"
    and "\<And>p. holds pc = Some p \<Longrightarrow>
           holds (runs s r) = Some p \<or> p = next_pid s \<and> next_pid u = Suc (next_pid s)"
  shows "pids_wf (goto_pc r pc u)"
proof -
  have held: "q < next_pid s" if "holds (runs s r') = Some q" for r' q
    using assms(1) that by (auto simp: pids_wf_def)
  have uniq: "r' = r''" if "holds (runs s r') = Some q" "holds (runs s r'') = Some q" for r' r'' q
    using assms(1) that unfolding pids_wf_def by blast
  have new: "q < next_pid u" if "holds pc = Some q" for q
    using assms(3) assms(6) [OF that] held by fastforce
  have "r' = r" if "holds pc = Some q" "holds (runs s r') = Some q" for r' q
    using assms(6) [OF that(1)] that(2) held uniq by blast
  note owner = this
  show ?thesis
    unfolding pids_wf_def
  proof (intro conjI allI impI ballI)
    fix r' p
    assume "holds (runs (goto_pc r pc u) r') = Some p"
    then show "p < next_pid (goto_pc r pc u)"
      using new held assms(2,3) by (fastforce split: if_splits)
  next
    fix p
    assume "procs (goto_pc r pc u) p \<noteq> Absent"
    then show "p < next_pid (goto_pc r pc u)"
      using assms(1,3) assms(4) [of p] held by (fastforce simp: pids_wf_def)
  next
    fix p
    assume "p \<in> to_kill (goto_pc r pc u)"
    then show "p < next_pid (goto_pc r pc u)"
      using assms(1,3,5) by (fastforce simp: pids_wf_def)
  next
    fix r1 r2 p
    assume "holds (runs (goto_pc r pc u) r1) = Some p" "holds (runs (goto_pc r pc u) r2) = Some p"
    then show "r1 = r2"
      using owner uniq assms(2) by (auto split: if_splits)
  qed
qed

lemma pids_wf_step: "run_step js fmt s t \<Longrightarrow> active_wf s \<Longrightarrow> pids_wf s \<Longrightarrow> pids_wf t"
  by (induction rule: run_step.induct)
     ((rule pids_wf_goto, assumption, simp_all add: kill_proc_def less_Suc_eq;
       auto simp: pids_wf_def; fail)
      | auto simp: pids_wf_def kill_proc_def active_wf_def dest: registers_holds)+

lemma children_started_step: "run_step js fmt s t \<Longrightarrow> started_wf s \<Longrightarrow> started_wf t"
  by (induction rule: run_step.induct) (auto simp: started_wf_def kill_proc_def less_Suc_eq)

lemma outcomes_wf_step:
  "run_step js fmt s t \<Longrightarrow> outcomes_wf js fmt s \<Longrightarrow> outcomes_wf js fmt t"
  by (induction rule: run_step.induct)
     (auto simp: outcomes_wf_def run_outcome_def kill_proc_def)

lemma doomed_wf_step:
  "run_step js fmt s t \<Longrightarrow> doomed_wf s \<Longrightarrow> active_wf s \<Longrightarrow> pids_wf s \<Longrightarrow> doomed_wf t"
  by (induction rule: run_step.induct)
     (auto simp: doomed_wf_def kill_proc_def active_wf_def pids_wf_def dest: registers_holds)

lemma fed_wf_goto:
  assumes "fed_wf s" and "runs u = runs s" and "next_pid s \<le> next_pid u" and "fed u = fed s"
    and "\<And>p. holds pc = Some p \<Longrightarrow>
           registers pc = Some p \<or> registers (runs s r) = None \<and>
             (holds (runs s r) = Some p \<or> p = next_pid s)"
  shows "fed_wf (goto_pc r pc u)"
  unfolding fed_wf_def
proof (intro ballI conjI allI impI)
  fix p
  assume p: "p \<in> fed (goto_pc r pc u)"
  then have s: "p < next_pid s" "\<And>r. holds (runs s r) = Some p \<Longrightarrow> registers (runs s r) = Some p"
    using assms(1,4) by (auto simp: fed_wf_def)
  then show "p < next_pid (goto_pc r pc u)"
    using assms(3) by simp
  fix r'
  assume "holds (runs (goto_pc r pc u) r') = Some p"
  then show "registers (runs (goto_pc r pc u) r') = Some p"
    using s assms(2) assms(5) [of p] by (cases "r' = r") auto
qed

lemma fed_wf_step: "run_step js fmt s t \<Longrightarrow> pids_wf s \<Longrightarrow> fed_wf s \<Longrightarrow> fed_wf t"
proof (induction rule: run_step.induct)
  case (write_done s r p)
  then have "holds (runs s r') = Some p \<longleftrightarrow> r' = r" for r'
    unfolding pids_wf_def by (metis holds.simps(3))
  moreover have "p < next_pid s"
    using write_done(1,3) unfolding pids_wf_def by (metis holds.simps(3))
  ultimately show ?case
    using write_done by (auto simp: fed_wf_def)
qed ((rule fed_wf_goto, assumption, simp_all add: kill_proc_def; fail)
     | simp add: fed_wf_def kill_proc_def)+

text \<open>One call moves: what its new place must keep or register.\<close>

lemma alive_held_goto:
  assumes "alive_held s" and "runs u = runs s"
    and "\<And>q. procs u q = Alive \<Longrightarrow>
           keeps pc = Some q \<or> procs s q = Alive \<and> keeps (runs s r) \<noteq> Some q"
  shows "alive_held (goto_pc r pc u)"
  using assms unfolding alive_held_def
  by (simp, metis)

lemma awaited_wf_goto:
  assumes "awaited_wf s" and "runs u = runs s" and "unwaited s \<subseteq> unwaited u"
    and "\<And>q. procs u q \<in> {Alive, Dying} \<Longrightarrow> q \<in> unwaited u \<or> awaits pc = Some q \<or>
           procs s q \<in> {Alive, Dying} \<and> awaits (runs s r) \<noteq> Some q"
  shows "awaited_wf (goto_pc r pc u)"
  unfolding awaited_wf_def
proof (intro allI impI)
  fix q
  assume "procs (goto_pc r pc u) q \<in> {Alive, Dying}"
  then have "q \<in> unwaited u \<or> awaits pc = Some q \<or> procs s q \<in> {Alive, Dying} \<and> awaits (runs s r) \<noteq> Some q"
    by (intro assms(4)) simp
  then consider "q \<in> unwaited u" | "awaits pc = Some q" | c where "awaits (runs s c) = Some q" "c \<noteq> r"
    using assms(1,3) unfolding awaited_wf_def by blast
  then show "q \<in> unwaited (goto_pc r pc u) \<or> (\<exists>c. awaits (runs (goto_pc r pc u) c) = Some q)"
    by cases (auto simp: assms(2))
qed

lemma active_wf_goto:
  assumes "active_wf s" and "pids_wf s" and "runs u = runs s"
    and "active u = (active s - set_option (registers (runs s r))) \<union> set_option (registers pc)"
  shows "active_wf (goto_pc r pc u)"
proof -
  have 1: "r' = r" if "registers (runs s r') = Some p" "registers (runs s r) = Some p" for p r'
    using that assms(2) unfolding pids_wf_def by (meson registers_holds)
  show ?thesis
    unfolding active_wf_def
  proof (rule set_eqI)
    fix x
    show "x \<in> active (goto_pc r pc u) \<longleftrightarrow>
        x \<in> {p. \<exists>r'. registers (runs (goto_pc r pc u) r') = Some p}"
      using assms(1,3,4) 1 [of _ x] unfolding active_wf_def by auto
  qed
qed

lemma active_wf_same:
  "active_wf s \<Longrightarrow> runs u = runs s \<Longrightarrow> active u = active s \<Longrightarrow>
    registers pc = registers (runs s r) \<Longrightarrow> active_wf (goto_pc r pc u)"
  by (auto simp: active_wf_def)

lemma alive_held_step: "run_step js fmt s t \<Longrightarrow> alive_held s \<Longrightarrow> alive_held t"
  by (induction rule: run_step.induct)
     ((rule alive_held_goto, assumption,
       simp add: kill_proc_def, auto simp: kill_proc_def split: if_splits; fail)
      | auto simp: alive_held_def kill_proc_def split: if_splits)+

lemma awaited_wf_step: "run_step js fmt s t \<Longrightarrow> awaited_wf s \<Longrightarrow> awaited_wf t"
  by (induction rule: run_step.induct)
     ((rule awaited_wf_goto, assumption, simp add: kill_proc_def, force simp: kill_proc_def,
       auto simp: kill_proc_def split: if_splits; fail)
      | auto simp: awaited_wf_def kill_proc_def split: if_splits)+

lemma active_wf_step: "run_step js fmt s t \<Longrightarrow> pids_wf s \<Longrightarrow> active_wf s \<Longrightarrow> active_wf t"
  by (induction rule: run_step.induct)
     ((rule active_wf_same, assumption, simp_all add: kill_proc_def; fail)
      | (rule active_wf_goto, assumption, assumption,
       simp add: kill_proc_def, auto simp: kill_proc_def; fail)
      | simp add: active_wf_def kill_proc_def)+

lemmas runner_inv_steps =
  pids_wf_step children_started_step active_wf_step alive_held_step awaited_wf_step doomed_wf_step fed_wf_step outcomes_wf_step

interpretation rn: rel_invariant "run_step js fmt" "runner_inv js fmt" for js fmt
  by unfold_locales (auto simp: runner_inv_def intro: runner_inv_steps)

lemma runner_inv_init: "runner_inv js fmt new_runner"
  by (simp add: runner_inv_def pids_wf_def started_wf_def active_wf_def alive_held_def awaited_wf_def doomed_wf_def
      fed_wf_def outcomes_wf_def new_runner_def)

lemma runner_reachable:
  "(run_step js fmt)\<^sup>*\<^sup>* new_runner s \<Longrightarrow> runner_inv js fmt s"
  by (rule rn.steps_inv [OF _ runner_inv_init])

subsection \<open>No process outlives its call, and the kill switch is final\<close>

text \<open>
  C9: when every call has returned (or has not begun), no PowerShell process is registered, every
  process that was started was told to end or has ended, and every call but one whose write to
  the process failed has waited for that end, so its process is gone; whatever the
  interleaving of the calls, the kill switch, the deadlines and the processes was.
\<close>

theorem no_process_leaks:
  assumes "(run_step js fmt)\<^sup>*\<^sup>* new_runner s"
    and "\<And>r. runs s r = Not_Called \<or> (\<exists>res. runs s r = Returned res)"
  shows "active s = {} \<and> (\<forall>p. procs s p \<noteq> Alive) \<and>
    (\<forall>p < next_pid s. p \<notin> unwaited s \<longrightarrow> procs s p = Ended)"
proof -
  have idle: "registers (runs s r) = None" "keeps (runs s r) = None" "awaits (runs s r) = None" for r
    using assms(2) [of r] by auto
  have inv: "active_wf s" "alive_held s" "awaited_wf s" "started_wf s"
    using runner_reachable [OF assms(1)] by (simp_all add: runner_inv_def)
  have "procs s p = Ended" if "p < next_pid s" "p \<notin> unwaited s" for p
    using that inv(3,4) idle(3) by (cases "procs s p") (auto simp: awaited_wf_def started_wf_def)
  then show ?thesis
    using inv(1,2) idle by (auto simp: active_wf_def alive_held_def)
qed

text \<open>A call that has sent its command, and the rest of its way after the deadline.\<close>

definition one_call :: "proc \<Rightarrow> run_pc \<Rightarrow> runner" where
  "one_call x pc = \<lparr>active = {0}, run_blocked = False, procs = (\<lambda>_. Absent)(0 := x), next_pid = 1,
     runs = (\<lambda>_. Not_Called)(0 := pc), to_kill = {}, fed = {0}, unwaited = {}\<rparr>"

lemma one_call_simps [simp]:
  "runs (one_call x pc) 0 = pc" "procs (one_call x pc) 0 = x" "active (one_call x pc) = {0}"
  "fed (one_call x pc) = {0}" "next_pid (one_call x pc) = 1" "unwaited (one_call x pc) = {}"
  "to_kill (one_call x pc) = {}" "run_blocked (one_call x pc) = False"
  "goto_pc 0 pc' (one_call x pc) = one_call x pc'"
  "kill_proc 0 (one_call x pc) = one_call (if x = Alive then Dying else x) pc"
  "(one_call x pc)\<lparr>procs := (procs (one_call x pc))(0 := y)\<rparr> = one_call y pc"
  by (simp_all add: one_call_def kill_proc_def)

lemma one_call_reached: "(run_step js fmt)\<^sup>*\<^sup>* new_runner (one_call Alive (At_Wait 0))"
proof -
  note step = rtranclp.rtrancl_into_rtrancl [of "run_step js fmt" new_runner]
  have "(run_step js fmt)\<^sup>*\<^sup>* new_runner new_runner" by simp
  note 1 = step [OF this call [of _ 0]]
  note 2 = step [OF 1 check_free [of _ 0]]
  note 3 = step [OF 2 start_child [of _ 0]]
  note 4 = step [OF 3 register [of _ 0 0]]
  note 5 = step [OF 4 write_done [of _ 0 0]]
  then show ?thesis
    by (simp add: new_runner_def one_call_def)
qed

lemma one_call_expired:
  "\<exists>s. (run_step js fmt)\<^sup>*\<^sup>* new_runner s \<and> next_pid s = 1 \<and> unwaited s = {} \<and> fed s = {0} \<and>
     (\<forall>r. runs s r = Not_Called \<or> (\<exists>res. runs s r = Returned res))"
proof -
  let ?res = "(timeout_result (fmt 0) 0 False, Some Timed_Out)"
  note step = rtranclp.rtrancl_into_rtrancl [of "run_step js fmt" new_runner]
  have 1: "(run_step js fmt)\<^sup>*\<^sup>* new_runner (one_call Dying (At_Exit 0 ?res))"
    using step [OF one_call_reached wait_expired [of _ 0 0 js fmt 0]] by simp
  have 2: "(run_step js fmt)\<^sup>*\<^sup>* new_runner (one_call Ended (At_Exit 0 ?res))"
    using step [OF 1 process_ends [of _ 0]] by simp
  have 3: "(run_step js fmt)\<^sup>*\<^sup>* new_runner (one_call Ended (At_Kill 0 ?res))"
    using step [OF 2 exited [of _ 0 0 ?res]] by simp
  have 4: "(run_step js fmt)\<^sup>*\<^sup>* new_runner (one_call Ended (At_Delete 0 ?res))"
    using step [OF 3 deferred_kill [of _ 0 0 ?res]] by simp
  show ?thesis
    by (rule exI, rule conjI, rule step [OF 4 deferred_delete [of _ 0 0 ?res]]) (auto simp: one_call_def)
qed

theorem no_process_leaks_witness:
  "\<exists>s :: runner. fed s = {0} \<and> procs s 0 = Ended \<and> active s = {}"
proof -
  obtain s where s: "(run_step \<lparr>json_valid = (\<lambda>_. True), json_strings = concat\<rparr> (\<lambda>_. format_lines))\<^sup>*\<^sup>* new_runner s"
    "next_pid s = 1" "unwaited s = {}" "fed s = {0}" "\<forall>r. runs s r = Not_Called \<or> (\<exists>res. runs s r = Returned res)"
    using one_call_expired by blast
  have "active s = {} \<and> (\<forall>p. procs s p \<noteq> Alive) \<and> (\<forall>p < next_pid s. p \<notin> unwaited s \<longrightarrow> procs s p = Ended)"
    by (rule no_process_leaks [OF s(1)]) (use s(5) in blast)
  then show ?thesis
    using s(2-4) by (intro exI [of _ s]) simp
qed

text \<open>Blocked, and nothing registered is alive: this cannot be undone.\<close>

definition silenced :: "runner \<Rightarrow> bool" where
  "silenced s \<longleftrightarrow> run_blocked s \<and> (\<forall>p \<in> active s. procs s p \<noteq> Alive)"

lemma fed_alive_active:
  assumes "alive_held s" "active_wf s" "fed_wf s" "p \<in> fed s" "procs s p = Alive"
  shows "p \<in> active s"
proof -
  obtain r where r: "keeps (runs s r) = Some p"
    using assms(1,5) by (auto simp: alive_held_def)
  then have "holds (runs s r) = Some p"
    by (cases "runs s r") simp_all
  then have "registers (runs s r) = Some p"
    using assms(3,4) by (auto simp: fed_wf_def)
  then show ?thesis
    using assms(2) by (auto simp: active_wf_def)
qed

lemma active_bound: "active_wf s \<Longrightarrow> pids_wf s \<Longrightarrow> p \<in> active s \<Longrightarrow> p < next_pid s"
  unfolding active_wf_def pids_wf_def by (auto dest: registers_holds)

lemma silenced_step:
  assumes "run_step js fmt s t" and "active_wf s" and "pids_wf s" and "silenced s"
  shows "silenced t \<and> fed t = fed s"
  using assms
proof (induction rule: run_step.induct)
  case (write_done s r p)
  then have "p \<in> active s"
    by (auto simp: active_wf_def intro: exI [of _ r])
  with write_done show ?case
    by (simp add: silenced_def)
next
  case (start_child s r)
  then show ?case
    by (auto simp: silenced_def dest: active_bound)
qed (auto simp: silenced_def kill_proc_def)

lemma silenced_alive:
  assumes "alive_held s" and "active_wf s" and "silenced s" and "procs s p = Alive"
  shows "\<exists>r. runs s r = At_Register p \<or> runs s r = At_Doomed p"
proof -
  obtain r where r: "keeps (runs s r) = Some p"
    using assms(1,4) by (auto simp: alive_held_def)
  have "registers (runs s r) \<noteq> Some p"
    using assms(2-4) by (auto simp: active_wf_def silenced_def)
  then show ?thesis
    using r by (intro exI [of _ r]) (cases "runs s r"; simp)
qed

text \<open>
  C10: the kill switch is final. Once a runner is blocked and the processes the switch collected
  have been told to end, then in every later state and under every interleaving with calls in
  progress no process is sent a command, no process that was sent one runs on, and a process
  that runs at all is a child some call had begun to start: it has no command, is not registered,
  and its call can only kill it.
\<close>

theorem kill_switch_is_final:
  assumes "(run_step js fmt)\<^sup>*\<^sup>* new_runner s"
    and "run_blocked s" and "to_kill s = {}"
    and "(run_step js fmt)\<^sup>*\<^sup>* s t"
  shows "fed t = fed s \<and> run_blocked t \<and> (\<forall>p \<in> fed t \<union> active t. procs t p \<noteq> Alive) \<and>
    (\<forall>p. procs t p = Alive \<longrightarrow> (\<exists>r. runs t r = At_Register p \<or> runs t r = At_Doomed p))"
proof -
  have inv: "runner_inv js fmt s"
    using assms(1) by (rule runner_reachable)
  have s: "silenced s"
    using inv assms(2,3) by (auto simp: silenced_def runner_inv_def doomed_wf_def)
  have t: "silenced t \<and> fed t = fed s"
    by (rule rn.steps_stable [where Q = "\<lambda>u. silenced u \<and> fed u = fed s", OF assms(4) inv])
       (use s in \<open>auto simp: runner_inv_def dest: silenced_step\<close>)
  moreover have "runner_inv js fmt t"
    using rn.steps_inv [OF assms(4) inv] .
  ultimately show ?thesis
    using fed_alive_active [of t] silenced_alive [of t] by (auto simp: silenced_def runner_inv_def)
qed

lemma one_call_killed:
  "\<exists>s. (run_step js fmt)\<^sup>*\<^sup>* new_runner s \<and> run_blocked s \<and> to_kill s = {} \<and> fed s = {0}"
proof -
  note step = rtranclp.rtrancl_into_rtrancl [of "run_step js fmt" new_runner]
  note 1 = step [OF step [OF one_call_reached block_and_kill_all] kill_one [of 0]]
  show ?thesis
    by (rule exI, rule conjI, rule 1) (auto simp: kill_proc_def)
qed

theorem kill_switch_is_final_witness:
  "\<exists>s :: runner. fed s = {0} \<and> procs s 0 \<noteq> Alive"
proof -
  let ?js = "\<lparr>json_valid = (\<lambda>_. True), json_strings = concat\<rparr>"
  obtain s where s: "(run_step ?js (\<lambda>_. format_lines))\<^sup>*\<^sup>* new_runner s" "run_blocked s" "to_kill s = {}"
    "fed s = {0}"
    using one_call_killed by blast
  then have "procs s 0 \<noteq> Alive"
    using kill_switch_is_final [OF s(1,2,3) rtranclp.rtrancl_refl] by simp
  with s show ?thesis
    by blast
qed

subsection \<open>Every call returns, with a consistent result\<close>

text \<open>
  How far a call is from returning, counted in its own steps; and with the end of the process it
  waits for counted too.
\<close>

fun run_rank :: "run_pc \<Rightarrow> nat" where
  "run_rank Not_Called = 10"
| "run_rank At_Check = 9"
| "run_rank At_Start = 8"
| "run_rank (At_Register p) = 7"
| "run_rank (At_Write p) = 6"
| "run_rank (At_Wait p) = 5"
| "run_rank (At_Drain p fr) = 4"
| "run_rank (At_Exit p res) = 3"
| "run_rank (At_Kill p res) = 2"
| "run_rank (At_Doomed p) = 2"
| "run_rank (At_Doomed_Exit p) = 1"
| "run_rank (At_Delete p res) = 1"
| "run_rank (Returned res) = 0"

lemma run_rank_le: "run_rank pc \<le> 10"
  by (cases pc) simp_all

definition run_left :: "runner \<Rightarrow> nat \<Rightarrow> nat" where
  "run_left s r = 2 * run_rank (runs s r) +
     (case awaits (runs s r) of None \<Rightarrow> 0 | Some p \<Rightarrow> if procs s p = Ended then 0 else 1)"

lemma run_left_le: "run_left s r \<le> 21"
  using run_rank_le [of "runs s r"] by (simp add: run_left_def split: option.split)

lemma run_left_0: "run_left s r = 0 \<longleftrightarrow> (\<exists>res. runs s r = Returned res)"
  by (cases "runs s r") (auto simp: run_left_def)

lemma run_left_rank:
  assumes "run_rank (runs t r) < run_rank (runs s r)"
  shows "run_left t r < run_left s r"
  using assms by (simp add: run_left_def split: option.split)

lemma run_rank_step:
  "run_step js fmt s t \<Longrightarrow> runs t r = runs s r \<or> run_rank (runs t r) < run_rank (runs s r)"
  by (induction rule: run_step.induct) (simp_all add: kill_proc_def)

lemma ended_below: "pids_wf s \<Longrightarrow> procs s p = Ended \<Longrightarrow> p < next_pid s"
  by (metis pids_wf_def proc.distinct(5))

lemma ended_stays: "run_step js fmt s t \<Longrightarrow> pids_wf s \<Longrightarrow> procs s p = Ended \<Longrightarrow> procs t p = Ended"
  by (erule run_stepE) (auto simp: kill_proc_def dest: ended_below)

text \<open>No step takes a call further from its return.\<close>

lemma run_left_step:
  assumes "run_step js fmt s t" and "pids_wf s"
  shows "run_left t r \<le> run_left s r"
proof (cases "runs t r = runs s r")
  case True
  then show ?thesis
    using ended_stays [OF assms] by (simp add: run_left_def split: option.split)
next
  case False
  then show ?thesis
    using run_rank_step [OF assms(1), of r] run_left_rank [of t r s] by simp
qed

text \<open>A step of one call alone, or of its process: it starts no process and touches no other call.\<close>

definition lone_run :: "nat \<Rightarrow> runner \<Rightarrow> runner \<Rightarrow> bool" where
  "lone_run r s t \<longleftrightarrow>
     (\<forall>q. q \<noteq> r \<longrightarrow> runs t q = runs s q) \<and> run_blocked t = run_blocked s \<and> to_kill t = to_kill s \<and>
     (\<forall>p. procs t p = Alive \<longrightarrow> procs s p = Alive)"

lemma lone_run_simps [simp]:
  "lone_run r s (goto_pc r pc s)" "lone_run r s (goto_pc r pc (kill_proc p s))"
  "lone_run r s (goto_pc r pc (s\<lparr>unwaited := us\<rparr>))" "lone_run r s (goto_pc r pc (s\<lparr>active := ps\<rparr>))"
  "lone_run r s (s\<lparr>procs := (procs s)(p := Ended)\<rparr>)"
  by (simp_all add: lone_run_def kill_proc_def)

abbreviation call_moves :: "json_lib \<Rightarrow> (nat \<Rightarrow> string) \<Rightarrow> nat \<Rightarrow> runner \<Rightarrow> bool" where
  "call_moves js fmt r s \<equiv> \<exists>t. run_step js fmt s t \<and> run_left t r < run_left s r \<and> lone_run r s t"

lemma step_moves:
  "run_step js fmt s t \<Longrightarrow> run_rank (runs t r) < run_rank (runs s r) \<Longrightarrow> lone_run r s t \<Longrightarrow> call_moves js fmt r s"
  using run_left_rank by blast

text \<open>The call that waits for the end of its process moves when that ends.\<close>

lemma exit_moves:
  assumes "runner_inv js fmt s" and "awaits (runs s r) = Some p" and "procs s p \<noteq> Ended"
  shows "call_moves js fmt r s"
proof -
  have "holds (runs s r) = Some p"
    using assms(2) by (cases "runs s r") simp_all
  then have "procs s p \<noteq> Absent"
    using assms(1) by (auto simp: runner_inv_def pids_wf_def started_wf_def)
  then have "procs s p \<in> {Alive, Dying}"
    using assms(3) by (cases "procs s p") simp_all
  from process_ends [OF this] show ?thesis
    using assms(2,3) by (intro exI [of _ "s\<lparr>procs := (procs s)(p := Ended)\<rparr>"]) (simp add: run_left_def)
qed

lemma run_can_move:
  assumes "runner_inv js fmt s" and "run_left s r \<noteq> 0"
  shows "call_moves js fmt r s"
proof (cases "runs s r")
  case Not_Called
  show ?thesis by (rule step_moves [OF call [OF Not_Called]]) (simp_all add: Not_Called)
next
  case At_Check
  show ?thesis
  proof (cases "run_blocked s")
    case True
    show ?thesis by (rule step_moves [OF check_blocked [OF At_Check True]]) (simp_all add: At_Check)
  next
    case False
    show ?thesis by (rule step_moves [OF check_free [OF At_Check False]]) (simp_all add: At_Check)
  qed
next
  case At_Start
  show ?thesis by (rule step_moves [OF start_failed [OF At_Start]]) (simp_all add: At_Start)
next
  case (At_Register p)
  show ?thesis
  proof (cases "run_blocked s")
    case True
    show ?thesis by (rule step_moves [OF register_blocked [OF At_Register True]]) (simp_all add: At_Register)
  next
    case False
    show ?thesis by (rule step_moves [OF register [OF At_Register False]]) (simp_all add: At_Register lone_run_def)
  qed
next
  case (At_Doomed p)
  show ?thesis by (rule step_moves [OF doomed [OF At_Doomed]]) (simp_all add: At_Doomed)
next
  case (At_Doomed_Exit p)
  show ?thesis
  proof (cases "procs s p = Ended")
    case True
    show ?thesis by (rule step_moves [OF doomed_exit [OF At_Doomed_Exit True]]) (simp_all add: At_Doomed_Exit)
  qed (rule exit_moves [OF assms(1)], simp_all add: At_Doomed_Exit)
next
  case (At_Write p)
  show ?thesis by (rule step_moves [OF write_failed [OF At_Write]]) (simp_all add: At_Write lone_run_def)
next
  case (At_Wait p)
  show ?thesis by (rule step_moves [OF wait_expired [OF At_Wait]]) (simp_all add: At_Wait)
next
  case (At_Drain p fr)
  show ?thesis by (rule step_moves [OF drain_expired [OF At_Drain]]) (simp_all add: At_Drain)
next
  case (At_Exit p res)
  show ?thesis
  proof (cases "procs s p = Ended")
    case True
    show ?thesis by (rule step_moves [OF exited [OF At_Exit True]]) (simp_all add: At_Exit)
  qed (rule exit_moves [OF assms(1)], simp_all add: At_Exit)
next
  case (At_Kill p res)
  show ?thesis by (rule step_moves [OF deferred_kill [OF At_Kill]]) (simp_all add: At_Kill)
next
  case (At_Delete p res)
  show ?thesis by (rule step_moves [OF deferred_delete [OF At_Delete]]) (simp_all add: At_Delete lone_run_def)
next
  case (Returned res)
  then show ?thesis using assms(2) run_left_0 [of s r] by simp
qed

text \<open>The contract of a result, which the job manager and the handlers rely on.\<close>

definition result_ok :: "json_lib \<Rightarrow> string \<Rightarrow> outcome \<Rightarrow> bool" where
  "result_ok js f out \<longleftrightarrow>
     (case out of (res, err) \<Rightarrow>
        \<not> session_restarted res \<and>
        (case err of
           None \<Rightarrow> \<not> timed_out res \<and> json_valid js (exec_output res)
         | Some Timed_Out \<Rightarrow> timed_out res \<and> \<not> success res \<and> exit_code res = -1 \<and>
             format res = f \<and> json_valid js (exec_output res)
         | Some _ \<Rightarrow> res = empty_result))"

lemma to_api_result_simps [simp]:
  "\<not> timed_out (to_api_result js fr ms restarted)"
  "session_restarted (to_api_result js fr ms restarted) = restarted"
  by (simp_all add: to_api_result_def Let_def empty_result_def)

lemma to_api_result_ok:
  assumes "json_valid js ''null''" and "\<And>xs. json_valid js (json_strings js xs)"
  shows "json_valid js (exec_output (to_api_result js fr ms restarted))"
  using assms by (simp add: to_api_result_def Let_def empty_result_def)

lemma timeout_result_simps [simp]:
  "timed_out (timeout_result f ms b)" "\<not> success (timeout_result f ms b)"
  "exit_code (timeout_result f ms b) = -1" "format (timeout_result f ms b) = f"
  "exec_output (timeout_result f ms b) = ''null''"
  "session_restarted (timeout_result f ms b) = b"
  by (simp_all add: timeout_result_def)

lemma empty_result_simps [simp]:
  "\<not> timed_out empty_result" "\<not> session_restarted empty_result"
  by (simp_all add: empty_result_def)

lemma run_outcome_ok:
  assumes "json_valid js ''null''" and "\<And>xs. json_valid js (json_strings js xs)"
    and "run_outcome js f out"
  shows "result_ok js f out"
  using assms(3) to_api_result_ok [of js, OF assms(1,2)] assms(1)
  by (auto simp: run_outcome_def result_ok_def)

text \<open>
  what \<open>Run\<close> returns is consistent: no error means no timeout flag and an output that is
  valid JSON, a timeout carries the flag, exit code -1, the requested format and a valid
  output, and any other error comes with the zero result.
\<close>

theorem returned_results_consistent:
  assumes "json_valid js ''null''" and "\<And>xs. json_valid js (json_strings js xs)"
    and "(run_step js fmt)\<^sup>*\<^sup>* new_runner s" and "runs s r = Returned out"
  shows "result_ok js (fmt r) out"
proof (rule run_outcome_ok [OF assms(1,2)])
  have "outcomes_wf js fmt s"
    using runner_reachable [OF assms(3)] by (simp add: runner_inv_def)
  then show "run_outcome js (fmt r) out"
    using assms(4) unfolding outcomes_wf_def by (metis outcome_of.simps(4))
qed

theorem returned_results_consistent_witness:
  "\<exists>out. result_ok \<lparr>json_valid = (\<lambda>s. s = ''null''), json_strings = (\<lambda>_. ''null'')\<rparr> format_lines out
     \<and> snd out = Some Timed_Out"
proof -
  let ?js = "\<lparr>json_valid = (\<lambda>s. s = ''null''), json_strings = (\<lambda>_. ''null'')\<rparr>"
  let ?fmt = "\<lambda>_::nat. format_lines"
  have "runs new_runner 0 = Not_Called"
    by (simp add: new_runner_def)
  note step = call_expired [OF this, of ?js ?fmt 0]
  have "result_ok ?js (?fmt 0) (timeout_result (?fmt 0) 0 False, Some Timed_Out)"
    by (rule returned_results_consistent [OF _ _ r_into_rtranclp [of "run_step ?js ?fmt", OF step],
        where r = 0])
       simp_all
  then show ?thesis
    by auto
qed

subsection \<open>Splitting a stream into lines\<close>

lemma replace_crlf_plain:
  "CHR 0x0D \<notin> set w \<Longrightarrow> replace_crlf (w @ s) = w @ replace_crlf s"
proof (induction w)
  case (Cons x w)
  then show ?case
    by (cases "w @ s") auto
qed simp

lemma replace_crlf_lines:
  "list_all (\<lambda>l. CHR 0x0D \<notin> set l) ls \<Longrightarrow>
   replace_crlf (concat (map (\<lambda>l. l @ [CHR 0x0D, CHR 0x0A]) ls)) = concat (map (\<lambda>l. l @ [CHR 0x0A]) ls)"
  by (induction ls) (simp_all add: replace_crlf_plain)

lemma concat_lines_join:
  "ls \<noteq> [] \<Longrightarrow> concat (map (\<lambda>l. l @ [CHR 0x0A]) ls) = join_with [CHR 0x0A] ls @ [CHR 0x0A]"
  by (induction "[CHR 0x0A]" ls rule: join_with.induct) simp_all

text \<open>
  \<open>splitLines\<close> reads back the lines a Windows process printed, whatever they are, except
  that a single empty line reads as no line.
\<close>

theorem split_lines_roundtrip:
  assumes "list_all (\<lambda>l. CHR 0x0D \<notin> set l \<and> CHR 0x0A \<notin> set l) ls"
  shows "split_lines (concat (map (\<lambda>l. l @ [CHR 0x0D, CHR 0x0A]) ls)) =
    (if ls = [[]] then [] else ls)"
proof (cases "ls = []")
  case True
  then show ?thesis
    by (simp add: split_lines_def trim_suffix_def)
next
  case False
  have "list_all (\<lambda>l. CHR 0x0D \<notin> set l) ls" and nl: "list_all (\<lambda>l. CHR 0x0A \<notin> set l) ls"
    using assms by (simp_all add: list_all_iff)
  then have "replace_crlf (concat (map (\<lambda>l. l @ [CHR 0x0D, CHR 0x0A]) ls)) =
      join_with [CHR 0x0A] ls @ [CHR 0x0A]"
    by (simp add: replace_crlf_lines concat_lines_join [OF False])
  then have *: "split_lines (concat (map (\<lambda>l. l @ [CHR 0x0D, CHR 0x0A]) ls)) =
      (if join_with [CHR 0x0A] ls = [] then [] else split_byte (CHR 0x0A) (join_with [CHR 0x0A] ls))"
    by (simp add: split_lines_def Let_def)
  have sp: "split_byte (CHR 0x0A) (join_with [CHR 0x0A] ls) = ls"
    by (rule split_join_byte [OF False nl])
  have "join_with [CHR 0x0A] ls = [] \<longleftrightarrow> ls = [[]]"
    using sp by (metis join_with.simps(2) split_byte.simps(1))
  with * sp show ?thesis
    by simp
qed

theorem split_lines_roundtrip_witness:
  "split_lines (concat (map (\<lambda>l. l @ [CHR 0x0D, CHR 0x0A]) [''a'', [], ''b''])) = [''a'', [], ''b'']"
  using split_lines_roundtrip [of "[''a'', [], ''b'']"] by simp

end
