(* ===== verification/Jobs.thy ===== *)
theory Jobs
  imports Runner
begin

section \<open>internal/jobs/manager.go: asynchronous jobs\<close>

text \<open>
  The job manager. A \<open>*job\<close> is a reference into a heap, because the goroutine that runs a
  job keeps its pointer while the map of jobs is pruned. Every operation holds \<open>m.mu\<close> for
  its whole effect on the manager, so a run of the manager is a sequence of operations; the
  end of a job's goroutine is one of them, at any time after its submission and with any result
  of the runner. Cancelling a context only sets a flag that the runner, not the manager,
  reads, so it is set in the operation that calls \<open>cancel\<close>.
\<close>

subsection \<open>Data\<close>

datatype job_status = No_Status | Running | Cancelling | Completed | Failed | Job_Timed_Out | Cancelled

definition status_text :: "job_status \<Rightarrow> string" where
  "status_text s =
     (case s of
        No_Status \<Rightarrow> [] | Running \<Rightarrow> ''running'' | Cancelling \<Rightarrow> ''cancelling'' | Completed \<Rightarrow> ''completed''
      | Failed \<Rightarrow> ''failed'' | Job_Timed_Out \<Rightarrow> ''timed_out'' | Cancelled \<Rightarrow> ''cancelled'')"

datatype job_error = Job_Limit | Job_Not_Found | Job_Not_Running | Job_Blocked | Job_No_Id

record snapshot =
  sn_job_id :: string
  status :: job_status
  created_at :: timestamp
  started_at :: timestamp
  completed_at :: timestamp
  sn_timeout :: duration
  execution :: "exec_result option"
  sn_error :: string
  cancel_reason :: string

type_synonym job_ref = nat

record job =
  snap :: snapshot
  ctx_cancelled :: bool
  on_done :: bool

text \<open>
  \<open>goroutines\<close> holds the calls \<open>run(ctx, j, command, format)\<close> whose job has not ended,
  \<open>unreported\<close> those that have released \<open>m.mu\<close> with the end of the job in place and have yet to
  call \<open>onDone\<close>, with the snapshot they hold, \<open>notified\<close> the calls of \<open>onDone\<close> so far, \<open>draws\<close> how many identifiers were
  drawn from \<open>crypto/rand\<close>, which is a parameter \<open>entropy\<close>: the bytes of the n-th
  draw, or an error.
\<close>

record manager =
  job_map :: "(string \<times> job_ref) list"
  job_heap :: "job_ref \<Rightarrow> job"
  next_job :: job_ref
  max_active :: int
  max_results :: int
  retention :: duration
  jobs_blocked :: bool
  goroutines :: "(job_ref \<times> string \<times> string) list"
  unreported :: "(job_ref \<times> snapshot) list"
  notified :: "(job_ref \<times> snapshot) list"
  draws :: nat

type_synonym entropy = "nat \<Rightarrow> string option"

text \<open>The zero value \<open>Snapshot{}\<close>, whose status is the empty string.\<close>

definition empty_snapshot :: snapshot where
  "empty_snapshot = \<lparr>sn_job_id = [], status = No_Status, created_at = 0, started_at = 0,
     completed_at = 0, sn_timeout = 0, execution = None, sn_error = [], cancel_reason = []\<rparr>"

definition empty_job :: job where
  "empty_job = \<lparr>snap = empty_snapshot, ctx_cancelled = False, on_done = False\<rparr>"

definition new_manager :: "int \<Rightarrow> int \<Rightarrow> duration \<Rightarrow> manager" where
  "new_manager ma mr ret =
     \<lparr>job_map = [], job_heap = (\<lambda>_. empty_job), next_job = 0, max_active = ma, max_results = mr,
      retention = ret, jobs_blocked = False, goroutines = [], unreported = [], notified = [], draws = 0\<rparr>"

definition random_id :: "entropy \<Rightarrow> nat \<Rightarrow> string option" where
  "random_id entropy n = map_option hex_encode (entropy n)"

subsection \<open>Copies\<close>

definition clone_execution :: "exec_result \<Rightarrow> exec_result" where
  "clone_execution e = e\<lparr>exec_output := [] @ exec_output e, stderr := [] @ stderr e\<rparr>"

definition clone_execution_value :: "exec_result option \<Rightarrow> exec_result option" where
  "clone_execution_value e = (case e of None \<Rightarrow> None | Some v \<Rightarrow> Some (clone_execution v))"

definition clone_snapshot :: "snapshot \<Rightarrow> snapshot" where
  "clone_snapshot s = s\<lparr>execution := clone_execution_value (execution s)\<rparr>"

subsection \<open>Counting and pruning\<close>

definition job_of :: "manager \<Rightarrow> job_ref \<Rightarrow> snapshot" where
  "job_of m r = snap (job_heap m r)"

definition is_active :: "snapshot \<Rightarrow> bool" where
  "is_active s \<longleftrightarrow> status s = Running \<or> status s = Cancelling"

definition active_locked :: "manager \<Rightarrow> nat" where
  "active_locked m = length (filter (\<lambda>e. is_active (job_of m (snd e))) (job_map m))"

definition job_expired :: "manager \<Rightarrow> timestamp \<Rightarrow> job_ref \<Rightarrow> bool" where
  "job_expired m now r \<longleftrightarrow>
     completed_at (job_of m r) \<noteq> 0 \<and> retention m \<le> time_sub now (completed_at (job_of m r))"

definition prune_expired :: "timestamp \<Rightarrow> manager \<Rightarrow> manager" where
  "prune_expired now m = m\<lparr>job_map := filter (\<lambda>e. \<not> job_expired m now (snd e)) (job_map m)\<rparr>"

text \<open>The inner loop of \<open>pruneCapacityLocked\<close>, with \<open>oldestID\<close> and \<open>oldest\<close>.\<close>

fun oldest_job :: "(job_ref \<Rightarrow> job) \<Rightarrow> (string \<times> job_ref) list \<Rightarrow> string \<times> timestamp \<Rightarrow> string \<times> timestamp"
where
  "oldest_job h [] acc = acc"
| "oldest_job h ((jid, r) # es) (oldest_id, oldest) =
     (let c = completed_at (snap (h r)) in
      if c = 0 then oldest_job h es (oldest_id, oldest)
      else if oldest_id = [] \<or> c < oldest then oldest_job h es (jid, c)
      else oldest_job h es (oldest_id, oldest))"

lemma oldest_job_id:
  "fst (oldest_job h es acc) = fst acc \<or> fst (oldest_job h es acc) \<in> fst ` set es"
  by (induction h es acc rule: oldest_job.induct) (auto simp: Let_def)

function prune_capacity_map ::
  "(job_ref \<Rightarrow> job) \<Rightarrow> int \<Rightarrow> (string \<times> job_ref) list \<Rightarrow> (string \<times> job_ref) list" where
  "prune_capacity_map h limit jm =
     (if int (length jm) \<ge> limit
      then let oldest_id = fst (oldest_job h jm ([], 0)) in
           if oldest_id = [] then jm else prune_capacity_map h limit (mdel oldest_id jm)
      else jm)"
  by pat_completeness auto
termination
proof (relation "measure (\<lambda>(h, limit, jm). length jm)")
  fix h limit jm x
  assume "x = fst (oldest_job h jm ([], 0))" "x \<noteq> []"
  then have "mget jm x \<noteq> None"
    using oldest_job_id [of h jm "([], 0)"] by (simp add: mget_eq_None)
  then show "((h, limit, mdel x jm), h, limit, jm) \<in> measure (\<lambda>(h, limit, jm). length jm)"
    by (auto dest: length_mdel_less)
qed simp

declare prune_capacity_map.simps [simp del]

definition prune_capacity :: "manager \<Rightarrow> manager" where
  "prune_capacity m = m\<lparr>job_map := prune_capacity_map (job_heap m) (max_results m) (job_map m)\<rparr>"

subsection \<open>Operations\<close>

definition submit ::
  "entropy \<Rightarrow> string \<Rightarrow> string \<Rightarrow> duration \<Rightarrow> bool \<Rightarrow> timestamp \<Rightarrow> manager \<Rightarrow>
   manager \<times> snapshot \<times> job_error option" where
  "submit entropy command fmt timeout cb now m0 =
     (let m = m0\<lparr>draws := Suc (draws m0)\<rparr> in
      case random_id entropy (draws m0) of
        None \<Rightarrow> (m, empty_snapshot, Some Job_No_Id)
      | Some jid \<Rightarrow>
          let m = prune_expired now m in
          if jobs_blocked m then (m, empty_snapshot, Some Job_Blocked)
          else if int (active_locked m) \<ge> max_active m then (m, empty_snapshot, Some Job_Limit)
          else
            let m = prune_capacity m;
                r = next_job m;
                sn = empty_snapshot\<lparr>sn_job_id := jid, status := Running, created_at := now,
                       started_at := now, sn_timeout := timeout\<rparr>;
                j = \<lparr>snap = sn, ctx_cancelled = False, on_done = cb\<rparr>
            in (m\<lparr>job_heap := (job_heap m)(r := j), next_job := Suc r,
                  job_map := mput jid r (job_map m),
                  goroutines := goroutines m @ [(r, command, fmt)]\<rparr>,
                clone_snapshot sn, None))"

text \<open>The snapshot \<open>run\<close> leaves when the runner returned \<open>out\<close>.\<close>

definition finished_snapshot :: "outcome \<Rightarrow> timestamp \<Rightarrow> snapshot \<Rightarrow> snapshot" where
  "finished_snapshot out now s =
     (let (result, err) = out;
          (s', result') =
            (if status s = Cancelling then (s\<lparr>status := Cancelled\<rparr>, result\<lparr>timed_out := False\<rparr>)
             else if err = Some Timed_Out then (s\<lparr>status := Job_Timed_Out\<rparr>, result)
             else case err of
                    Some e \<Rightarrow> (s\<lparr>status := Failed, sn_error := error_text e\<rparr>, result)
                  | None \<Rightarrow> (s\<lparr>status := Completed\<rparr>, result))
      in s'\<lparr>completed_at := now, execution := Some (clone_execution result')\<rparr>)"

text \<open>
  \<open>run\<close> up to the release of \<open>m.mu\<close>, when the runner has returned; the end of the job can be seen
  from then on. Then, in a step of its own, the call of \<open>onDone\<close>.
\<close>

definition finish_run :: "job_ref \<Rightarrow> outcome \<Rightarrow> timestamp \<Rightarrow> manager \<Rightarrow> manager" where
  "finish_run r out now m =
     (if r \<notin> fst ` set (goroutines m) then m
      else let j = job_heap m r;
               sn = finished_snapshot out now (snap j)
           in m\<lparr>job_heap := (job_heap m)(r := j\<lparr>snap := sn, ctx_cancelled := True\<rparr>),
                goroutines := mdel r (goroutines m),
                unreported := (if on_done j then unreported m @ [(r, clone_snapshot sn)] else unreported m)\<rparr>)"

definition call_done :: "job_ref \<Rightarrow> manager \<Rightarrow> manager" where
  "call_done r m =
     (case mget (unreported m) r of
        None \<Rightarrow> m
      | Some sn \<Rightarrow> m\<lparr>unreported := mdel r (unreported m), notified := notified m @ [(r, sn)]\<rparr>)"

definition get_job :: "string \<Rightarrow> timestamp \<Rightarrow> manager \<Rightarrow> manager \<times> snapshot \<times> job_error option" where
  "get_job jid now m0 =
     (let m = prune_expired now m0 in
      case mget (job_map m) jid of
        None \<Rightarrow> (m, empty_snapshot, Some Job_Not_Found)
      | Some r \<Rightarrow> (m, clone_snapshot (job_of m r), None))"

definition cancelling_job :: "string \<Rightarrow> job \<Rightarrow> job" where
  "cancelling_job reason j =
     j\<lparr>snap := (snap j)\<lparr>status := Cancelling, cancel_reason := reason\<rparr>\<rparr>"

definition cancel_contexts :: "job_ref list \<Rightarrow> (job_ref \<Rightarrow> job) \<Rightarrow> (job_ref \<Rightarrow> job)" where
  "cancel_contexts rs h = (\<lambda>r. if r \<in> set rs then (h r)\<lparr>ctx_cancelled := True\<rparr> else h r)"

definition cancel_job :: "string \<Rightarrow> string \<Rightarrow> manager \<Rightarrow> manager \<times> snapshot \<times> job_error option" where
  "cancel_job jid reason m =
     (case mget (job_map m) jid of
        None \<Rightarrow> (m, empty_snapshot, Some Job_Not_Found)
      | Some r \<Rightarrow>
          if status (job_of m r) \<noteq> Running
          then (m, clone_snapshot (job_of m r), Some Job_Not_Running)
          else let j = cancelling_job reason (job_heap m r)
               in (m\<lparr>job_heap := cancel_contexts [r] ((job_heap m)(r := j))\<rparr>,
                   clone_snapshot (snap j), None))"

text \<open>The loop of \<open>CancelAll\<close>: the new heap and the contexts to cancel.\<close>

fun cancel_running ::
  "string \<Rightarrow> (string \<times> job_ref) list \<Rightarrow> (job_ref \<Rightarrow> job) \<Rightarrow> (job_ref \<Rightarrow> job) \<times> job_ref list" where
  "cancel_running reason [] h = (h, [])"
| "cancel_running reason ((jid, r) # es) h =
     (if status (snap (h r)) = Running
      then let (h', rs) = cancel_running reason es (h(r := cancelling_job reason (h r)))
           in (h', r # rs)
      else cancel_running reason es h)"

definition cancel_all :: "string \<Rightarrow> manager \<Rightarrow> manager \<times> nat" where
  "cancel_all reason m =
     (let (h, rs) = cancel_running reason (job_map m) (job_heap m)
      in (m\<lparr>job_heap := cancel_contexts rs h\<rparr>, length rs))"

definition block_and_cancel_all :: "string \<Rightarrow> manager \<Rightarrow> manager \<times> nat" where
  "block_and_cancel_all reason m = cancel_all reason (m\<lparr>jobs_blocked := True\<rparr>)"

definition active_count :: "manager \<Rightarrow> nat" where
  "active_count m = active_locked m"

definition close_manager :: "manager \<Rightarrow> manager" where
  "close_manager m = fst (block_and_cancel_all ''server_shutdown'' m)"

datatype job_op =
    Submit_Job string string duration bool timestamp
  | Finish_Job job_ref outcome timestamp
  | Call_Done job_ref
  | Get_Job string timestamp
  | Cancel_Job string string
  | Cancel_All string
  | Block_And_Cancel_All string
  | Close_Manager

definition job_step :: "entropy \<Rightarrow> manager \<Rightarrow> job_op \<Rightarrow> manager" where
  "job_step entropy m x =
     (case x of
        Submit_Job command fmt timeout cb now \<Rightarrow> fst (submit entropy command fmt timeout cb now m)
      | Finish_Job r out now \<Rightarrow> finish_run r out now m
      | Call_Done r \<Rightarrow> call_done r m
      | Get_Job jid now \<Rightarrow> fst (get_job jid now m)
      | Cancel_Job jid reason \<Rightarrow> fst (cancel_job jid reason m)
      | Cancel_All reason \<Rightarrow> fst (cancel_all reason m)
      | Block_And_Cancel_All reason \<Rightarrow> fst (block_and_cancel_all reason m)
      | Close_Manager \<Rightarrow> close_manager m)"

subsection \<open>Well-formed managers\<close>

abbreviation live_refs :: "manager \<Rightarrow> job_ref set" where
  "live_refs m \<equiv> fst ` set (goroutines m)"

definition job_map_wf :: "manager \<Rightarrow> bool" where
  "job_map_wf m \<longleftrightarrow> mok (job_map m) \<and>
     (\<forall>e \<in> set (job_map m). snd e < next_job m \<and> sn_job_id (job_of m (snd e)) = fst e \<and> fst e \<noteq> [])"

definition job_live_wf :: "manager \<Rightarrow> bool" where
  "job_live_wf m \<longleftrightarrow> mok (goroutines m) \<and>
     (\<forall>r \<in> live_refs m. r < next_job m \<and> (sn_job_id (job_of m r), r) \<in> set (job_map m)) \<and>
     (\<forall>r < next_job m. (is_active (job_of m r) \<longleftrightarrow> r \<in> live_refs m) \<and>
        (completed_at (job_of m r) = 0 \<longleftrightarrow> r \<in> live_refs m))"

definition job_ids_wf :: "entropy \<Rightarrow> manager \<Rightarrow> bool" where
  "job_ids_wf entropy m \<longleftrightarrow>
     (\<forall>jid \<in> fst ` set (job_map m). \<exists>n < draws m. random_id entropy n = Some jid)"

definition job_bounds :: "manager \<Rightarrow> bool" where
  "job_bounds m \<longleftrightarrow> max_active m \<le> max_results m \<and> int (active_locked m) \<le> max_active m \<and>
     int (length (job_map m)) \<le> max_results m"

definition job_block_wf :: "manager \<Rightarrow> bool" where
  "job_block_wf m \<longleftrightarrow>
     (jobs_blocked m \<longrightarrow> (\<forall>r < next_job m. status (job_of m r) \<noteq> Running))"

definition job_inv :: "entropy \<Rightarrow> manager \<Rightarrow> bool" where
  "job_inv entropy m \<longleftrightarrow>
     job_map_wf m \<and> job_live_wf m \<and> job_ids_wf entropy m \<and> job_bounds m \<and> job_block_wf m"

text \<open>What is assumed of \<open>crypto/rand\<close>: sixteen bytes that were never drawn before.\<close>

definition good_entropy :: "entropy \<Rightarrow> bool" where
  "good_entropy entropy \<longleftrightarrow>
     (\<forall>n b. entropy n = Some b \<longrightarrow> length b = 16) \<and>
     (\<forall>n k b. entropy n = Some b \<longrightarrow> entropy k = Some b \<longrightarrow> n = k)"

lemma random_id_inject:
  "good_entropy entropy \<Longrightarrow> random_id entropy n = Some jid \<Longrightarrow> random_id entropy k = Some jid \<Longrightarrow> n = k"
  by (auto simp: good_entropy_def random_id_def hex.enc_inject)

lemma random_id_length:
  "good_entropy entropy \<Longrightarrow> random_id entropy n = Some jid \<Longrightarrow> length jid = 32"
  by (auto simp: good_entropy_def random_id_def)

text \<open>A goroutine ends at a time that is not the zero time.\<close>

fun job_op_ok :: "job_op \<Rightarrow> bool" where
  "job_op_ok (Finish_Job r out now) = (now \<noteq> 0)"
| "job_op_ok _ = True"

lemma job_liveD:
  assumes "job_live_wf m" and "r \<in> live_refs m"
  shows "r < next_job m" "(sn_job_id (job_of m r), r) \<in> set (job_map m)"
    "completed_at (job_of m r) = 0" "is_active (job_of m r)"
  using assms unfolding job_live_wf_def by blast+

lemma job_map_status:
  assumes "job_map_wf m" and "job_live_wf m" and "e \<in> set (job_map m)"
  shows "is_active (job_of m (snd e)) \<longleftrightarrow> completed_at (job_of m (snd e)) = 0"
proof -
  have "snd e < next_job m"
    using assms(1,3) by (auto simp: job_map_wf_def)
  then show ?thesis
    using assms(2) unfolding job_live_wf_def by blast
qed

lemma new_manager_inv:
  "0 \<le> ma \<Longrightarrow> ma \<le> mr \<Longrightarrow> job_inv entropy (new_manager ma mr ret)"
  by (simp add: job_inv_def new_manager_def job_map_wf_def job_live_wf_def job_ids_wf_def
      job_bounds_def job_block_wf_def active_locked_def)

lemma clone_snapshot_id [simp]: "clone_snapshot s = s"
  by (cases s)
     (simp add: clone_snapshot_def clone_execution_value_def clone_execution_def split: option.split)

lemma clone_execution_id [simp]: "clone_execution e = e"
  by (simp add: clone_execution_def)

subsubsection \<open>Pruning keeps active jobs\<close>

text \<open>Every pruning is a filter that keeps the jobs without a completion time.\<close>

definition keeps_active :: "manager \<Rightarrow> (string \<times> job_ref \<Rightarrow> bool) \<Rightarrow> bool" where
  "keeps_active m P \<longleftrightarrow>
     (\<forall>e \<in> set (job_map m). completed_at (job_of m (snd e)) = 0 \<longrightarrow> P e)"

lemma active_locked_filter:
  "job_map_wf m \<Longrightarrow> job_live_wf m \<Longrightarrow> keeps_active m P \<Longrightarrow>
    active_locked (m\<lparr>job_map := filter P (job_map m)\<rparr>) = active_locked m"
  unfolding active_locked_def
  by (simp add: job_of_def, rule arg_cong [where f = length], rule filter_cong, rule refl)
     (auto simp: job_map_wf_def job_live_wf_def keeps_active_def job_of_def)

lemma filter_inv:
  assumes "job_inv entropy m" and "keeps_active m P"
  shows "job_inv entropy (m\<lparr>job_map := filter P (job_map m)\<rparr>)"
proof -
  have wf: "job_map_wf m" "job_live_wf m"
    using assms(1) by (simp_all add: job_inv_def)
  have "int (length (filter P (job_map m))) \<le> max_results m"
    using assms(1) length_filter_le [of P "job_map m"]
    unfolding job_inv_def job_bounds_def by linarith
  moreover have "(sn_job_id (job_of m r), r) \<in> set (filter P (job_map m))" if "r \<in> live_refs m" for r
    using job_liveD [OF wf(2) that] assms(2) by (auto simp: keeps_active_def)
  ultimately show ?thesis
    using assms active_locked_filter [OF wf assms(2)]
    by (auto simp: job_inv_def job_map_wf_def job_live_wf_def job_ids_wf_def job_bounds_def
        job_block_wf_def mok_filter job_of_def)
qed

lemma keeps_active_expired: "keeps_active m (\<lambda>e. \<not> job_expired m now (snd e))"
  by (simp add: keeps_active_def job_expired_def)

lemma prune_expired_inv: "job_inv entropy m \<Longrightarrow> job_inv entropy (prune_expired now m)"
  unfolding prune_expired_def by (rule filter_inv [OF _ keeps_active_expired])

text \<open>The entry the inner loop selects has completed, and no earlier than any other.\<close>

lemma oldest_job_found:
  "(\<forall>e \<in> set es. fst e \<noteq> []) \<Longrightarrow> oldest_job h es acc = (i, c) \<Longrightarrow>
    (i, c) = acc \<or> (\<exists>r. (i, r) \<in> set es \<and> completed_at (snap (h r)) = c \<and> c \<noteq> 0)"
  by (induction h es acc rule: oldest_job.induct) (auto simp: Let_def split: if_splits)

lemma oldest_job_least:
  "(\<forall>e \<in> set es. fst e \<noteq> []) \<Longrightarrow> oldest_job h es (j, d) = (i, c) \<Longrightarrow>
    (j \<noteq> [] \<longrightarrow> i \<noteq> [] \<and> c \<le> d) \<and>
    (\<forall>e \<in> set es. completed_at (snap (h (snd e))) \<noteq> 0 \<longrightarrow>
       i \<noteq> [] \<and> c \<le> completed_at (snap (h (snd e))))"
proof (induction h es "(j, d)" arbitrary: j d rule: oldest_job.induct)
  case (2 h jid r es oldest_id oldest)
  then show ?case
    by (simp add: Let_def split: if_splits; fastforce)
qed simp

lemma oldest_job_none:
  assumes "\<forall>e \<in> set es. fst e \<noteq> []"
  shows "fst (oldest_job h es ([], 0)) = [] \<longleftrightarrow> (\<forall>e \<in> set es. completed_at (snap (h (snd e))) = 0)"
proof -
  obtain i c where ic: "oldest_job h es ([], 0) = (i, c)"
    by fastforce
  show ?thesis
    using oldest_job_found [OF assms ic] oldest_job_least [OF assms ic] assms ic by force
qed

lemma mdel_keeps:
  assumes "mok jm" and "(i, r) \<in> set jm" and "completed_at (snap (h r)) \<noteq> 0"
  shows "\<forall>e \<in> set jm. completed_at (snap (h (snd e))) = 0 \<longrightarrow> fst e \<noteq> i"
  using assms by (metis mget_eq_Some option.inject prod.collapse)

lemma prune_capacity_map_spec:
  "mok jm \<Longrightarrow> \<forall>e \<in> set jm. fst e \<noteq> [] \<Longrightarrow>
    (\<exists>P. prune_capacity_map h limit jm = filter P jm \<and>
       (\<forall>e \<in> set jm. completed_at (snap (h (snd e))) = 0 \<longrightarrow> P e)) \<and>
    (int (length (prune_capacity_map h limit jm)) < limit \<or>
     (\<forall>e \<in> set (prune_capacity_map h limit jm). completed_at (snap (h (snd e))) = 0))"
proof (induction h limit jm rule: prune_capacity_map.induct)
  case (1 h limit jm)
  obtain i c where ic: "oldest_job h jm ([], 0) = (i, c)"
    by fastforce
  show ?case
  proof (cases "limit \<le> int (length jm) \<and> i \<noteq> []")
    case True
    obtain r where r: "(i, r) \<in> set jm" "completed_at (snap (h r)) \<noteq> 0"
      using oldest_job_found [OF 1(3) ic] True by auto
    have rec: "prune_capacity_map h limit jm = prune_capacity_map h limit (mdel i jm)"
      using True ic by (subst prune_capacity_map.simps) (simp add: Let_def)
    have del: "mok (mdel i jm)" "\<forall>e \<in> set (mdel i jm). fst e \<noteq> []"
      using 1(2,3) by (simp_all add: go_map_simps) (simp add: mdel_def)
    have "limit \<le> int (length jm)" "i = fst (oldest_job h jm ([], 0))" "i \<noteq> []"
      using True ic by simp_all
    from 1(1) [OF this del] obtain P where
      P: "prune_capacity_map h limit (mdel i jm) = filter P (mdel i jm)"
        "\<forall>e \<in> set (mdel i jm). completed_at (snap (h (snd e))) = 0 \<longrightarrow> P e"
      and fin: "int (length (prune_capacity_map h limit (mdel i jm))) < limit \<or>
        (\<forall>e \<in> set (prune_capacity_map h limit (mdel i jm)). completed_at (snap (h (snd e))) = 0)"
      by blast
    have "filter P (mdel i jm) = filter (\<lambda>e. fst e \<noteq> i \<and> P e) jm"
      by (simp add: mdel_def conj_commute)
    moreover have "\<forall>e \<in> set jm. completed_at (snap (h (snd e))) = 0 \<longrightarrow> fst e \<noteq> i \<and> P e"
      using mdel_keeps [where h = h, OF 1(2) r] P(2) by (auto simp: mdel_def)
    ultimately show ?thesis
      unfolding rec using P(1) fin by auto
  next
    case False
    then have same: "prune_capacity_map h limit jm = jm"
      using ic by (subst prune_capacity_map.simps) auto
    have "i = [] \<Longrightarrow> \<forall>e \<in> set jm. completed_at (snap (h (snd e))) = 0"
      using oldest_job_none [OF 1(3), of h] ic by simp
    then show ?thesis
      using same False by (auto intro: exI [of _ "\<lambda>_. True"])
  qed
qed

lemma prune_capacity_filter:
  assumes "job_inv entropy m"
  obtains P where "prune_capacity m = m\<lparr>job_map := filter P (job_map m)\<rparr>" "keeps_active m P"
    "int (length (job_map (prune_capacity m))) < max_results m \<or>
     length (job_map (prune_capacity m)) = active_locked m"
proof -
  have wf: "mok (job_map m)" "\<forall>e \<in> set (job_map m). fst e \<noteq> []" "job_map_wf m" "job_live_wf m"
    using assms by (auto simp: job_inv_def job_map_wf_def)
  obtain P where P: "prune_capacity_map (job_heap m) (max_results m) (job_map m) = filter P (job_map m)"
      "keeps_active m P"
    using prune_capacity_map_spec [OF wf(1,2), of "job_heap m" "max_results m"]
    by (auto simp: keeps_active_def job_of_def)
  then have pc: "prune_capacity m = m\<lparr>job_map := filter P (job_map m)\<rparr>"
    by (simp add: prune_capacity_def)
  have "length (filter P (job_map m)) = active_locked m"
    if "\<forall>e \<in> set (filter P (job_map m)). completed_at (job_of m (snd e)) = 0"
  proof -
    have "filter (\<lambda>e. is_active (job_of m (snd e))) (filter P (job_map m)) = filter P (job_map m)"
      by (rule filter_True) (use that job_map_status [OF wf(3,4)] in auto)
    then show ?thesis
      using active_locked_filter [OF wf(3,4) P(2)] by (simp add: active_locked_def job_of_def)
  qed
  then have "int (length (job_map (prune_capacity m))) < max_results m \<or>
     length (job_map (prune_capacity m)) = active_locked m"
    using prune_capacity_map_spec [OF wf(1,2), of "job_heap m" "max_results m"] P(1)
    by (auto simp: pc job_of_def)
  with pc P(2) show ?thesis
    using that by blast
qed

subsubsection \<open>Cancelling\<close>

text \<open>What cancelling may do to a job.\<close>

definition cancel_change :: "job \<Rightarrow> job \<Rightarrow> bool" where
  "cancel_change j j' \<longleftrightarrow>
     snap j' = snap j \<or>
     status (snap j) = Running \<and>
       (\<exists>reason. snap j' = (snap j)\<lparr>status := Cancelling, cancel_reason := reason\<rparr>)"

lemma cancel_change_simps:
  "cancel_change j j' \<Longrightarrow> sn_job_id (snap j') = sn_job_id (snap j)"
  "cancel_change j j' \<Longrightarrow> completed_at (snap j') = completed_at (snap j)"
  "cancel_change j j' \<Longrightarrow> is_active (snap j') = is_active (snap j)"
  "cancel_change j j' \<Longrightarrow> status (snap j') = Running \<Longrightarrow> status (snap j) = Running"
  by (auto simp: cancel_change_def is_active_def)

lemma heap_cancel_inv:
  assumes "job_inv entropy m" and "\<And>r. cancel_change (job_heap m r) (h r)"
  shows "job_inv entropy (m\<lparr>job_heap := h\<rparr>)"
proof -
  have same: "sn_job_id (snap (h r)) = sn_job_id (snap (job_heap m r))"
    "completed_at (snap (h r)) = completed_at (snap (job_heap m r))"
    "is_active (snap (h r)) = is_active (snap (job_heap m r))" for r
    using cancel_change_simps(1-3) [OF assms(2)] by simp_all
  have "job_block_wf (m\<lparr>job_heap := h\<rparr>)"
    using assms(1) cancel_change_simps(4) [OF assms(2)]
    by (auto simp: job_inv_def job_block_wf_def job_of_def)
  then show ?thesis
    using assms(1) unfolding job_inv_def job_map_wf_def job_live_wf_def job_ids_wf_def job_bounds_def
      active_locked_def job_of_def
    by (simp add: same)
qed

lemma cancelling_job_simps [simp]:
  "snap (cancelling_job reason j) = (snap j)\<lparr>status := Cancelling, cancel_reason := reason\<rparr>"
  by (simp add: cancelling_job_def)

lemma cancel_running_heap:
  "fst (cancel_running reason es h) r =
     (if r \<in> snd ` set es \<and> status (snap (h r)) = Running
      then cancelling_job reason (h r) else h r)"
proof (induction es arbitrary: h)
  case (Cons e es)
  obtain jid k where e: "e = (jid, k)"
    by fastforce
  have "fst (cancel_running reason es (h(k := j))) r =
      (if r \<in> snd ` set es \<and> status (snap ((h(k := j)) r)) = Running
       then cancelling_job reason ((h(k := j)) r) else (h(k := j)) r)" for j
    by (rule Cons)
  then show ?case
    using Cons [of h] by (cases "r = k"; cases "status (snap (h k)) = Running") (simp_all add: e split_beta)
qed simp

lemma cancel_running_count:
  "distinct (map snd es) \<Longrightarrow>
   length (snd (cancel_running reason es h)) =
     length (filter (\<lambda>e. status (snap (h (snd e))) = Running) es)"
proof (induction es arbitrary: h)
  case (Cons e es)
  obtain jid k where e: "e = (jid, k)"
    by fastforce
  have "length (snd (cancel_running reason es (h(k := j)))) =
      length (filter (\<lambda>e. status (snap (h (snd e))) = Running) es)" for j
  proof -
    have "filter (\<lambda>e. status (snap ((h(k := j)) (snd e))) = Running) es =
        filter (\<lambda>e. status (snap (h (snd e))) = Running) es"
      using Cons(2) by (intro filter_cong) (auto simp: e)
    then show ?thesis
      using Cons(1) [of "h(k := j)"] Cons(2) by (metis distinct.simps(2) list.simps(9))
  qed
  then show ?case
    using Cons(1) [of h] Cons(2) by (simp add: e split_beta)
qed simp

lemma snap_cancel_contexts [simp]: "snap (cancel_contexts rs h r) = snap (h r)"
  by (simp add: cancel_contexts_def)

lemma job_of_cancel_all:
  "job_of (fst (cancel_all reason m)) r =
     (if r \<in> snd ` set (job_map m) \<and> status (job_of m r) = Running
      then (job_of m r)\<lparr>status := Cancelling, cancel_reason := reason\<rparr> else job_of m r)"
  using cancel_running_heap [of reason "job_map m" "job_heap m" r]
  by (simp add: cancel_all_def job_of_def split_beta)

lemma cancel_all_inv:
  assumes "job_inv entropy m"
  shows "job_inv entropy (fst (cancel_all reason m))"
proof -
  obtain h rs where c: "cancel_running reason (job_map m) (job_heap m) = (h, rs)"
    by fastforce
  have "job_inv entropy (m\<lparr>job_heap := cancel_contexts rs h\<rparr>)"
    using assms
  proof (rule heap_cancel_inv)
    fix r
    show "cancel_change (job_heap m r) (cancel_contexts rs h r)"
      using cancel_running_heap [of reason "job_map m" "job_heap m" r]
      by (auto simp: c cancel_change_def)
  qed
  then show ?thesis
    by (simp add: cancel_all_def c)
qed

lemma cancel_all_frame [simp]:
  "job_map (fst (cancel_all reason m)) = job_map m"
  "next_job (fst (cancel_all reason m)) = next_job m"
  "jobs_blocked (fst (cancel_all reason m)) = jobs_blocked m"
  "goroutines (fst (cancel_all reason m)) = goroutines m"
  by (simp_all add: cancel_all_def split: prod.split)

text \<open>Every running job is in the map, so \<open>CancelAll\<close> leaves none running.\<close>

lemma cancel_all_none_running:
  assumes "job_live_wf m" and "r < next_job m"
  shows "status (job_of (fst (cancel_all reason m)) r) \<noteq> Running"
proof (cases "status (job_of m r) = Running")
  case True
  then have "r \<in> live_refs m"
    using assms by (auto simp: job_live_wf_def is_active_def)
  then have "r \<in> snd ` set (job_map m)"
    using job_liveD(2) [OF assms(1)] by (metis image_eqI snd_conv)
  then show ?thesis
    by (simp add: job_of_cancel_all True)
qed (simp add: job_of_cancel_all)

lemma block_inv_weak:
  assumes "job_inv entropy m"
  shows "job_inv entropy (fst (block_and_cancel_all reason m))"
proof -
  let ?n = "fst (cancel_all reason m)"
  have n: "job_inv entropy ?n"
    using assms by (rule cancel_all_inv)
  have eq: "fst (block_and_cancel_all reason m) = ?n\<lparr>jobs_blocked := True\<rparr>"
    by (simp add: block_and_cancel_all_def cancel_all_def split: prod.split)
  have "\<forall>r < next_job m. status (job_of ?n r) \<noteq> Running"
    using assms cancel_all_none_running by (auto simp: job_inv_def)
  then show ?thesis
    using n unfolding eq job_inv_def job_map_wf_def job_live_wf_def job_ids_wf_def job_bounds_def
      job_block_wf_def active_locked_def job_of_def
    by simp
qed

lemma cancel_job_inv: "job_inv entropy m \<Longrightarrow> job_inv entropy (fst (cancel_job jid reason m))"
  by (auto simp: cancel_job_def Let_def cancel_change_def job_of_def
      intro!: heap_cancel_inv split: option.split)

subsubsection \<open>Submitting and finishing\<close>

lemma insert_job_inv:
  assumes inv: "job_inv entropy m"
    and fresh: "jid \<notin> fst ` set (job_map m)" "jid \<noteq> []"
    and drawn: "\<exists>n < draws m. random_id entropy n = Some jid"
    and room: "\<not> jobs_blocked m" "int (active_locked m) < max_active m"
      "int (length (job_map m)) < max_results m"
    and j: "sn_job_id (snap j) = jid" "status (snap j) = Running" "completed_at (snap j) = 0"
  shows "job_inv entropy (m\<lparr>job_heap := (job_heap m)(next_job m := j), next_job := Suc (next_job m),
    job_map := mput jid (next_job m) (job_map m),
    goroutines := goroutines m @ [(next_job m, command, fmt)]\<rparr>)"
    (is "job_inv entropy ?m")
proof -
  have wf: "job_map_wf m" "job_live_wf m" "job_ids_wf entropy m" "job_bounds m"
    using inv by (simp_all add: job_inv_def)
  have jm: "mput jid (next_job m) (job_map m) = job_map m @ [(jid, next_job m)]"
    using fresh(1) by (intro mput_absent) (simp add: mget_eq_None)
  have old: "job_of ?m r = job_of m r" if "r < next_job m" for r
    using that by (simp add: job_of_def)
  have new: "job_of ?m (next_job m) = snap j"
    by (simp add: job_of_def)
  have below: "snd e < next_job m" if "e \<in> set (job_map m)" for e
    using that wf(1) by (auto simp: job_map_wf_def)
  have live: "live_refs ?m = insert (next_job m) (live_refs m)" "next_job m \<notin> live_refs m"
    using job_liveD(1) [OF wf(2)] by auto
  have "job_map_wf ?m"
    using wf(1) fresh below old new j
    by (auto simp: job_map_wf_def jm mok_def intro: less_SucI)
  moreover have "job_live_wf ?m"
    unfolding job_live_wf_def
  proof (intro conjI ballI allI impI)
    show "mok (goroutines ?m)"
      using wf(2) live(2) by (auto simp: job_live_wf_def mok_def)
    fix r
    assume "r \<in> live_refs ?m"
    then consider "r = next_job m" | "r \<in> live_refs m"
      using live by blast
    then have "r < next_job ?m \<and> (sn_job_id (job_of ?m r), r) \<in> set (job_map ?m)"
    proof cases
      case 1
      then show ?thesis
        using new j jm by simp
    next
      case 2
      then show ?thesis
        using job_liveD(1,2) [OF wf(2) 2] old [of r] jm by simp
    qed
    then show "r < next_job ?m" "(sn_job_id (job_of ?m r), r) \<in> set (job_map ?m)"
      by blast+
  next
    fix r
    assume "r < next_job ?m"
    then consider "r = next_job m" | "r < next_job m"
      by (cases "r = next_job m") auto
    then have "(is_active (job_of ?m r) \<longleftrightarrow> r \<in> live_refs ?m) \<and>
        (completed_at (job_of ?m r) = 0 \<longleftrightarrow> r \<in> live_refs ?m)"
    proof cases
      case 1
      then show ?thesis
        using new j live by (simp add: is_active_def)
    next
      case 2
      then have "r \<in> live_refs ?m \<longleftrightarrow> r \<in> live_refs m"
        using live by simp
      then show ?thesis
        using wf(2) 2 old [OF 2] unfolding job_live_wf_def by simp
    qed
    then show "is_active (job_of ?m r) \<longleftrightarrow> r \<in> live_refs ?m"
      "completed_at (job_of ?m r) = 0 \<longleftrightarrow> r \<in> live_refs ?m"
      by blast+
  qed
  moreover have "job_ids_wf entropy ?m"
    using wf(3) drawn by (auto simp: job_ids_wf_def jm)
  moreover have "active_locked ?m = Suc (active_locked m)"
  proof -
    have "filter (\<lambda>e. is_active (job_of ?m (snd e))) (job_map m) =
        filter (\<lambda>e. is_active (job_of m (snd e))) (job_map m)"
      using old below by (intro filter_cong) auto
    then show ?thesis
      using new j by (simp add: active_locked_def jm is_active_def)
  qed
  then have "job_bounds ?m"
    using wf(4) room by (simp add: job_bounds_def jm)
  moreover have "job_block_wf ?m"
    using room by (simp add: job_block_wf_def)
  ultimately show ?thesis
    by (simp add: job_inv_def)
qed

lemma draws_inv:
  assumes "job_inv entropy m"
  shows "job_inv entropy (m\<lparr>draws := Suc (draws m)\<rparr>)"
proof -
  have "job_ids_wf entropy (m\<lparr>draws := Suc (draws m)\<rparr>)"
    using assms unfolding job_inv_def job_ids_wf_def by (simp add: less_Suc_eq) blast
  then show ?thesis
    using assms by (simp add: job_inv_def job_map_wf_def job_live_wf_def job_bounds_def
        job_block_wf_def active_locked_def job_of_def)
qed

text \<open>The state in which \<open>Submit\<close> decides, and the one it inserts into.\<close>

lemma submit_room:
  assumes "job_inv entropy m" and "int (active_locked m) < max_active m"
  shows "job_inv entropy (prune_capacity m)"
    and "int (length (job_map (prune_capacity m))) < max_results m"
    and "active_locked (prune_capacity m) = active_locked m"
    and "fst ` set (job_map (prune_capacity m)) \<subseteq> fst ` set (job_map m)"
proof -
  obtain P where P: "prune_capacity m = m\<lparr>job_map := filter P (job_map m)\<rparr>" "keeps_active m P"
    and room: "int (length (job_map (prune_capacity m))) < max_results m \<or>
      length (job_map (prune_capacity m)) = active_locked m"
    using prune_capacity_filter [OF assms(1)] .
  show "job_inv entropy (prune_capacity m)"
    unfolding P(1) by (rule filter_inv [OF assms(1) P(2)])
  show "int (length (job_map (prune_capacity m))) < max_results m"
    using room assms by (auto simp: job_inv_def job_bounds_def)
  show "active_locked (prune_capacity m) = active_locked m"
    using assms(1) P(2) by (simp add: P(1) job_inv_def active_locked_filter)
  show "fst ` set (job_map (prune_capacity m)) \<subseteq> fst ` set (job_map m)"
    by (auto simp: P(1))
qed

lemma prune_capacity_frame [simp]:
  "draws (prune_capacity m) = draws m" "jobs_blocked (prune_capacity m) = jobs_blocked m"
  "max_active (prune_capacity m) = max_active m" "max_results (prune_capacity m) = max_results m"
  "next_job (prune_capacity m) = next_job m" "job_heap (prune_capacity m) = job_heap m"
  "goroutines (prune_capacity m) = goroutines m"
  by (simp_all add: prune_capacity_def)

lemma prune_expired_frame [simp]:
  "draws (prune_expired now m) = draws m" "jobs_blocked (prune_expired now m) = jobs_blocked m"
  "max_active (prune_expired now m) = max_active m" "max_results (prune_expired now m) = max_results m"
  "next_job (prune_expired now m) = next_job m" "job_heap (prune_expired now m) = job_heap m"
  "goroutines (prune_expired now m) = goroutines m"
  "set (job_map (prune_expired now m)) \<subseteq> set (job_map m)"
  by (auto simp: prune_expired_def)

lemma submit_inv:
  assumes inv: "job_inv entropy m" and ent: "good_entropy entropy"
  shows "job_inv entropy (fst (submit entropy command fmt timeout cb now m))"
proof (cases "random_id entropy (draws m)")
  case None
  then show ?thesis
    using draws_inv [OF inv] by (simp add: submit_def)
next
  case (Some jid)
  let ?m1 = "prune_expired now (m\<lparr>draws := Suc (draws m)\<rparr>)"
  let ?m2 = "prune_capacity ?m1"
  have m1: "job_inv entropy ?m1"
    by (intro prune_expired_inv draws_inv inv)
  show ?thesis
  proof (cases "jobs_blocked m \<or> max_active ?m1 \<le> int (active_locked ?m1)")
    case True
    then show ?thesis
      using m1 by (auto simp: submit_def Some Let_def)
  next
    case False
    then have free: "int (active_locked ?m1) < max_active ?m1" "\<not> jobs_blocked ?m2"
      by simp_all
    note room = submit_room [OF m1 free(1)]
    have "jid \<notin> fst ` set (job_map m)"
      using inv random_id_inject [OF ent Some] by (fastforce simp: job_inv_def job_ids_wf_def)
    moreover have "fst ` set (job_map ?m2) \<subseteq> fst ` set (job_map m)"
      using room(4) prune_expired_frame(8) [of now "m\<lparr>draws := Suc (draws m)\<rparr>"] by auto
    ultimately have fresh: "jid \<notin> fst ` set (job_map ?m2)"
      by blast
    have "jid \<noteq> []" "\<exists>n < draws ?m2. random_id entropy n = Some jid"
      using random_id_length [OF ent Some] Some by auto
    note insert_job_inv [OF room(1) fresh this free(2), of
        "\<lparr>snap = empty_snapshot\<lparr>sn_job_id := jid, status := Running, created_at := now,
            started_at := now, sn_timeout := timeout\<rparr>, ctx_cancelled = False, on_done = cb\<rparr>"
        command fmt]
    then show ?thesis
      using False room(2,3) by (simp add: submit_def Some Let_def empty_snapshot_def)
  qed
qed

text \<open>The end of a goroutine settles its own job and no other.\<close>

lemma finished_snapshot_simps [simp]:
  "sn_job_id (finished_snapshot out now s) = sn_job_id s"
  "completed_at (finished_snapshot out now s) = now"
  "\<not> is_active (finished_snapshot out now s)"
  "status (finished_snapshot out now s) \<noteq> Running"
  by (auto simp: finished_snapshot_def is_active_def split: prod.split option.split)

lemma finish_inv:
  assumes inv: "job_inv entropy m" and now: "now \<noteq> 0"
  shows "job_inv entropy (finish_run r out now m)"
proof (cases "r \<in> live_refs m")
  case False
  then show ?thesis
    using inv by (simp add: finish_run_def)
next
  case True
  let ?m = "finish_run r out now m"
  have wf: "job_map_wf m" "job_live_wf m" "job_ids_wf entropy m" "job_bounds m" "job_block_wf m"
    using inv by (simp_all add: job_inv_def)
  have of: "job_of ?m k = (if k = r then finished_snapshot out now (job_of m r) else job_of m k)" for k
    using True by (simp add: finish_run_def job_of_def Let_def)
  have frame: "job_map ?m = job_map m" "next_job ?m = next_job m" "draws ?m = draws m"
      "goroutines ?m = mdel r (goroutines m)" "jobs_blocked ?m = jobs_blocked m"
      "max_active ?m = max_active m" "max_results ?m = max_results m"
    using True by (simp_all add: finish_run_def Let_def)
  have live: "live_refs ?m = live_refs m - {r}"
    by (simp add: frame keys_mdel)
  have "job_map_wf ?m"
    using wf(1) by (auto simp: job_map_wf_def frame of)
  moreover have "job_live_wf ?m"
    using wf(2) now by (auto simp: job_live_wf_def frame(1-3) live of)
      (simp_all add: frame(4) go_map_simps)
  moreover have "job_ids_wf entropy ?m"
    using wf(3) by (simp add: job_ids_wf_def frame)
  moreover have "active_locked ?m \<le> active_locked m"
    unfolding active_locked_def frame(1)
    by (rule filter_fewer) (simp add: of split: if_splits)
  then have "job_bounds ?m"
    using wf(4) by (simp add: job_bounds_def frame)
  moreover have "job_block_wf ?m"
    using wf(5) by (auto simp: job_block_wf_def frame of)
  ultimately show ?thesis
    by (simp add: job_inv_def)
qed

lemma get_job_inv: "job_inv entropy m \<Longrightarrow> job_inv entropy (fst (get_job jid now m))"
  by (simp add: get_job_def Let_def prune_expired_inv split: option.split)

lemma call_done_simps [simp]:
  "job_map (call_done r m) = job_map m" "job_heap (call_done r m) = job_heap m"
  "next_job (call_done r m) = next_job m" "goroutines (call_done r m) = goroutines m"
  "max_active (call_done r m) = max_active m" "max_results (call_done r m) = max_results m"
  "retention (call_done r m) = retention m" "jobs_blocked (call_done r m) = jobs_blocked m"
  "draws (call_done r m) = draws m" "job_of (call_done r m) = job_of m"
  by (simp_all add: call_done_def job_of_def fun_eq_iff split: option.split)

lemma call_done_inv: "job_inv entropy (call_done r m) \<longleftrightarrow> job_inv entropy m"
  by (simp add: job_inv_def job_map_wf_def job_live_wf_def job_ids_wf_def job_bounds_def
      job_block_wf_def active_locked_def)

interpretation jb: guarded_ops "job_step entropy" "\<lambda>m. good_entropy entropy \<and> job_inv entropy m" job_op_ok
  for entropy
proof
  fix m x
  assume inv: "good_entropy entropy \<and> job_inv entropy m" and ok: "job_op_ok x"
  then have "job_inv entropy (job_step entropy m x)"
    by (cases x) (simp_all add: job_step_def close_manager_def submit_inv finish_inv get_job_inv
        cancel_job_inv cancel_all_inv block_inv_weak call_done_inv)
  with inv show "good_entropy entropy \<and> job_inv entropy (job_step entropy m x)"
    by blast
qed

subsection \<open>What one operation can do to a job\<close>

text \<open>The limits are fixed, and references are never reused.\<close>

lemma job_step_limits [simp]:
  "max_active (job_step entropy m x) = max_active m"
  "max_results (job_step entropy m x) = max_results m"
  "retention (job_step entropy m x) = retention m"
  by (auto simp: job_step_def submit_def finish_run_def get_job_def cancel_job_def cancel_all_def
      block_and_cancel_all_def close_manager_def prune_expired_def prune_capacity_def Let_def
      split: job_op.split option.split prod.split)

lemma cancel_job_heap:
  "job_of (fst (cancel_job jid reason m)) r =
     (if mget (job_map m) jid = Some r \<and> status (job_of m r) = Running
      then (job_of m r)\<lparr>status := Cancelling, cancel_reason := reason\<rparr> else job_of m r)"
  by (auto simp: cancel_job_def job_of_def Let_def split: option.split)

lemma submit_heap:
  "r < next_job m \<Longrightarrow> job_heap (fst (submit entropy command fmt timeout cb now m)) r = job_heap m r"
  by (auto simp: submit_def Let_def split: option.split)

lemma on_done_cancel_contexts [simp]: "on_done (cancel_contexts rs h r) = on_done (h r)"
  by (simp add: cancel_contexts_def)

lemma on_done_cancel_all [simp]: "on_done (job_heap (fst (cancel_all reason m)) r) = on_done (job_heap m r)"
  using cancel_running_heap [of reason "job_map m" "job_heap m" r]
  by (simp add: cancel_all_def split_beta cancelling_job_def)

lemma unreported_cancel_all [simp]: "unreported (fst (cancel_all reason m)) = unreported m"
  by (simp add: cancel_all_def split_beta)

lemma block_and_cancel_all_eq:
  "fst (block_and_cancel_all reason m) = (fst (cancel_all reason m))\<lparr>jobs_blocked := True\<rparr>"
  "snd (block_and_cancel_all reason m) = snd (cancel_all reason m)"
  by (simp_all add: block_and_cancel_all_def cancel_all_def split: prod.split)

text \<open>
  The changes of a job: it stays, it is cancelled, or its goroutine ends it with a result.
\<close>

definition job_moves :: "job_op \<Rightarrow> snapshot \<Rightarrow> snapshot \<Rightarrow> bool" where
  "job_moves x s s' \<longleftrightarrow>
     s' = s \<or>
     status s = Running \<and> (\<exists>reason. s' = s\<lparr>status := Cancelling, cancel_reason := reason\<rparr>) \<or>
     is_active s \<and> (\<exists>r out now. x = Finish_Job r out now \<and> s' = finished_snapshot out now s)"

lemma job_step_moves:
  assumes "job_live_wf m" and "r < next_job m"
  shows "job_moves x (job_of m r) (job_of (job_step entropy m x) r)"
proof (cases x)
  case (Finish_Job k out now)
  then show ?thesis
    using job_liveD(4) [OF assms(1)]
    by (auto simp: job_moves_def job_step_def finish_run_def job_of_def Let_def)
next
  case (Submit_Job command fmt timeout cb now)
  then show ?thesis
    using assms(2) by (simp add: job_moves_def job_step_def job_of_def submit_heap)
next
  case (Get_Job jid now)
  then show ?thesis
    by (simp add: job_moves_def job_step_def get_job_def job_of_def Let_def split: option.split)
next
  case (Block_And_Cancel_All reason)
  have "job_of (h\<lparr>jobs_blocked := True\<rparr>) r = job_of h r" for h
    by (simp add: job_of_def)
  then show ?thesis
    using Block_And_Cancel_All
    by (auto simp: job_moves_def job_step_def block_and_cancel_all_eq job_of_cancel_all)
next
  case Close_Manager
  have "job_of (h\<lparr>jobs_blocked := True\<rparr>) r = job_of h r" for h
    by (simp add: job_of_def)
  then show ?thesis
    using Close_Manager
    by (auto simp: job_moves_def job_step_def close_manager_def block_and_cancel_all_eq
        job_of_cancel_all)
qed (auto simp: job_moves_def job_step_def cancel_job_heap job_of_cancel_all)

lemma job_step_next: "next_job m \<le> next_job (job_step entropy m x)"
  by (auto simp: job_step_def submit_def finish_run_def get_job_def cancel_job_def
      block_and_cancel_all_eq close_manager_def Let_def
      split: job_op.split option.split)

text \<open>The manager after a sequence of operations.\<close>

abbreviation jobs_after :: "entropy \<Rightarrow> int \<Rightarrow> int \<Rightarrow> duration \<Rightarrow> job_op list \<Rightarrow> manager" where
  "jobs_after entropy ma mr ret ops \<equiv> run_ops (job_step entropy) (new_manager ma mr ret) ops"

lemma jobs_after_inv:
  assumes "good_entropy entropy" "0 \<le> ma" "ma \<le> mr" "list_all job_op_ok ops"
  shows "job_inv entropy (jobs_after entropy ma mr ret ops)"
  using jb.guarded_run [OF _ assms(4)] new_manager_inv [OF assms(2,3)] assms(1) by blast

lemma jobs_after_limits:
  "max_active (run_ops (job_step entropy) m ops) = max_active m"
  "max_results (run_ops (job_step entropy) m ops) = max_results m"
  "retention (run_ops (job_step entropy) m ops) = retention m"
  by (induction ops arbitrary: m) simp_all

text \<open>A concrete source of identifiers, for the witnesses: the n-th draw starts with n.\<close>

definition counting_entropy :: entropy where
  "counting_entropy n = (if n < 256 then Some (char_of n # replicate 15 (CHR 0x00)) else None)"

lemma counting_entropy_good: "good_entropy counting_entropy"
proof -
  have "n = k" if "n < 256" "k < 256" "char_of n = (char_of k :: char)" for n k :: nat
  proof -
    have "of_char (char_of n :: char) = (of_char (char_of k :: char) :: nat)"
      using that(3) by simp
    then show ?thesis
      using that(1,2) by simp
  qed
  then show ?thesis
    by (auto simp: good_entropy_def counting_entropy_def split: if_splits)
qed

text \<open>
  the limits of the manager hold after every sequence of operations: at most
  \<open>maxActive\<close> jobs run or are being cancelled, and at most \<open>maxResults\<close> jobs are kept.
\<close>

theorem job_limits_hold:
  assumes "good_entropy entropy" and "0 \<le> ma" and "ma \<le> mr" and "list_all job_op_ok ops"
  shows "int (active_count (jobs_after entropy ma mr ret ops)) \<le> ma \<and>
         int (length (job_map (jobs_after entropy ma mr ret ops))) \<le> mr"
  using jobs_after_inv [OF assms] by (simp add: job_inv_def job_bounds_def active_count_def
      jobs_after_limits new_manager_def)

theorem job_limits_hold_witness:
  "int (active_count (jobs_after counting_entropy 1 2 5
      [Submit_Job ''a'' format_lines 9 True 1, Submit_Job ''b'' format_lines 9 True 2])) \<le> 1"
  using job_limits_hold [OF counting_entropy_good, of 1 2
      "[Submit_Job ''a'' format_lines 9 True 1, Submit_Job ''b'' format_lines 9 True 2]" 5]
  by simp

text \<open>
  a job whose goroutine has not ended is never lost: after every sequence of operations
  \<open>Get\<close> finds it under its identifier, with its status, whatever was pruned.
\<close>

theorem active_job_is_found:
  assumes "good_entropy entropy" and "0 \<le> ma" and "ma \<le> mr" and "list_all job_op_ok ops"
    and "m = jobs_after entropy ma mr ret ops" and "r \<in> live_refs m"
  shows "snd (get_job (sn_job_id (job_of m r)) now m) = (job_of m r, None) \<and> is_active (job_of m r)"
proof -
  have inv: "job_inv entropy m"
    using jobs_after_inv [OF assms(1-4)] assms(5) by simp
  then have live: "job_live_wf m" and ok: "mok (job_map m)"
    by (simp_all add: job_inv_def job_map_wf_def)
  have "(sn_job_id (job_of m r), r) \<in> set (job_map (prune_expired now m))"
    using job_liveD [OF live assms(6)] by (simp add: prune_expired_def job_expired_def)
  then have "mget (job_map (prune_expired now m)) (sn_job_id (job_of m r)) = Some r"
    using ok by (subst mget_eq_Some) (simp_all add: prune_expired_def mok_filter)
  then show ?thesis
    using job_liveD(4) [OF live assms(6)] by (simp add: get_job_def Let_def job_of_def)
qed

definition one_job :: "job_op list" where
  "one_job = [Submit_Job ''a'' format_lines 9 True 1]"

lemma one_job_ok [simp]: "list_all job_op_ok one_job"
  by (simp add: one_job_def)

definition zero_id :: string where
  "zero_id = hex_encode (char_of (0::nat) # replicate 15 (CHR 0x00))"

lemma random_zero_id: "random_id counting_entropy 0 = Some zero_id"
  by (simp add: random_id_def counting_entropy_def zero_id_def)

lemma one_job_manager:
  "job_map (jobs_after counting_entropy 1 2 5 one_job) = [(zero_id, 0)]"
  "goroutines (jobs_after counting_entropy 1 2 5 one_job) = [(0, ''a'', format_lines)]"
  "status (job_of (jobs_after counting_entropy 1 2 5 one_job) 0) = Running"
  "next_job (jobs_after counting_entropy 1 2 5 one_job) = 1"
  "sn_job_id (job_of (jobs_after counting_entropy 1 2 5 one_job) 0) = zero_id"
  "on_done (job_heap (jobs_after counting_entropy 1 2 5 one_job) 0)"
  "unreported (jobs_after counting_entropy 1 2 5 one_job) = []"
  by (simp_all add: one_job_def job_step_def submit_def new_manager_def random_zero_id
      prune_expired_def prune_capacity_def prune_capacity_map.simps
      active_locked_def job_of_def Let_def)

theorem active_job_is_found_witness:
  "fst (snd (get_job zero_id 99
      (jobs_after counting_entropy 1 2 5 one_job))) =
   job_of (jobs_after counting_entropy 1 2 5 one_job) 0"
  using active_job_is_found [OF counting_entropy_good _ _ _ refl, of 1 2 one_job 0 5 99]
  by (simp add: one_job_manager)

lemma no_active_move:
  "\<not> is_active s \<Longrightarrow> job_moves x s s' \<longleftrightarrow> s' = s"
  by (auto simp: job_moves_def is_active_def)

text \<open>
  a job that has ended never changes again: its status, result, completion time and reason
  are final under every later sequence of operations.
\<close>

theorem ended_job_is_final:
  assumes "good_entropy entropy" and "0 \<le> ma" and "ma \<le> mr"
    and "list_all job_op_ok ops" and "list_all job_op_ok later"
    and "m = jobs_after entropy ma mr ret ops"
    and "r < next_job m" and "\<not> is_active (job_of m r)"
  shows "job_of (run_ops (job_step entropy) m later) r = job_of m r"
proof -
  let ?Q = "\<lambda>n. r < next_job n \<and> job_of n r = job_of m r"
  have inv: "good_entropy entropy \<and> job_inv entropy m"
    using jobs_after_inv [OF assms(1-4)] assms(1,6) by simp
  have "?Q (run_ops (job_step entropy) m later)"
  proof (rule jb.guarded_stable [OF inv _ _ assms(5)])
    show "?Q m"
      using assms(7) by simp
    fix s x
    assume s: "good_entropy entropy \<and> job_inv entropy s" "?Q s"
    then have "job_moves x (job_of s r) (job_of (job_step entropy s x) r)"
      by (intro job_step_moves) (simp_all add: job_inv_def)
    then show "?Q (job_step entropy s x)"
      using s assms(8) job_step_next [of s entropy x] by (simp add: no_active_move)
  qed
  then show ?thesis ..
qed

definition one_job_done :: "job_op list" where
  "one_job_done = one_job @ [Finish_Job 0 (empty_result, None) 3]"

lemma one_job_done_ok [simp]: "list_all job_op_ok one_job_done"
  by (simp add: one_job_done_def)

lemma one_job_done_manager:
  "status (job_of (jobs_after counting_entropy 1 2 5 one_job_done) 0) = Completed"
  "next_job (jobs_after counting_entropy 1 2 5 one_job_done) = 1"
  using one_job_manager
  by (simp_all add: one_job_done_def run_ops_append job_step_def finish_run_def job_of_def Let_def
      finished_snapshot_def)

theorem ended_job_is_final_witness:
  "status (job_of (run_ops (job_step counting_entropy)
      (jobs_after counting_entropy 1 2 5 one_job_done) [Cancel_All ''x'']) 0) = Completed"
  using ended_job_is_final [OF counting_entropy_good _ _ _ _ refl, of 1 2 one_job_done
      "[Cancel_All ''x'']" 0 5]
  by (simp add: one_job_done_manager is_active_def)

text \<open>
  C22: the status of a job moves only along the arrows of its life cycle: from running to
  cancelling or to completed, failed or timed out; from cancelling only to cancelled.
\<close>

theorem job_status_machine:
  assumes "good_entropy entropy" and "0 \<le> ma" and "ma \<le> mr" and "list_all job_op_ok ops"
    and "m = jobs_after entropy ma mr ret ops" and "r < next_job m"
    and "status (job_of (job_step entropy m x) r) \<noteq> status (job_of m r)"
  shows "(status (job_of m r), status (job_of (job_step entropy m x) r)) \<in>
    {(Running, Cancelling), (Running, Completed), (Running, Failed), (Running, Job_Timed_Out),
     (Cancelling, Cancelled)}"
proof -
  have "job_live_wf m"
    using jobs_after_inv [OF assms(1-4)] assms(5) by (simp add: job_inv_def)
  from job_step_moves [OF this assms(6), of x entropy] assms(7) show ?thesis
    by (auto simp: job_moves_def finished_snapshot_def is_active_def
        split: prod.splits option.splits if_splits)
qed

theorem job_status_machine_witness:
  "(status (job_of (jobs_after counting_entropy 1 2 5 one_job) 0),
    status (job_of (job_step counting_entropy (jobs_after counting_entropy 1 2 5 one_job)
      (Cancel_Job zero_id ''x'')) 0)) \<noteq> (Running, Running)"
proof -
  have "status (job_of (job_step counting_entropy (jobs_after counting_entropy 1 2 5 one_job)
      (Cancel_Job zero_id ''x'')) 0) = Cancelling"
    by (simp add: job_step_def cancel_job_heap one_job_manager mget_Cons)
  then show ?thesis
    using job_status_machine [OF counting_entropy_good _ _ _ refl, of 1 2 one_job 0 5
        "Cancel_Job zero_id ''x''"]
    by (simp add: one_job_manager)
qed

subsection \<open>The kill switch of the job manager\<close>

lemma job_step_blocked:
  "jobs_blocked m \<Longrightarrow> jobs_blocked (job_step entropy m x)"
  by (auto simp: job_step_def submit_def finish_run_def get_job_def cancel_job_def
      block_and_cancel_all_eq close_manager_def Let_def
      split: job_op.split option.split)

text \<open>
  after \<open>BlockAndCancelAll\<close> no job is running, now or after any later operations, and
  every later \<open>Submit\<close> is refused without starting anything.
\<close>

theorem blocked_manager_stays_quiet:
  assumes "good_entropy entropy" and "0 \<le> ma" and "ma \<le> mr"
    and "list_all job_op_ok ops" and "list_all job_op_ok later"
    and "m = run_ops (job_step entropy)
        (fst (block_and_cancel_all reason (jobs_after entropy ma mr ret ops))) later"
  shows "(\<forall>r < next_job m. status (job_of m r) \<noteq> Running) \<and>
    snd (snd (submit entropy command fmt timeout cb now m)) \<in> {Some Job_Blocked, Some Job_No_Id} \<and>
    goroutines (fst (submit entropy command fmt timeout cb now m)) = goroutines m"
proof -
  let ?b = "fst (block_and_cancel_all reason (jobs_after entropy ma mr ret ops))"
  have b: "good_entropy entropy \<and> job_inv entropy ?b"
    using jobs_after_inv [OF assms(1-4)] assms(1) block_inv_weak by blast
  have "jobs_blocked ?b"
    by (simp add: block_and_cancel_all_eq)
  then have "jobs_blocked m"
    unfolding assms(6) by (rule jb.guarded_stable [OF b _ _ assms(5)]) (simp add: job_step_blocked)
  moreover have "job_block_wf m"
    using jb.guarded_run [OF b assms(5)] assms(6) by (simp add: job_inv_def)
  ultimately show ?thesis
    by (auto simp: job_block_wf_def submit_def Let_def split: option.split)
qed

theorem blocked_manager_stays_quiet_witness:
  "snd (snd (submit counting_entropy ''b'' format_lines 9 True 7
     (fst (block_and_cancel_all ''kill'' (jobs_after counting_entropy 1 2 5 one_job))))) \<noteq> None"
  using blocked_manager_stays_quiet [OF counting_entropy_good, of 1 2 one_job "[]" _ "''kill''" 5
      "''b''" format_lines 9 True 7]
  by auto

text \<open>
  \<open>CancelAll\<close> reports exactly how many jobs it moved from running to cancelling, and
  leaves no running job and every other job as it was.
\<close>

theorem cancel_all_is_complete:
  assumes "good_entropy entropy" and "0 \<le> ma" and "ma \<le> mr" and "list_all job_op_ok ops"
    and "m = jobs_after entropy ma mr ret ops"
  shows "snd (cancel_all reason m) = card {r. r < next_job m \<and> status (job_of m r) = Running} \<and>
    (\<forall>r < next_job m. job_of (fst (cancel_all reason m)) r =
       (if status (job_of m r) = Running
        then (job_of m r)\<lparr>status := Cancelling, cancel_reason := reason\<rparr> else job_of m r))"
proof -
  have wf: "job_map_wf m" "job_live_wf m"
    using jobs_after_inv [OF assms(1-4)] assms(5) by (simp_all add: job_inv_def)
  have in_map: "r \<in> snd ` set (job_map m)" if "r < next_job m" "status (job_of m r) = Running" for r
  proof -
    have "r \<in> live_refs m"
      using wf(2) that by (auto simp: job_live_wf_def is_active_def)
    from job_liveD(2) [OF wf(2) this] show ?thesis
      by (metis image_eqI snd_conv)
  qed
  have "map (\<lambda>r. sn_job_id (job_of m r)) (map snd (job_map m)) = map fst (job_map m)"
    using wf(1) by (simp add: job_map_wf_def)
  then have dist: "distinct (map snd (job_map m))"
    using wf(1) unfolding job_map_wf_def mok_def by (metis distinct_map)
  have "snd (cancel_all reason m) =
      length (filter (\<lambda>e. status (job_of m (snd e)) = Running) (job_map m))"
    using cancel_running_count [OF dist, of reason "job_heap m"]
    by (simp add: cancel_all_def split_beta job_of_def)
  also have "\<dots> = length (filter (\<lambda>r. status (job_of m r) = Running) (map snd (job_map m)))"
    by (simp add: filter_map comp_def)
  also have "\<dots> = card {r \<in> snd ` set (job_map m). status (job_of m r) = Running}"
    using distinct_length_filter [OF dist, of "\<lambda>r. status (job_of m r) = Running"]
    by (simp add: Int_def conj_commute)
  also have "{r \<in> snd ` set (job_map m). status (job_of m r) = Running} =
      {r. r < next_job m \<and> status (job_of m r) = Running}"
    using in_map wf(1) by (auto simp: job_map_wf_def)
  finally show ?thesis
    using in_map by (auto simp: job_of_cancel_all)
qed

theorem cancel_all_is_complete_witness:
  "snd (cancel_all ''x'' (jobs_after counting_entropy 1 2 5 one_job)) = 1"
proof -
  have "{r. r < next_job (jobs_after counting_entropy 1 2 5 one_job) \<and>
      status (job_of (jobs_after counting_entropy 1 2 5 one_job) r) = Running} = {0}"
    by (auto simp: one_job_manager)
  then show ?thesis
    using cancel_all_is_complete [OF counting_entropy_good _ _ _ refl, of 1 2 one_job "''x''" 5]
    by simp
qed

subsection \<open>The interface to the runner\<close>

text \<open>
  What the manager relies on of its \<open>Runner\<close>: a result carries the timeout flag exactly
  when the error is the timeout error.
\<close>

locale job_runner =
  fixes returns :: "outcome \<Rightarrow> bool"
  assumes timeout_flag: "returns (res, err) \<Longrightarrow> timed_out res \<longleftrightarrow> err = Some Timed_Out"
begin

lemma finished_flag:
  assumes "returns out" and "is_active s"
  shows "\<exists>e. execution (finished_snapshot out now s) = Some e \<and>
    (timed_out e \<longleftrightarrow> status (finished_snapshot out now s) = Job_Timed_Out)"
  using assms timeout_flag [of "fst out" "snd out"]
  by (cases out) (auto simp: finished_snapshot_def split: option.split)

lemma finished_error:
  assumes "returns out" and "status s = Running"
  shows "(status (finished_snapshot out now s) = Completed \<longleftrightarrow> snd out = None) \<and>
    (status (finished_snapshot out now s) = Failed \<longleftrightarrow>
       snd out \<noteq> None \<and> snd out \<noteq> Some Timed_Out)"
  using assms by (cases out) (auto simp: finished_snapshot_def split: option.split)

end

lemma runner_timeout_flag:
  assumes "(run_step js fmt)\<^sup>*\<^sup>* new_runner s" and "runs s r = Returned (res, err)"
  shows "timed_out res \<longleftrightarrow> err = Some Timed_Out"
proof -
  have "outcomes_wf js fmt s"
    using runner_reachable [OF assms(1)] by (simp add: runner_inv_def)
  then have "run_outcome js (fmt r) (res, err)"
    using assms(2) unfolding outcomes_wf_def by (metis outcome_of.simps(4))
  then show ?thesis
    by (auto simp: run_outcome_def)
qed

definition runner_returns :: "json_lib \<Rightarrow> (nat \<Rightarrow> string) \<Rightarrow> outcome \<Rightarrow> bool" where
  "runner_returns js fmt out \<longleftrightarrow>
     (\<exists>s r. (run_step js fmt)\<^sup>*\<^sup>* new_runner s \<and> runs s r = Returned out)"

interpretation jr: job_runner "runner_returns js fmt" for js fmt
  by unfold_locales (auto simp: runner_returns_def dest: runner_timeout_flag)

text \<open>
  when the goroutine of a job ends with what a run of \<open>Runner\<close> returned, the job keeps
  that result under a status that tells what happened: cancelled if it was being cancelled,
  otherwise completed without an error, timed out with the timeout error, failed with any
  other; and the kept result carries the timeout flag exactly in the status timed out.
\<close>

theorem finished_job_is_classified:
  assumes "runner_returns js fmt (res, err)" and "r \<in> live_refs m" and "is_active (job_of m r)"
    and "s = job_of (finish_run r (res, err) now m) r"
  shows "status s =
      (if status (job_of m r) = Cancelling then Cancelled
       else case err of None \<Rightarrow> Completed | Some Timed_Out \<Rightarrow> Job_Timed_Out | Some _ \<Rightarrow> Failed) \<and>
    completed_at s = now \<and>
    (\<exists>e. execution s = Some e \<and> exec_output e = exec_output res \<and> exit_code e = exit_code res \<and>
       (timed_out e \<longleftrightarrow> status s = Job_Timed_Out))"
proof -
  have s: "s = finished_snapshot (res, err) now (job_of m r)"
    using assms(2,4) by (simp add: finish_run_def job_of_def Let_def)
  have "\<exists>e. execution s = Some e \<and> exec_output e = exec_output res \<and> exit_code e = exit_code res"
    unfolding s by (auto simp: finished_snapshot_def split: option.split)
  moreover have "status s =
      (if status (job_of m r) = Cancelling then Cancelled
       else case err of None \<Rightarrow> Completed | Some Timed_Out \<Rightarrow> Job_Timed_Out | Some _ \<Rightarrow> Failed)"
    unfolding s by (auto simp: finished_snapshot_def split: option.split run_error.split)
  ultimately show ?thesis
    using jr.finished_flag [OF assms(1,3), of now] s by auto
qed

theorem finished_job_is_classified_witness:
  "status (job_of (finish_run 0 (timeout_result format_lines 0 False, Some Timed_Out) 3
      (jobs_after counting_entropy 1 2 5 one_job)) 0) = Job_Timed_Out"
proof -
  let ?js = "\<lparr>json_valid = (\<lambda>_. True), json_strings = concat\<rparr>"
  let ?fmt = "\<lambda>_::nat. format_lines"
  have "runs new_runner 0 = Not_Called"
    by (simp add: new_runner_def)
  from r_into_rtranclp [of "run_step ?js ?fmt", OF call_expired [OF this, of ?js ?fmt 0]]
  have ret: "runner_returns ?js ?fmt (timeout_result format_lines 0 False, Some Timed_Out)"
    unfolding runner_returns_def by (fastforce intro: exI [of _ 0])
  show ?thesis
    using finished_job_is_classified [OF ret _ _ refl, of 0 "jobs_after counting_entropy 1 2 5 one_job" 3]
    by (simp add: one_job_manager is_active_def)
qed

subsection \<open>Eviction and retention\<close>

lemma prune_capacity_map_oldest:
  assumes "mok jm" and "\<forall>e \<in> set jm. fst e \<noteq> []"
  shows "(a, r) \<in> set jm \<Longrightarrow> (a, r) \<notin> set (prune_capacity_map h limit jm) \<Longrightarrow>
    completed_at (snap (h r)) \<noteq> 0 \<and>
    (\<forall>(b, k) \<in> set (prune_capacity_map h limit jm).
       completed_at (snap (h k)) = 0 \<or> completed_at (snap (h r)) \<le> completed_at (snap (h k)))"
  using assms
proof (induction h limit jm arbitrary: a r rule: prune_capacity_map.induct)
  case (1 h limit jm)
  obtain i c where ic: "oldest_job h jm ([], 0) = (i, c)"
    by fastforce
  show ?case
  proof (cases "limit \<le> int (length jm) \<and> i \<noteq> []")
    case False
    then have "prune_capacity_map h limit jm = jm"
      using ic by (subst prune_capacity_map.simps) auto
    then show ?thesis
      using 1(2,3) by simp
  next
    case True
    obtain k where k: "(i, k) \<in> set jm" "completed_at (snap (h k)) = c" "c \<noteq> 0"
      using oldest_job_found [OF 1(5) ic] True by auto
    have least: "completed_at (snap (h (snd e))) = 0 \<or> c \<le> completed_at (snap (h (snd e)))"
      if "e \<in> set jm" for e
      using oldest_job_least [OF 1(5) ic] that by blast
    have rec: "prune_capacity_map h limit jm = prune_capacity_map h limit (mdel i jm)"
      using True ic by (subst prune_capacity_map.simps) (simp add: Let_def)
    have del: "mok (mdel i jm)" "\<forall>e \<in> set (mdel i jm). fst e \<noteq> []"
      using 1(4,5) by (simp_all add: go_map_simps) (simp add: mdel_def)
    have sub: "set (prune_capacity_map h limit (mdel i jm)) \<subseteq> set jm"
      using prune_capacity_map_spec [OF del, of h limit] by (auto simp: mdel_def)
    show ?thesis
    proof (cases "a = i")
      case True
      then have "r = k"
        using 1(2,4) k(1) by (metis mget_eq_Some option.inject)
      then show ?thesis
        using k(2,3) least sub unfolding rec by force
    next
      case False
      then have "(a, r) \<in> set (mdel i jm)"
        using 1(2) by (simp add: mdel_def)
      moreover have "limit \<le> int (length jm)" "i = fst (oldest_job h jm ([], 0))" "i \<noteq> []"
        using True ic by simp_all
      ultimately show ?thesis
        using 1(1) [OF _ _ _ _ _ del] 1(3) unfolding rec by blast
    qed
  qed
qed

text \<open>
  when \<open>Submit\<close> makes room, it drops only jobs that have completed, none of them later
  than a completed job it keeps, and it drops none while there is room.
\<close>

theorem eviction_drops_the_oldest:
  assumes "good_entropy entropy" and "0 \<le> ma" and "ma \<le> mr" and "list_all job_op_ok ops"
    and "m = jobs_after entropy ma mr ret ops"
    and "(jid, r) \<in> set (job_map m)" and "(jid, r) \<notin> set (job_map (prune_capacity m))"
  shows "mr \<le> int (length (job_map m)) \<and> \<not> is_active (job_of m r) \<and>
    (\<forall>(k, q) \<in> set (job_map (prune_capacity m)).
       is_active (job_of m q) \<or> completed_at (job_of m r) \<le> completed_at (job_of m q))"
proof -
  have wf: "job_map_wf m" "job_live_wf m" "mok (job_map m)" "\<forall>e \<in> set (job_map m). fst e \<noteq> []"
    using jobs_after_inv [OF assms(1-4)] assms(5) by (auto simp: job_inv_def job_map_wf_def)
  note oldest = prune_capacity_map_oldest [OF wf(3,4) assms(6), of "job_heap m" "max_results m"]
  have sub: "set (job_map (prune_capacity m)) \<subseteq> set (job_map m)"
    using prune_capacity_map_spec [OF wf(3,4), of "job_heap m" "max_results m"]
    by (auto simp: prune_capacity_def)
  have "mr \<le> int (length (job_map m))"
  proof (rule ccontr)
    assume "\<not> ?thesis"
    then have "prune_capacity_map (job_heap m) (max_results m) (job_map m) = job_map m"
      using assms(5) by (subst prune_capacity_map.simps) (simp add: jobs_after_limits new_manager_def)
    then show False
      using assms(6,7) by (simp add: prune_capacity_def)
  qed
  moreover have "\<not> is_active (job_of m r)"
    using oldest assms(7) job_map_status [OF wf(1,2) assms(6)]
    by (simp add: prune_capacity_def job_of_def)
  moreover have "is_active (job_of m q) \<or> completed_at (job_of m r) \<le> completed_at (job_of m q)"
    if "(k, q) \<in> set (job_map (prune_capacity m))" for k q
    using that oldest assms(7) job_map_status [OF wf(1,2)] sub
    by (fastforce simp: prune_capacity_def job_of_def)
  ultimately show ?thesis
    by blast
qed

lemma one_job_done_full:
  "job_map (jobs_after counting_entropy 1 1 5 one_job_done) = [(zero_id, 0)]"
  "completed_at (snap (job_heap (jobs_after counting_entropy 1 1 5 one_job_done) 0)) = 3"
  "max_results (jobs_after counting_entropy 1 1 5 one_job_done) = 1"
  "retention (jobs_after counting_entropy 1 1 5 one_job_done) = 5"
  by (simp_all add: one_job_done_def one_job_def run_ops_append job_step_def submit_def
      new_manager_def random_zero_id prune_expired_def prune_capacity_def prune_capacity_map.simps
      active_locked_def Let_def finish_run_def)

lemma zero_id_not_empty [simp]: "zero_id \<noteq> []"
  by (simp add: zero_id_def)

lemma one_job_done_evicted:
  "job_map (prune_capacity (jobs_after counting_entropy 1 1 5 one_job_done)) = []"
  by (simp add: prune_capacity_def prune_capacity_map.simps one_job_done_full Let_def mdel_def)

theorem eviction_drops_the_oldest_witness:
  "\<not> is_active (job_of (jobs_after counting_entropy 1 1 5 one_job_done) 0)"
  using eviction_drops_the_oldest [OF counting_entropy_good _ _ _ refl, of 1 1 one_job_done
      zero_id 0 5]
  by (simp add: one_job_done_full one_job_done_evicted)

text \<open>
  \<open>Get\<close> answers with the snapshot of the job stored under the identifier, except that a
  job that completed at least the retention time ago is not found and is forgotten.
\<close>

theorem get_answers_until_retention:
  assumes "good_entropy entropy" and "0 \<le> ma" and "ma \<le> mr" and "list_all job_op_ok ops"
    and "m = jobs_after entropy ma mr ret ops"
  shows "snd (get_job jid now m) =
      (case mget (job_map m) jid of
         None \<Rightarrow> (empty_snapshot, Some Job_Not_Found)
       | Some r \<Rightarrow>
           if \<not> is_active (job_of m r) \<and> ret \<le> time_sub now (completed_at (job_of m r))
           then (empty_snapshot, Some Job_Not_Found)
           else (job_of m r, None)) \<and>
    (\<forall>e \<in> set (job_map (fst (get_job jid now m))). \<not> job_expired m now (snd e))"
proof -
  have wf: "job_map_wf m" "job_live_wf m" "mok (job_map m)"
    using jobs_after_inv [OF assms(1-4)] assms(5) by (auto simp: job_inv_def job_map_wf_def)
  have ret: "retention m = ret"
    by (simp add: assms(5) jobs_after_limits new_manager_def)
  have expired: "job_expired m now r \<longleftrightarrow>
      \<not> is_active (job_of m r) \<and> ret \<le> time_sub now (completed_at (job_of m r))"
    if "mget (job_map m) jid = Some r" for r
    using job_map_status [OF wf(1,2) mget_SomeD [OF that]] by (simp add: job_expired_def ret)
  have "snd (get_job jid now m) =
      (case mget (job_map m) jid of
         None \<Rightarrow> (empty_snapshot, Some Job_Not_Found)
       | Some r \<Rightarrow>
           if job_expired m now r then (empty_snapshot, Some Job_Not_Found)
           else (job_of m r, None))"
    using wf(3) by (auto simp: get_job_def Let_def prune_expired_def mget_filter job_of_def
        split: option.split)
  moreover have "\<forall>e \<in> set (job_map (fst (get_job jid now m))). \<not> job_expired m now (snd e)"
    by (auto simp: get_job_def Let_def prune_expired_def split: option.split)
  ultimately show ?thesis
    using expired by (auto split: option.split)
qed

theorem get_answers_until_retention_witness:
  "snd (snd (get_job zero_id 8 (jobs_after counting_entropy 1 1 5 one_job_done))) = Some Job_Not_Found"
proof -
  have "\<not> is_active (job_of (jobs_after counting_entropy 1 1 5 one_job_done) 0)"
    by (simp add: one_job_done_def one_job_def run_ops_append job_step_def submit_def
        new_manager_def random_zero_id prune_expired_def prune_capacity_def
        prune_capacity_map.simps active_locked_def Let_def finish_run_def job_of_def)
  then show ?thesis
    using get_answers_until_retention [OF counting_entropy_good _ _ _ refl, of 1 1 one_job_done
        zero_id 8 5]
    by (simp add: one_job_done_full mget_Cons time_sub_def job_of_def)
qed

subsection \<open>Notifications\<close>

text \<open>A job with an \<open>onDone\<close> that has ended is or was reported once, with its final snapshot.\<close>

definition reports :: "manager \<Rightarrow> job_ref \<Rightarrow> snapshot list" where
  "reports m r = map snd (filter (\<lambda>n. fst n = r) (notified m @ unreported m))"

definition notified_wf :: "manager \<Rightarrow> bool" where
  "notified_wf m \<longleftrightarrow>
     (\<forall>r. reports m r =
        (if r < next_job m \<and> r \<notin> live_refs m \<and> on_done (job_heap m r) then [job_of m r] else []))"

lemma notified_wf_frame:
  assumes "notified_wf m" and "job_live_wf m" and "notified m' = notified m" "unreported m' = unreported m"
    and "next_job m' = next_job m" and "goroutines m' = goroutines m"
    and "\<And>r. r < next_job m \<Longrightarrow> on_done (job_heap m' r) = on_done (job_heap m r)"
    and "\<And>r. r < next_job m \<Longrightarrow> \<not> is_active (job_of m r) \<Longrightarrow> job_of m' r = job_of m r"
  shows "notified_wf m'"
proof -
  have "\<not> is_active (job_of m r)" if "r < next_job m" "r \<notin> live_refs m" for r
    using assms(2) that by (auto simp: job_live_wf_def)
  then show ?thesis
    using assms(1,3-8) by (auto simp: notified_wf_def reports_def)
qed

lemma notified_wf_finish:
  assumes "notified_wf m" and "job_live_wf m"
  shows "notified_wf (finish_run r out now m)"
proof (cases "r \<in> live_refs m")
  case False
  then show ?thesis
    using assms(1) by (simp add: finish_run_def)
next
  case True
  let ?f = "finish_run r out now m"
  have r: "r < next_job m" "reports m r = []"
    using assms True job_liveD(1) [OF assms(2)] by (auto simp: notified_wf_def)
  have live: "live_refs ?f = live_refs m - {r}"
    using True by (simp add: finish_run_def Let_def keys_mdel)
  have reports: "reports ?f k = reports m k @ (if k = r \<and> on_done (job_heap m r) then [job_of ?f r] else [])" for k
    using True by (simp add: finish_run_def Let_def reports_def job_of_def)
  have same: "k \<noteq> r \<Longrightarrow> job_of ?f k = job_of m k" "on_done (job_heap ?f k) = on_done (job_heap m k)"
      "next_job ?f = next_job m" for k
    by (simp_all add: finish_run_def Let_def job_of_def)
  show ?thesis
    unfolding notified_wf_def
  proof
    fix k
    show "reports ?f k =
        (if k < next_job ?f \<and> k \<notin> live_refs ?f \<and> on_done (job_heap ?f k) then [job_of ?f k] else [])"
      using assms(1) r by (cases "k = r") (simp_all add: reports live same notified_wf_def)
  qed
qed

text \<open>The call of \<open>onDone\<close> only moves the report.\<close>

lemma one_report:
  assumes "notified_wf m" and "mget (unreported m) r = Some sn"
  shows "filter (\<lambda>n. fst n = r) (unreported m) = [(r, sn)]" "filter (\<lambda>n. fst n = r) (notified m) = []"
proof -
  have "(r, sn) \<in> set (filter (\<lambda>n. fst n = r) (unreported m))"
    using assms(2) by (auto dest: mget_SomeD)
  moreover have "length (reports m r) \<le> 1"
    using assms(1) by (simp add: notified_wf_def)
  then have "length (filter (\<lambda>n. fst n = r) (notified m)) + length (filter (\<lambda>n. fst n = r) (unreported m)) \<le> 1"
    by (simp add: reports_def)
  ultimately show "filter (\<lambda>n. fst n = r) (unreported m) = [(r, sn)]" "filter (\<lambda>n. fst n = r) (notified m) = []"
    by (cases "filter (\<lambda>n. fst n = r) (unreported m)"; auto)+
qed

lemma reports_call_done:
  assumes "notified_wf m"
  shows "reports (call_done r m) k = reports m k"
proof (cases "mget (unreported m) r")
  case None
  then show ?thesis by (simp add: call_done_def)
next
  case (Some sn)
  have "filter (\<lambda>n. fst n = k) (mdel r (unreported m)) = (if k = r then [] else filter (\<lambda>n. fst n = k) (unreported m))"
    by (auto simp: mdel_def filter_empty_conv intro: filter_cong)
  then show ?thesis
    using one_report [OF assms Some] Some by (auto simp: call_done_def reports_def)
qed

lemma notified_wf_call_done: "notified_wf m \<Longrightarrow> notified_wf (call_done r m)"
  by (simp add: notified_wf_def reports_call_done)

lemma submit_notified:
  assumes "notified_wf m" and "job_live_wf m"
  shows "notified_wf (fst (submit entropy command fmt timeout cb now m))"
proof -
  let ?n = "fst (submit entropy command fmt timeout cb now m)"
  have n: "notified ?n = notified m" "unreported ?n = unreported m"
    by (auto simp: submit_def Let_def prune_expired_def prune_capacity_def split: option.split)
  have "next_job ?n = next_job m \<and> goroutines ?n = goroutines m \<or>
      next_job ?n = Suc (next_job m) \<and> live_refs ?n = insert (next_job m) (live_refs m)"
    by (auto simp: submit_def Let_def split: option.split)
  then show ?thesis
  proof (elim disjE conjE)
    assume "next_job ?n = next_job m" "goroutines ?n = goroutines m"
    then show ?thesis
      by (intro notified_wf_frame [OF assms n]) (simp_all add: submit_heap job_of_def)
  next
    assume new: "next_job ?n = Suc (next_job m)" "live_refs ?n = insert (next_job m) (live_refs m)"
    show ?thesis
      unfolding notified_wf_def reports_def n new
    proof
      fix r
      show "map snd (filter (\<lambda>n. fst n = r) (notified m @ unreported m)) =
        (if r < Suc (next_job m) \<and> r \<notin> insert (next_job m) (live_refs m) \<and> on_done (job_heap ?n r)
         then [job_of ?n r] else [])"
        using assms(1) submit_heap [of r m entropy command fmt timeout cb now]
        by (auto simp: notified_wf_def reports_def job_of_def less_Suc_eq)
    qed
  qed
qed

lemma job_step_notified:
  assumes "notified_wf m" and "job_live_wf m"
  shows "notified_wf (job_step entropy m x)"
proof (cases x)
  case (Get_Job jid now)
  then show ?thesis
    by (intro notified_wf_frame [OF assms])
       (simp_all add: job_step_def get_job_def Let_def job_of_def prune_expired_def split: option.split)
next
  case (Cancel_Job jid reason)
  have "on_done (job_heap (fst (cancel_job jid reason m)) r) = on_done (job_heap m r)" for r
    by (auto simp: cancel_job_def Let_def cancelling_job_def split: option.split)
  then show ?thesis
    using Cancel_Job
    by (intro notified_wf_frame [OF assms])
       (auto simp: job_step_def cancel_job_heap is_active_def,
        simp_all add: cancel_job_def Let_def split: option.split)
next
  case (Cancel_All reason)
  then show ?thesis
    by (intro notified_wf_frame [OF assms])
       (auto simp: job_step_def job_of_cancel_all is_active_def,
        simp add: cancel_all_def split_beta)
next
  case (Block_And_Cancel_All reason)
  have "job_of (h\<lparr>jobs_blocked := True\<rparr>) r = job_of h r" for h r
    by (simp add: job_of_def)
  then show ?thesis
    using Block_And_Cancel_All
    by (intro notified_wf_frame [OF assms])
       (auto simp: job_step_def block_and_cancel_all_eq job_of_cancel_all is_active_def,
        simp add: cancel_all_def split_beta)
next
  case Close_Manager
  have "job_of (h\<lparr>jobs_blocked := True\<rparr>) r = job_of h r" for h r
    by (simp add: job_of_def)
  then show ?thesis
    using Close_Manager
    by (intro notified_wf_frame [OF assms])
       (auto simp: job_step_def close_manager_def block_and_cancel_all_eq job_of_cancel_all
          is_active_def, simp add: cancel_all_def split_beta)
qed (use assms in \<open>simp_all add: job_step_def submit_notified notified_wf_finish notified_wf_call_done\<close>)

text \<open>
  C37: The completion callback of a job is called at most once, never before the end of the job is
  in place, and with the snapshot \<open>Get\<close> has returned since; it has been called exactly once as soon
  as the goroutine is past it, and until then exactly that goroutine still owes the call.
\<close>

theorem each_job_notified_once:
  assumes "good_entropy entropy" and "0 \<le> ma" and "ma \<le> mr" and "list_all job_op_ok ops"
    and "m = jobs_after entropy ma mr ret ops"
  shows "map snd (filter (\<lambda>n. fst n = r) (notified m)) =
    (if r < next_job m \<and> \<not> is_active (job_of m r) \<and> on_done (job_heap m r) \<and>
        mget (unreported m) r = None then [job_of m r] else []) \<and>
    (case mget (unreported m) r of
       None \<Rightarrow> True
     | Some sn \<Rightarrow> r < next_job m \<and> \<not> is_active (job_of m r) \<and> sn = job_of m r \<and>
         filter (\<lambda>n. fst n = r) (notified (call_done r m)) = [(r, job_of m r)])"
proof -
  have wf: "notified_wf m"
    unfolding assms(5)
  proof (rule jb.guarded_stable [OF _ _ _ assms(4)])
    show "good_entropy entropy \<and> job_inv entropy (new_manager ma mr ret)"
      using new_manager_inv assms(1-3) by blast
    show "notified_wf (new_manager ma mr ret)"
      by (simp add: notified_wf_def new_manager_def reports_def)
    fix s x
    assume "good_entropy entropy \<and> job_inv entropy s" "notified_wf s"
    then show "notified_wf (job_step entropy s x)"
      by (simp add: job_step_notified job_inv_def)
  qed
  have live: "is_active (job_of m r) \<longleftrightarrow> r \<in> live_refs m" if "r < next_job m"
    using jobs_after_inv [OF assms(1-4)] that unfolding assms(5) job_inv_def job_live_wf_def by blast
  have all: "reports m r = (if r < next_job m \<and> r \<notin> live_refs m \<and> on_done (job_heap m r) then [job_of m r] else [])"
    using wf by (simp add: notified_wf_def)
  show ?thesis
  proof (cases "mget (unreported m) r")
    case None
    then have "filter (\<lambda>n. fst n = r) (unreported m) = []"
      by (auto simp: mget_eq_None filter_empty_conv)
    then show ?thesis
      using all live None by (auto simp: reports_def)
  next
    case (Some sn)
    then show ?thesis
      using one_report [OF wf Some] all live by (auto simp: reports_def call_done_def split: if_splits)
  qed
qed

theorem each_job_notified_once_witness:
  "map snd (filter (\<lambda>n. fst n = 0) (notified (jobs_after counting_entropy 1 2 5 (one_job_done @ [Call_Done 0])))) =
     [job_of (jobs_after counting_entropy 1 2 5 one_job_done) 0]"
proof -
  let ?m = "jobs_after counting_entropy 1 2 5 one_job_done"
  have m: "unreported ?m = [(0, job_of ?m 0)]" "on_done (job_heap ?m 0)"
    using one_job_manager by (simp_all add: one_job_done_def run_ops_append job_step_def finish_run_def job_of_def Let_def)
  have "jobs_after counting_entropy 1 2 5 (one_job_done @ [Call_Done 0]) = call_done 0 ?m"
    by (simp add: run_ops_append job_step_def)
  moreover have "unreported (call_done 0 ?m) = []"
    by (simp add: call_done_def m mget_Cons mdel_def)
  ultimately show ?thesis
    using each_job_notified_once [OF counting_entropy_good _ _ _ refl, of 1 2 "one_job_done @ [Call_Done 0]" 0 5]
    by (simp add: one_job_done_manager is_active_def m(2) mget_eq_None)
qed

end
