(* ===== verification/Sessions.thy ===== *)
theory Sessions
  imports Jobs
begin

section \<open>internal/powershell/session.go: persistent sessions\<close>

text \<open>
  Sessions and their manager. A \<open>*Session\<close> is a reference into a heap. Each function below is
  the body of one critical section (of \<open>m.mu\<close> or of a session's \<open>stateMu\<close>); the step
  relation interleaves them, with the calls of \<open>Exec\<close> and \<open>Restart\<close> in progress between
  the sections, the aborts that \<open>Delete\<close> and \<open>KillAll\<close> still owe, and the identifiers
  the reaper has collected. \<open>execMu\<close> is the field \<open>exec_owner\<close>: the call that holds it.
\<close>

subsection \<open>State\<close>

type_synonym sess_ref = nat
type_synonym call_id = nat

record session =
  sess_id :: string
  sess_created :: timestamp
  last_used :: timestamp
  busy :: bool
  sess_closed :: bool
  process :: "pid option"
  exec_owner :: "call_id option"

datatype exec_failure = Fail_Timeout | Fail_Write string | Fail_Frame string

text \<open>
  Where a call is. \<open>Exec\<close>: waiting for \<open>execMu\<close>, before its first state section, before
  writing to process \<open>p\<close>, waiting for the frame, about to restart the session after a
  failure, about to clear \<open>busy\<close>, about to release \<open>execMu\<close>, returned. \<open>Restart\<close>: waiting for
  \<open>execMu\<close>, about to restart, about to release, returned.
\<close>

datatype call_pc =
    No_Call
  | X_Lock sess_ref | X_Enter sess_ref | X_Write sess_ref pid | X_Wait sess_ref pid
  | X_Restart sess_ref exec_failure | X_Leave sess_ref outcome | X_Unlock sess_ref outcome
  | X_Returned outcome
  | R_Lock sess_ref | R_Restart sess_ref | R_Unlock sess_ref bool | R_Returned bool

record pool =
  sess_map :: "(string \<times> sess_ref) list"
  sess_heap :: "sess_ref \<Rightarrow> session"
  next_sess :: sess_ref
  max_open :: int
  idle_limit :: duration
  pprocs :: "pid \<Rightarrow> proc"
  pnext :: pid
  pdraws :: nat
  calls :: "call_id \<Rightarrow> call_pc"
  aborting :: "sess_ref set"
  to_end :: "pid set"
  reaping :: "string set"

definition empty_session :: session where
  "empty_session = \<lparr>sess_id = [], sess_created = 0, last_used = 0, busy = False, sess_closed = False,
     process = None, exec_owner = None\<rparr>"

definition new_session_manager :: "int \<Rightarrow> duration \<Rightarrow> pool" where
  "new_session_manager n idle =
     \<lparr>sess_map = [], sess_heap = (\<lambda>_. empty_session), next_sess = 0, max_open = n,
      idle_limit = idle, pprocs = (\<lambda>_. Absent), pnext = 0, pdraws = 0, calls = (\<lambda>_. No_Call),
      aborting = {}, to_end = {}, reaping = {}\<rparr>"

abbreviation set_session :: "sess_ref \<Rightarrow> session \<Rightarrow> pool \<Rightarrow> pool" where
  "set_session r s m \<equiv> m\<lparr>sess_heap := (sess_heap m)(r := s)\<rparr>"

abbreviation set_call :: "call_id \<Rightarrow> call_pc \<Rightarrow> pool \<Rightarrow> pool" where
  "set_call c pc m \<equiv> m\<lparr>calls := (calls m)(c := pc)\<rparr>"

subsection \<open>Processes\<close>

definition kill_pid :: "pid \<Rightarrow> pool \<Rightarrow> pool" where
  "kill_pid p m = m\<lparr>pprocs := (pprocs m)(p := Ended)\<rparr>"

definition kill_opt :: "pid option \<Rightarrow> pool \<Rightarrow> pool" where
  "kill_opt p m = (case p of None \<Rightarrow> m | Some q \<Rightarrow> kill_pid q m)"

text \<open>\<open>startChild\<close>: a new process, or an error when \<open>ok\<close> is false.\<close>

definition start_child_proc :: "bool \<Rightarrow> pool \<Rightarrow> pool \<times> pid option" where
  "start_child_proc ok m =
     (if ok then (m\<lparr>pprocs := (pprocs m)(pnext m := Alive), pnext := Suc (pnext m)\<rparr>, Some (pnext m))
      else (m, None))"

subsection \<open>The critical sections\<close>

text \<open>\<open>Create\<close>, which holds \<open>m.mu\<close> from the count to the insertion.\<close>

definition create_session ::
  "entropy \<Rightarrow> bool \<Rightarrow> timestamp \<Rightarrow> pool \<Rightarrow> pool \<times> (run_error + sess_ref)" where
  "create_session entropy ok now m0 =
     (if int (length (sess_map m0)) \<ge> max_open m0 then (m0, Inl Session_Limit)
      else
        let m = m0\<lparr>pdraws := Suc (pdraws m0)\<rparr> in
        case random_id entropy (pdraws m0) of
          None \<Rightarrow> (m, Inl (Run_Failed ''read random identifier''))
        | Some sid \<Rightarrow>
            (case start_child_proc ok m of
               (m1, None) \<Rightarrow> (m1, Inl (Run_Failed ''start process''))
             | (m1, Some p) \<Rightarrow>
                 let r = next_sess m1;
                     s = \<lparr>sess_id = sid, sess_created = now, last_used = now, busy = False,
                          sess_closed = False, process = Some p, exec_owner = None\<rparr>
                 in ((set_session r s m1)\<lparr>next_sess := Suc r, sess_map := mput sid r (sess_map m1)\<rparr>,
                     Inr r)))"

definition get_session :: "string \<Rightarrow> pool \<Rightarrow> run_error + sess_ref" where
  "get_session sid m =
     (case mget (sess_map m) sid of None \<Rightarrow> Inl Session_Not_Found | Some r \<Rightarrow> Inr r)"

definition session_count :: "pool \<Rightarrow> nat" where
  "session_count m = length (sess_map m)"

text \<open>The section of \<open>Delete\<close> under \<open>m.mu\<close>; the abort of the session follows.\<close>

definition delete_session :: "string \<Rightarrow> pool \<Rightarrow> pool \<times> bool" where
  "delete_session sid m =
     (case mget (sess_map m) sid of
        None \<Rightarrow> (m, False)
      | Some r \<Rightarrow> (m\<lparr>sess_map := mdel sid (sess_map m), aborting := insert r (aborting m)\<rparr>, True))"

definition kill_all_sessions :: "pool \<Rightarrow> pool" where
  "kill_all_sessions m =
     m\<lparr>sess_map := [], aborting := aborting m \<union> snd ` set (sess_map m)\<rparr>"

text \<open>\<open>Abort\<close> up to the release of \<open>stateMu\<close>; the kill of the process it took follows.\<close>

definition abort_session :: "sess_ref \<Rightarrow> pool \<Rightarrow> pool" where
  "abort_session r m =
     (let s = sess_heap m r in
      if sess_closed s then m
      else (set_session r (s\<lparr>sess_closed := True, process := None\<rparr>) m)
             \<lparr>to_end := to_end m \<union> set_option (process s)\<rparr>)"

text \<open>\<open>restartLocked\<close>.\<close>

definition restart_locked :: "bool \<Rightarrow> timestamp \<Rightarrow> sess_ref \<Rightarrow> pool \<Rightarrow> pool \<times> bool" where
  "restart_locked ok now r m =
     (let s = sess_heap m r in
      if sess_closed s then (m, False)
      else
        let m1 = kill_opt (process s) m in
        case start_child_proc ok m1 of
          (m2, None) \<Rightarrow> (set_session r (s\<lparr>process := None\<rparr>) m2, False)
        | (m2, Some p) \<Rightarrow> (set_session r (s\<lparr>process := Some p, last_used := now\<rparr>) m2, True))"

text \<open>The first section of \<open>Exec\<close>: the process to use, or \<open>ErrSessionNotFound\<close>.\<close>

definition exec_enter :: "timestamp \<Rightarrow> sess_ref \<Rightarrow> pool \<Rightarrow> pool \<times> pid option" where
  "exec_enter now r m =
     (let s = sess_heap m r in
      if sess_closed s \<or> process s = None then (m, None)
      else (set_session r (s\<lparr>busy := True, last_used := now\<rparr>) m, process s))"

definition exec_leave :: "timestamp \<Rightarrow> sess_ref \<Rightarrow> pool \<Rightarrow> pool" where
  "exec_leave now r m = set_session r ((sess_heap m r)\<lparr>busy := False, last_used := now\<rparr>) m"

definition set_owner :: "sess_ref \<Rightarrow> call_id option \<Rightarrow> pool \<Rightarrow> pool" where
  "set_owner r oc m = set_session r ((sess_heap m r)\<lparr>exec_owner := oc\<rparr>) m"

definition shell_exited_result :: "string \<Rightarrow> int \<Rightarrow> bool \<Rightarrow> exec_result" where
  "shell_exited_result fmt ms restarted = empty_result
     \<lparr>success := False, exit_code := -1, format := fmt, exec_output := ''null'', stderr := [],
      duration_ms := ms, session_restarted := restarted\<rparr>"

text \<open>What \<open>Exec\<close> returns after a failure, given what \<open>restartLocked\<close> returned.\<close>

definition exec_failed :: "string \<Rightarrow> int \<Rightarrow> exec_failure \<Rightarrow> bool \<Rightarrow> outcome" where
  "exec_failed fmt ms f restarted =
     (case f of
        Fail_Timeout \<Rightarrow> (timeout_result fmt ms restarted, Some Timed_Out)
      | Fail_Write d \<Rightarrow>
          (shell_exited_result fmt ms restarted, Some (Shell_Exited (''write command: '' @ d)))
      | Fail_Frame d \<Rightarrow> (shell_exited_result fmt ms restarted, Some (Shell_Exited d)))"

definition idle_for :: "timestamp \<Rightarrow> session \<Rightarrow> duration" where
  "idle_for now s = (if busy s then 0 else time_sub now (last_used s))"

text \<open>The section of the reaper under \<open>m.mu\<close>: the identifiers it will delete.\<close>

definition reap_collect :: "timestamp \<Rightarrow> pool \<Rightarrow> string list" where
  "reap_collect now m =
     map fst (filter (\<lambda>e. idle_for now (sess_heap m (snd e)) > idle_limit m) (sess_map m))"

text \<open>The interval of the reaper's ticker.\<close>

definition reap_interval :: "duration \<Rightarrow> duration" where
  "reap_interval idle =
     (let i = idle div 2;
          i = (if i > 60 * nanos_per_second then 60 * nanos_per_second else i)
      in if i < nanos_per_second then nanos_per_second else i)"

subsection \<open>The steps\<close>

text \<open>\<open>fmt c\<close> is the format argument of call \<open>c\<close>.\<close>

inductive pool_step :: "entropy \<Rightarrow> json_lib \<Rightarrow> (call_id \<Rightarrow> string) \<Rightarrow> pool \<Rightarrow> pool \<Rightarrow> bool"
  for entropy :: entropy and js :: json_lib and fmt :: "call_id \<Rightarrow> string" where
  s_create: "pool_step entropy js fmt m (fst (create_session entropy ok now m))"
| s_delete: "pool_step entropy js fmt m (fst (delete_session sid m))"
| s_kill_all: "pool_step entropy js fmt m (kill_all_sessions m)"
| s_abort: "r \<in> aborting m \<Longrightarrow>
    pool_step entropy js fmt m ((abort_session r m)\<lparr>aborting := aborting m - {r}\<rparr>)"
| s_end: "p \<in> to_end m \<Longrightarrow>
    pool_step entropy js fmt m ((kill_pid p m)\<lparr>to_end := to_end m - {p}\<rparr>)"
| s_collect: "reaping m = {} \<Longrightarrow>
    pool_step entropy js fmt m (m\<lparr>reaping := set (reap_collect now m)\<rparr>)"
| s_reap: "sid \<in> reaping m \<Longrightarrow>
    pool_step entropy js fmt m ((fst (delete_session sid m))\<lparr>reaping := reaping m - {sid}\<rparr>)"
| x_call: "calls m c = No_Call \<Longrightarrow> r < next_sess m \<Longrightarrow>
    pool_step entropy js fmt m (set_call c (X_Lock r) m)"
| x_lock: "calls m c = X_Lock r \<Longrightarrow> exec_owner (sess_heap m r) = None \<Longrightarrow>
    pool_step entropy js fmt m (set_call c (X_Enter r) (set_owner r (Some c) m))"
| x_enter_closed: "calls m c = X_Enter r \<Longrightarrow> exec_enter now r m = (m', None) \<Longrightarrow>
    pool_step entropy js fmt m (set_call c (X_Unlock r (empty_result, Some Session_Not_Found)) m')"
| x_enter: "calls m c = X_Enter r \<Longrightarrow> exec_enter now r m = (m', Some p) \<Longrightarrow>
    pool_step entropy js fmt m (set_call c (X_Write r p) m')"
| x_no_id: "calls m c = X_Write r p \<Longrightarrow>
    pool_step entropy js fmt m (set_call c (X_Leave r (empty_result, Some (Run_Failed msg))) m)"
| x_write_failed: "calls m c = X_Write r p \<Longrightarrow>
    pool_step entropy js fmt m (set_call c (X_Restart r (Fail_Write msg)) m)"
| x_write: "calls m c = X_Write r p \<Longrightarrow> pprocs m p = Alive \<Longrightarrow>
    pool_step entropy js fmt m (set_call c (X_Wait r p) m)"
| x_expired: "calls m c = X_Wait r p \<Longrightarrow>
    pool_step entropy js fmt m (set_call c (X_Restart r Fail_Timeout) (kill_pid p m))"
| x_bad_frame: "calls m c = X_Wait r p \<Longrightarrow>
    pool_step entropy js fmt m (set_call c (X_Restart r (Fail_Frame msg)) (kill_pid p m))"
| x_frame: "calls m c = X_Wait r p \<Longrightarrow>
    pool_step entropy js fmt m (set_call c (X_Leave r (to_api_result js fr ms False, None)) m)"
| x_restart: "calls m c = X_Restart r f \<Longrightarrow> restart_locked ok now r m = (m', restarted) \<Longrightarrow>
    pool_step entropy js fmt m (set_call c (X_Leave r (exec_failed (fmt c) ms f restarted)) m')"
| x_leave: "calls m c = X_Leave r out \<Longrightarrow>
    pool_step entropy js fmt m (set_call c (X_Unlock r out) (exec_leave now r m))"
| x_unlock: "calls m c = X_Unlock r out \<Longrightarrow>
    pool_step entropy js fmt m (set_call c (X_Returned out) (set_owner r None m))"
| r_call: "calls m c = No_Call \<Longrightarrow> r < next_sess m \<Longrightarrow>
    pool_step entropy js fmt m (set_call c (R_Lock r) m)"
| r_lock: "calls m c = R_Lock r \<Longrightarrow> exec_owner (sess_heap m r) = None \<Longrightarrow>
    pool_step entropy js fmt m (set_call c (R_Restart r) (set_owner r (Some c) m))"
| r_restart: "calls m c = R_Restart r \<Longrightarrow> restart_locked ok now r m = (m', restarted) \<Longrightarrow>
    pool_step entropy js fmt m (set_call c (R_Unlock r restarted) m')"
| r_unlock: "calls m c = R_Unlock r restarted \<Longrightarrow>
    pool_step entropy js fmt m (set_call c (R_Returned restarted) (set_owner r None m))"

inductive_cases pool_stepE: "pool_step entropy js fmt m m'"

subsection \<open>The effect of each section\<close>

lemma exec_enter_NoneD: "exec_enter now r m = (m', None) \<Longrightarrow> m' = m"
  by (auto simp: exec_enter_def Let_def split: if_splits)

lemma exec_enter_SomeD:
  "exec_enter now r m = (m', Some p) \<Longrightarrow>
    m' = set_session r ((sess_heap m r)\<lparr>busy := True, last_used := now\<rparr>) m \<and>
    process (sess_heap m r) = Some p \<and> \<not> sess_closed (sess_heap m r)"
  by (auto simp: exec_enter_def Let_def split: if_splits)

text \<open>The three ends of \<open>restartLocked\<close>.\<close>

lemma restart_locked_cases:
  assumes "restart_locked ok now r m = (m', restarted)"
  obtains (Closed) "sess_closed (sess_heap m r)" "m' = m" "\<not> restarted"
  | (Failed) "\<not> sess_closed (sess_heap m r)" "\<not> restarted"
      "m' = set_session r ((sess_heap m r)\<lparr>process := None\<rparr>) (kill_opt (process (sess_heap m r)) m)"
  | (Fresh) "\<not> sess_closed (sess_heap m r)" "restarted"
      "m' = (set_session r ((sess_heap m r)\<lparr>process := Some (pnext m), last_used := now\<rparr>)
               (kill_opt (process (sess_heap m r)) m))
              \<lparr>pprocs := (pprocs (kill_opt (process (sess_heap m r)) m))(pnext m := Alive),
               pnext := Suc (pnext m)\<rparr>"
  using assms
  by (auto simp: restart_locked_def start_child_proc_def kill_opt_def kill_pid_def Let_def
      split: if_splits option.splits)

lemma kill_opt_frame [simp]:
  "sess_map (kill_opt p m) = sess_map m" "sess_heap (kill_opt p m) = sess_heap m"
  "next_sess (kill_opt p m) = next_sess m" "max_open (kill_opt p m) = max_open m"
  "pnext (kill_opt p m) = pnext m" "calls (kill_opt p m) = calls m"
  "aborting (kill_opt p m) = aborting m" "to_end (kill_opt p m) = to_end m"
  "pdraws (kill_opt p m) = pdraws m" "reaping (kill_opt p m) = reaping m"
  "pprocs (kill_opt p m) q = (if p = Some q then Ended else pprocs m q)"
  by (auto simp: kill_opt_def kill_pid_def split: option.split)

lemma kill_pid_frame [simp]:
  "sess_map (kill_pid p m) = sess_map m" "sess_heap (kill_pid p m) = sess_heap m"
  "next_sess (kill_pid p m) = next_sess m" "max_open (kill_pid p m) = max_open m"
  "pnext (kill_pid p m) = pnext m" "calls (kill_pid p m) = calls m"
  "aborting (kill_pid p m) = aborting m" "to_end (kill_pid p m) = to_end m"
  "pdraws (kill_pid p m) = pdraws m" "reaping (kill_pid p m) = reaping m"
  "pprocs (kill_pid p m) q = (if p = q then Ended else pprocs m q)"
  by (auto simp: kill_pid_def)

lemma abort_session_frame [simp]:
  "sess_map (abort_session r m) = sess_map m" "next_sess (abort_session r m) = next_sess m"
  "max_open (abort_session r m) = max_open m" "pnext (abort_session r m) = pnext m"
  "calls (abort_session r m) = calls m" "aborting (abort_session r m) = aborting m"
  "pprocs (abort_session r m) = pprocs m" "pdraws (abort_session r m) = pdraws m"
  "exec_owner (sess_heap (abort_session r m) k) = exec_owner (sess_heap m k)"
  "busy (sess_heap (abort_session r m) k) = busy (sess_heap m k)"
  "k \<noteq> r \<Longrightarrow> sess_heap (abort_session r m) k = sess_heap m k"
  by (auto simp: abort_session_def Let_def)

text \<open>The ends of \<open>Create\<close>.\<close>

lemma create_session_cases:
  obtains (Refused) "fst (create_session entropy ok now m) = m"
  | (Wasted) "fst (create_session entropy ok now m) = m\<lparr>pdraws := Suc (pdraws m)\<rparr>"
  | (Created) sid s where "random_id entropy (pdraws m) = Some sid"
      "int (length (sess_map m)) < max_open m"
      "s = \<lparr>sess_id = sid, sess_created = now, last_used = now, busy = False, sess_closed = False,
            process = Some (pnext m), exec_owner = None\<rparr>"
      "fst (create_session entropy ok now m) =
        m\<lparr>pdraws := Suc (pdraws m), pprocs := (pprocs m)(pnext m := Alive), pnext := Suc (pnext m),
          sess_heap := (sess_heap m)(next_sess m := s), next_sess := Suc (next_sess m),
          sess_map := mput sid (next_sess m) (sess_map m)\<rparr>"
proof (cases "int (length (sess_map m)) < max_open m")
  case False
  then show ?thesis
    using that(1) by (simp add: create_session_def)
next
  case room: True
  show ?thesis
  proof (cases "random_id entropy (pdraws m)")
    case None
    then show ?thesis
      using that(2) room by (simp add: create_session_def Let_def)
  next
    case (Some sid)
    then show ?thesis
      using that(2) that(3) [OF Some room refl] room
      by (cases ok) (simp_all add: create_session_def start_child_proc_def Let_def)
  qed
qed

subsection \<open>What every reachable state satisfies\<close>

text \<open>The session whose \<open>execMu\<close> a call holds, and the session a call of \<open>Exec\<close> marks busy.\<close>

fun holds_lock :: "call_pc \<Rightarrow> sess_ref option" where
  "holds_lock (X_Enter r) = Some r"
| "holds_lock (X_Write r p) = Some r"
| "holds_lock (X_Wait r p) = Some r"
| "holds_lock (X_Restart r f) = Some r"
| "holds_lock (X_Leave r out) = Some r"
| "holds_lock (X_Unlock r out) = Some r"
| "holds_lock (R_Restart r) = Some r"
| "holds_lock (R_Unlock r b) = Some r"
| "holds_lock _ = None"

fun executes :: "call_pc \<Rightarrow> sess_ref option" where
  "executes (X_Write r p) = Some r"
| "executes (X_Wait r p) = Some r"
| "executes (X_Restart r f) = Some r"
| "executes (X_Leave r out) = Some r"
| "executes _ = None"

fun refers :: "call_pc \<Rightarrow> sess_ref option" where
  "refers (X_Lock r) = Some r"
| "refers (R_Lock r) = Some r"
| "refers pc = holds_lock pc"

definition sess_map_wf :: "entropy \<Rightarrow> pool \<Rightarrow> bool" where
  "sess_map_wf entropy m \<longleftrightarrow> mok (sess_map m) \<and>
     (\<forall>e \<in> set (sess_map m). snd e < next_sess m \<and> sess_id (sess_heap m (snd e)) = fst e \<and>
        (\<exists>n < pdraws m. random_id entropy n = Some (fst e))) \<and>
     int (length (sess_map m)) \<le> max 0 (max_open m)"

definition refs_wf :: "pool \<Rightarrow> bool" where
  "refs_wf m \<longleftrightarrow>
     (\<forall>c r. refers (calls m c) = Some r \<longrightarrow> r < next_sess m) \<and> (\<forall>r \<in> aborting m. r < next_sess m) \<and>
     (\<forall>r \<ge> next_sess m. sess_heap m r = empty_session)"

definition closed_wf :: "pool \<Rightarrow> bool" where
  "closed_wf m \<longleftrightarrow>
     (\<forall>r. sess_closed (sess_heap m r) \<longrightarrow> process (sess_heap m r) = None) \<and>
     (\<forall>r < next_sess m. sess_closed (sess_heap m r) \<or> r \<in> snd ` set (sess_map m) \<or> r \<in> aborting m)"

definition sess_procs_wf :: "pool \<Rightarrow> bool" where
  "sess_procs_wf m \<longleftrightarrow>
     (\<forall>p. pprocs m p = Alive \<longrightarrow> p \<in> to_end m \<or> (\<exists>r. process (sess_heap m r) = Some p)) \<and>
     (\<forall>r p. process (sess_heap m r) = Some p \<longrightarrow> p < pnext m)"

definition lock_wf :: "pool \<Rightarrow> bool" where
  "lock_wf m \<longleftrightarrow>
     (\<forall>c r. holds_lock (calls m c) = Some r \<longleftrightarrow> exec_owner (sess_heap m r) = Some c)"

definition busy_wf :: "pool \<Rightarrow> bool" where
  "busy_wf m \<longleftrightarrow> (\<forall>r. busy (sess_heap m r) \<longleftrightarrow> (\<exists>c. executes (calls m c) = Some r))"

lemma executes_holds: "executes pc = Some r \<Longrightarrow> holds_lock pc = Some r"
  by (cases pc) simp_all

lemma holds_refers: "holds_lock pc = Some r \<Longrightarrow> refers pc = Some r"
  by (cases pc) simp_all

lemma create_fresh:
  assumes "good_entropy entropy" and "sess_map_wf entropy m"
    and "random_id entropy (pdraws m) = Some sid"
  shows "mget (sess_map m) sid = None"
    and "mput sid r (sess_map m) = sess_map m @ [(sid, r)]"
proof -
  have "sid \<notin> fst ` set (sess_map m)"
  proof
    assume "sid \<in> fst ` set (sess_map m)"
    then obtain n where "n < pdraws m" "random_id entropy n = Some sid"
      using assms(2) unfolding sess_map_wf_def by blast
    then show False
      using random_id_inject [OF assms(1,3)] by blast
  qed
  then show "mget (sess_map m) sid = None"
    by (simp add: mget_eq_None)
  then show "mput sid r (sess_map m) = sess_map m @ [(sid, r)]"
    by (rule mput_absent)
qed

text \<open>Deleting an identifier removes one session from the map.\<close>

lemma delete_session_cases:
  obtains (Unknown) "fst (delete_session sid m) = m"
  | (Removed) r where "(sid, r) \<in> set (sess_map m)"
      "fst (delete_session sid m) =
         m\<lparr>sess_map := mdel sid (sess_map m), aborting := insert r (aborting m)\<rparr>"
  by (cases "mget (sess_map m) sid") (auto simp: delete_session_def dest: mget_SomeD)

lemma mdel_removes_one:
  assumes "mok jm" "(k, r) \<in> set jm" "x \<in> snd ` set jm"
  shows "x = r \<or> x \<in> snd ` set (mdel k jm)"
proof -
  obtain i where i: "(i, x) \<in> set jm"
    using assms(3) by auto
  show ?thesis
  proof (cases "i = k")
    case True
    then show ?thesis
      using i assms(1,2) by (metis mget_eq_Some option.inject)
  next
    case False
    then have "(i, x) \<in> set (mdel k jm)"
      using i by (simp add: mdel_def)
    then show ?thesis
      by force
  qed
qed

lemma closed_wf_delete:
  assumes "closed_wf m" and "mok (sess_map m)"
  shows "closed_wf (fst (delete_session sid m))"
proof (cases rule: delete_session_cases [of sid m])
  case (Removed r)
  show ?thesis
    using assms mdel_removes_one [OF assms(2) Removed(1)]
    unfolding Removed(2) closed_wf_def by (simp, blast)
qed (use assms in simp)

lemma closed_wf_step:
  "pool_step entropy js fmt m m' \<Longrightarrow> good_entropy entropy \<Longrightarrow> sess_map_wf entropy m \<Longrightarrow>
    refs_wf m \<Longrightarrow> closed_wf m \<Longrightarrow> closed_wf m'"
proof (induction rule: pool_step.induct)
  case (s_create m ok now)
  show ?case
  proof (cases rule: create_session_cases [of entropy ok now m])
    case (Created sid s)
    then show ?thesis
      using s_create create_fresh(2) [OF s_create(1,2) Created(1)]
      by (auto simp: closed_wf_def less_Suc_eq)
  qed (use s_create in \<open>auto simp: closed_wf_def\<close>)
next
  case (s_delete m sid)
  then show ?case
    by (intro closed_wf_delete) (simp_all add: sess_map_wf_def)
next
  case (s_reap sid m)
  then have "closed_wf (fst (delete_session sid m))"
    by (intro closed_wf_delete) (simp_all add: sess_map_wf_def)
  then show ?case
    by (simp add: closed_wf_def)
next
  case (x_restart m c r f ok now m' restarted ms)
  from x_restart(2) show ?case
    by (cases rule: restart_locked_cases) (use x_restart in \<open>auto simp: closed_wf_def\<close>)
next
  case (r_restart m c r ok now m' restarted)
  from r_restart(2) show ?case
    by (cases rule: restart_locked_cases) (use r_restart in \<open>auto simp: closed_wf_def\<close>)
qed (auto simp: closed_wf_def kill_all_sessions_def abort_session_def set_owner_def
      exec_leave_def Let_def dest!: exec_enter_NoneD exec_enter_SomeD split: if_splits)

lemma sess_map_wf_delete:
  "sess_map_wf entropy m \<Longrightarrow> sess_map_wf entropy (fst (delete_session sid m))"
proof (cases rule: delete_session_cases [of sid m])
  case (Removed r)
  assume wf: "sess_map_wf entropy m"
  then have "int (length (mdel sid (sess_map m))) \<le> max 0 (max_open m)"
    using length_mdel_le [of sid "sess_map m"] unfolding sess_map_wf_def by linarith
  moreover have "set (mdel sid (sess_map m)) \<subseteq> set (sess_map m)"
    by (auto simp: mdel_def)
  ultimately show ?thesis
    using wf unfolding Removed(2) sess_map_wf_def by (auto simp: go_map_simps)
qed simp

text \<open>Sections that leave the map, the counters and the identifiers alone.\<close>

lemma sess_map_wf_frame:
  assumes "sess_map_wf entropy m" and "sess_map m' = sess_map m" "next_sess m' = next_sess m"
    "pdraws m \<le> pdraws m'" "max_open m' = max_open m"
    and "\<And>r. sess_id (sess_heap m' r) = sess_id (sess_heap m r)"
  shows "sess_map_wf entropy m'"
  using assms(1) unfolding sess_map_wf_def assms(2,3,5,6) by (meson assms(4) less_le_trans)

lemma sess_map_wf_step:
  "pool_step entropy js fmt m m' \<Longrightarrow> good_entropy entropy \<Longrightarrow> refs_wf m \<Longrightarrow>
    sess_map_wf entropy m \<Longrightarrow> sess_map_wf entropy m'"
proof (induction rule: pool_step.induct)
  case (s_create m ok now)
  show ?case
  proof (cases rule: create_session_cases [of entropy ok now m])
    case (Created sid s)
    note new = create_fresh [OF s_create(1,3) Created(1)]
    then show ?thesis
      using s_create Created(1-3)
      by (auto simp: Created(4) sess_map_wf_def mok_def mget_eq_None less_Suc_eq
          intro: exI [of _ "pdraws m"])
  next
    case Wasted
    then show ?thesis
      using s_create by (auto intro: sess_map_wf_frame)
  qed (use s_create in auto)
next
  case (s_reap sid m)
  then have "sess_map_wf entropy (fst (delete_session sid m))"
    by (intro sess_map_wf_delete) simp_all
  then show ?case
    by (rule sess_map_wf_frame) simp_all
next
  case (x_restart m c r f ok now m' restarted ms)
  from x_restart(2) have "sess_map_wf entropy m'"
    by (cases rule: restart_locked_cases; intro sess_map_wf_frame [OF x_restart(5)]) simp_all
  then show ?case
    by (rule sess_map_wf_frame) simp_all
next
  case (r_restart m c r ok now m' restarted)
  from r_restart(2) have "sess_map_wf entropy m'"
    by (cases rule: restart_locked_cases; intro sess_map_wf_frame [OF r_restart(5)]) simp_all
  then show ?case
    by (rule sess_map_wf_frame) simp_all
next
  case (s_kill_all m)
  then show ?case
    by (simp add: sess_map_wf_def kill_all_sessions_def)
next
  case (s_delete m sid)
  then show ?case
    by (intro sess_map_wf_delete)
next
  case (s_abort r m)
  show ?case
    by (rule sess_map_wf_frame [OF s_abort(4)]) (simp_all add: abort_session_def Let_def)
next
  case (x_enter m c r now m' p)
  show ?case
    by (rule sess_map_wf_frame [OF x_enter(5)]) (use exec_enter_SomeD [OF x_enter(2)] in simp_all)
next
  case (x_enter_closed m c r now m')
  show ?case
    by (rule sess_map_wf_frame [OF x_enter_closed(5)])
       (use exec_enter_NoneD [OF x_enter_closed(2)] in simp_all)
qed (rule sess_map_wf_frame, assumption, simp_all add: set_owner_def exec_leave_def; fail)+

text \<open>A step that changes neither side of an equivalence keeps it.\<close>

lemma lock_wf_frame:
  assumes "lock_wf m" and "\<And>c. holds_lock (calls m' c) = holds_lock (calls m c)"
    and "\<And>r. exec_owner (sess_heap m' r) = exec_owner (sess_heap m r)"
  shows "lock_wf m'"
  using assms by (simp add: lock_wf_def)

lemma busy_wf_frame:
  assumes "busy_wf m" and "\<And>c. executes (calls m' c) = executes (calls m c)"
    and "\<And>r. busy (sess_heap m' r) = busy (sess_heap m r)"
  shows "busy_wf m'"
  using assms by (simp add: busy_wf_def)

lemma refs_wf_frame:
  assumes "refs_wf m" and "next_sess m \<le> next_sess m'"
    and "\<And>c r. refers (calls m' c) = Some r \<Longrightarrow> refers (calls m c) = Some r \<or> r < next_sess m'"
    and "\<And>r. r \<in> aborting m' \<Longrightarrow> r \<in> aborting m \<or> r < next_sess m'"
    and "\<And>r. next_sess m' \<le> r \<Longrightarrow> sess_heap m' r = sess_heap m r"
  shows "refs_wf m'"
  unfolding refs_wf_def
proof (intro conjI allI ballI impI)
  have up: "r < next_sess m'" if "r < next_sess m" for r
    using that assms(2) by simp
  show "r < next_sess m'" if "refers (calls m' c) = Some r" for c r
    using assms(3) [OF that] assms(1) up unfolding refs_wf_def by blast
  show "r < next_sess m'" if "r \<in> aborting m'" for r
    using assms(4) [OF that] assms(1) up unfolding refs_wf_def by blast
  show "sess_heap m' r = empty_session" if "next_sess m' \<le> r" for r
    using assms(5) [OF that] assms(1) order_trans [OF assms(2) that] unfolding refs_wf_def by simp
qed

lemma refs_wf_call: "refs_wf m \<Longrightarrow> refers (calls m c) = Some r \<Longrightarrow> r < next_sess m"
  by (simp add: refs_wf_def)

lemma refs_wf_set_call:
  assumes "refs_wf m" and "calls u = calls m" "next_sess u = next_sess m" "aborting u = aborting m"
    and "\<And>q. refers pc = Some q \<Longrightarrow> refers (calls m c) = Some q \<or> q < next_sess m"
    and "\<And>q. sess_heap u q = sess_heap m q \<or> refers (calls m c) = Some q"
  shows "refs_wf (set_call c pc u)"
proof (rule refs_wf_frame [OF assms(1)])
  show "sess_heap (set_call c pc u) r = sess_heap m r" if "next_sess (set_call c pc u) \<le> r" for r
    using assms(6) [of r] refs_wf_call [OF assms(1), of c r] that assms(3) by auto
qed (use assms in \<open>auto split: if_splits\<close>)

lemma refs_wf_step:
  "pool_step entropy js fmt m m' \<Longrightarrow> sess_map_wf entropy m \<Longrightarrow> refs_wf m \<Longrightarrow> refs_wf m'"
proof (induction rule: pool_step.induct)
  case (s_create m ok now)
  show ?case
    by (cases rule: create_session_cases [of entropy ok now m];
        rule refs_wf_frame [OF s_create(2)]) simp_all
next
  case (s_delete m sid)
  then have "\<forall>e \<in> set (sess_map m). snd e < next_sess m"
    by (simp add: sess_map_wf_def)
  then show ?case
    by (cases rule: delete_session_cases [of sid m]; intro refs_wf_frame [OF s_delete(2)]) auto
next
  case (s_reap sid m)
  then have "\<forall>e \<in> set (sess_map m). snd e < next_sess m"
    by (simp add: sess_map_wf_def)
  then show ?case
    by (cases rule: delete_session_cases [of sid m]; intro refs_wf_frame [OF s_reap(3)]) auto
next
  case (s_kill_all m)
  then have "\<forall>e \<in> set (sess_map m). snd e < next_sess m"
    by (simp add: sess_map_wf_def)
  then show ?case
    by (intro refs_wf_frame [OF s_kill_all(2)]) (auto simp: kill_all_sessions_def)
next
  case (s_abort r m)
  then have "r < next_sess m"
    by (simp add: refs_wf_def)
  then show ?case
    by (intro refs_wf_frame [OF s_abort(3)]) auto
next
  case (x_restart m c r f ok now m' restarted ms)
  have r: "r < next_sess m"
    using refs_wf_call [OF x_restart(4), of c] x_restart(1) by simp
  from x_restart(2) show ?case
    by (cases rule: restart_locked_cases; intro refs_wf_frame [OF x_restart(4)])
       (use r x_restart(1) in \<open>auto split: if_splits\<close>)
next
  case (r_restart m c r ok now m' restarted)
  have r: "r < next_sess m"
    using refs_wf_call [OF r_restart(4), of c] r_restart(1) by simp
  from r_restart(2) show ?case
    by (cases rule: restart_locked_cases; intro refs_wf_frame [OF r_restart(4)])
       (use r r_restart(1) in \<open>auto split: if_splits\<close>)
next
  case (x_enter m c r now m' p)
  have r: "r < next_sess m"
    using refs_wf_call [OF x_enter(4), of c] x_enter(1) by simp
  show ?case
    by (rule refs_wf_frame [OF x_enter(4)])
       (use r x_enter(1) exec_enter_SomeD [OF x_enter(2)] in \<open>auto split: if_splits\<close>)
next
  case (x_enter_closed m c r now m')
  have r: "r < next_sess m"
    using refs_wf_call [OF x_enter_closed(4), of c] x_enter_closed(1) by simp
  show ?case
    by (rule refs_wf_frame [OF x_enter_closed(4)])
       (use r exec_enter_NoneD [OF x_enter_closed(2)] in \<open>auto split: if_splits\<close>)
qed ((rule refs_wf_set_call, assumption, simp_all add: set_owner_def exec_leave_def; fail)
     | (rule refs_wf_frame, assumption, simp_all; fail))+

text \<open>Taking and releasing \<open>execMu\<close>.\<close>

lemma lock_wf_acquire:
  assumes "lock_wf m" and "exec_owner (sess_heap m r) = None" and "holds_lock (calls m c) = None"
    and "holds_lock pc = Some r"
  shows "lock_wf (set_call c pc (set_owner r (Some c) m))"
proof -
  have "holds_lock (calls m d) \<noteq> Some r" "exec_owner (sess_heap m q) \<noteq> Some c" for d q
    using assms(1-3) unfolding lock_wf_def by (metis option.distinct(1))+
  then show ?thesis
    using assms unfolding lock_wf_def set_owner_def by auto
qed

lemma lock_wf_release:
  assumes "lock_wf m" and "holds_lock (calls m c) = Some r" and "holds_lock pc = None"
  shows "lock_wf (set_call c pc (set_owner r None m))"
proof -
  have "exec_owner (sess_heap m q) = Some d \<longleftrightarrow> holds_lock (calls m d) = Some q" for d q
    using assms(1) by (simp add: lock_wf_def)
  then have "holds_lock (calls m d) = Some r \<longleftrightarrow> d = c" "exec_owner (sess_heap m q) = Some c \<longleftrightarrow> q = r" for d q
    using assms(2) by (metis option.inject)+
  then show ?thesis
    using assms unfolding lock_wf_def set_owner_def by auto
qed

lemma lock_wf_step:
  "pool_step entropy js fmt m m' \<Longrightarrow> refs_wf m \<Longrightarrow> lock_wf m \<Longrightarrow> lock_wf m'"
proof (induction rule: pool_step.induct)
  case (s_create m ok now)
  have "exec_owner (sess_heap m (next_sess m)) = None"
    using s_create(1) by (simp add: refs_wf_def empty_session_def)
  then show ?case
    by (cases rule: create_session_cases [of entropy ok now m];
        intro lock_wf_frame [OF s_create(2)]) simp_all
next
  case (s_delete m sid)
  then show ?case
    by (cases rule: delete_session_cases [of sid m]; intro lock_wf_frame [OF s_delete(2)]) simp_all
next
  case (s_reap sid m)
  then show ?case
    by (cases rule: delete_session_cases [of sid m]; intro lock_wf_frame [OF s_reap(3)]) simp_all
next
  case (x_restart m c r f ok now m' restarted ms)
  from x_restart(2) show ?case
    by (cases rule: restart_locked_cases; intro lock_wf_frame [OF x_restart(4)])
       (use x_restart(1) in simp_all)
next
  case (r_restart m c r ok now m' restarted)
  from r_restart(2) show ?case
    by (cases rule: restart_locked_cases; intro lock_wf_frame [OF r_restart(4)])
       (use r_restart(1) in simp_all)
next
  case (x_enter m c r now m' p)
  show ?case
    by (rule lock_wf_frame [OF x_enter(4)])
       (use x_enter(1) exec_enter_SomeD [OF x_enter(2)] in simp_all)
next
  case (x_enter_closed m c r now m')
  show ?case
    by (rule lock_wf_frame [OF x_enter_closed(4)])
       (use x_enter_closed(1) exec_enter_NoneD [OF x_enter_closed(2)] in simp_all)
qed ((rule lock_wf_acquire, assumption, assumption, simp_all; fail)
     | (rule lock_wf_release, assumption, simp_all; fail)
     | (rule lock_wf_frame, assumption, simp_all add: exec_leave_def kill_all_sessions_def; fail))+

text \<open>At most one call executes in a session, and it holds the lock.\<close>

lemma executes_unique:
  assumes "lock_wf m" and "executes (calls m c) = Some r" and "executes (calls m d) = Some r"
  shows "c = d"
  using assms executes_holds unfolding lock_wf_def by (metis option.inject)

lemma busy_wf_step:
  "pool_step entropy js fmt m m' \<Longrightarrow> refs_wf m \<Longrightarrow> lock_wf m \<Longrightarrow> busy_wf m \<Longrightarrow> busy_wf m'"
proof (induction rule: pool_step.induct)
  case (s_create m ok now)
  have "\<not> busy (sess_heap m (next_sess m))"
    using s_create(1) by (simp add: refs_wf_def empty_session_def)
  then show ?case
    by (cases rule: create_session_cases [of entropy ok now m];
        intro busy_wf_frame [OF s_create(3)]) simp_all
next
  case (s_delete m sid)
  then show ?case
    by (cases rule: delete_session_cases [of sid m]; intro busy_wf_frame [OF s_delete(3)]) simp_all
next
  case (s_reap sid m)
  then show ?case
    by (cases rule: delete_session_cases [of sid m]; intro busy_wf_frame [OF s_reap(4)]) simp_all
next
  case (x_restart m c r f ok now m' restarted ms)
  from x_restart(2) show ?case
    by (cases rule: restart_locked_cases; intro busy_wf_frame [OF x_restart(5)])
       (use x_restart(1) in simp_all)
next
  case (r_restart m c r ok now m' restarted)
  from r_restart(2) show ?case
    by (cases rule: restart_locked_cases; intro busy_wf_frame [OF r_restart(5)])
       (use r_restart(1) in simp_all)
next
  case (x_enter m c r now m' p)
  have "executes (calls m c) = None"
    using x_enter(1) by simp
  then show ?case
    using x_enter(5) exec_enter_SomeD [OF x_enter(2)] unfolding busy_wf_def
    by (auto split: if_splits) (metis option.distinct(1))+
next
  case (x_enter_closed m c r now m')
  show ?case
    by (rule busy_wf_frame [OF x_enter_closed(5)])
       (use x_enter_closed(1) exec_enter_NoneD [OF x_enter_closed(2)] in simp_all)
next
  case (x_leave m c r out now)
  have "executes (calls m d) = Some r \<longleftrightarrow> d = c" for d
    using executes_unique [OF x_leave(3), of d r c] x_leave(1) by auto
  then show ?case
    using x_leave(1,4) unfolding busy_wf_def exec_leave_def
    by (auto split: if_splits) (metis option.inject)+
qed (rule busy_wf_frame, assumption, simp_all add: set_owner_def kill_all_sessions_def; fail)+

lemma sess_procs_wf_frame:
  assumes "sess_procs_wf m" and "pnext m' = pnext m" "to_end m' = to_end m"
    and "\<And>r. process (sess_heap m' r) = process (sess_heap m r)"
    and "\<And>p. pprocs m' p = Alive \<Longrightarrow> pprocs m p = Alive"
  shows "sess_procs_wf m'"
  using assms by (simp add: sess_procs_wf_def)

lemma sess_procs_wf_step:
  "pool_step entropy js fmt m m' \<Longrightarrow> refs_wf m \<Longrightarrow> sess_procs_wf m \<Longrightarrow> sess_procs_wf m'"
proof (induction rule: pool_step.induct)
  case (s_create m ok now)
  have "process (sess_heap m (next_sess m)) = None"
    using s_create(1) by (simp add: refs_wf_def empty_session_def)
  then show ?case
    by (cases rule: create_session_cases [of entropy ok now m])
       (use s_create(2) in \<open>auto simp: sess_procs_wf_def less_Suc_eq split: if_splits\<close>,
        metis option.distinct(1))
next
  case (s_delete m sid)
  then show ?case
    by (cases rule: delete_session_cases [of sid m]) (simp_all add: sess_procs_wf_def)
next
  case (s_reap sid m)
  then show ?case
    by (cases rule: delete_session_cases [of sid m]) (simp_all add: sess_procs_wf_def)
next
  case (x_restart m c r f ok now m' restarted ms)
  from x_restart(2) show ?case
    by (cases rule: restart_locked_cases)
       (use x_restart(4) in \<open>auto simp: sess_procs_wf_def less_Suc_eq split: if_splits\<close>)
next
  case (r_restart m c r ok now m' restarted)
  from r_restart(2) show ?case
    by (cases rule: restart_locked_cases)
       (use r_restart(4) in \<open>auto simp: sess_procs_wf_def less_Suc_eq split: if_splits\<close>)
next
  case (x_enter m c r now m' p)
  then show ?case
    using exec_enter_SomeD [OF x_enter(2)] by (intro sess_procs_wf_frame [OF x_enter(4)]) auto
next
  case (x_enter_closed m c r now m')
  then show ?case
    using exec_enter_NoneD [OF x_enter_closed(2)] by (auto simp: sess_procs_wf_def)
next
  case (s_abort r m)
  then show ?case
    by (auto simp: sess_procs_wf_def abort_session_def Let_def split: if_splits)
next
  case (s_end p m)
  then show ?case
    by (auto simp: sess_procs_wf_def)
qed (rule sess_procs_wf_frame, assumption,
     simp_all add: set_owner_def exec_leave_def kill_all_sessions_def split: if_splits; fail)+

definition pool_inv :: "entropy \<Rightarrow> pool \<Rightarrow> bool" where
  "pool_inv entropy m \<longleftrightarrow> good_entropy entropy \<and> sess_map_wf entropy m \<and> refs_wf m \<and> closed_wf m \<and>
     sess_procs_wf m \<and> lock_wf m \<and> busy_wf m"

lemmas pool_inv_steps =
  sess_map_wf_step refs_wf_step closed_wf_step sess_procs_wf_step lock_wf_step busy_wf_step

interpretation sp: rel_invariant "pool_step entropy js fmt" "pool_inv entropy" for entropy js fmt
  by unfold_locales (auto simp: pool_inv_def intro: pool_inv_steps)

lemma pool_inv_init: "good_entropy entropy \<Longrightarrow> pool_inv entropy (new_session_manager n idle)"
  by (simp add: pool_inv_def sess_map_wf_def refs_wf_def closed_wf_def sess_procs_wf_def lock_wf_def
      busy_wf_def new_session_manager_def empty_session_def)

lemma pool_reachable:
  "good_entropy entropy \<Longrightarrow> (pool_step entropy js fmt)\<^sup>*\<^sup>* (new_session_manager n idle) m \<Longrightarrow>
    pool_inv entropy m"
  by (rule sp.steps_inv [OF _ pool_inv_init])

lemma pool_step_limits: "pool_step entropy js fmt m m' \<Longrightarrow> max_open m' = max_open m"
proof (induction rule: pool_step.induct)
  case (s_create m ok now)
  show ?case
    by (cases rule: create_session_cases [of entropy ok now m]) simp_all
next
  case (s_delete m sid)
  show ?case
    by (cases rule: delete_session_cases [of sid m]) simp_all
next
  case (s_reap sid m)
  show ?case
    by (cases rule: delete_session_cases [of sid m]) simp_all
next
  case (x_restart m c r f ok now m' restarted ms)
  from x_restart(2) show ?case
    by (cases rule: restart_locked_cases) simp_all
next
  case (r_restart m c r ok now m' restarted)
  from r_restart(2) show ?case
    by (cases rule: restart_locked_cases) simp_all
qed (auto simp: kill_all_sessions_def set_owner_def exec_leave_def
      dest!: exec_enter_NoneD exec_enter_SomeD)

text \<open>
  there are never more open sessions than \<open>maxSessions\<close>, under every interleaving of
  creations, deletions, the reaper, the kill switch and commands.
\<close>

theorem session_limit_holds:
  assumes "good_entropy entropy" and "0 \<le> n"
    and "(pool_step entropy js fmt)\<^sup>*\<^sup>* (new_session_manager n idle) m"
  shows "int (session_count m) \<le> n"
proof -
  have inv: "pool_inv entropy (new_session_manager n idle)"
    using assms(1) by (rule pool_inv_init)
  have "max_open m = n"
    by (rule sp.steps_stable [where Q = "\<lambda>u. max_open u = n", OF assms(3) inv])
       (simp_all add: new_session_manager_def pool_step_limits)
  moreover have "sess_map_wf entropy m"
    using pool_reachable [OF assms(1,3)] by (simp add: pool_inv_def)
  ultimately show ?thesis
    using assms(2) by (simp add: sess_map_wf_def session_count_def)
qed

text \<open>One created session, and a JSON library, for the witnesses.\<close>

definition any_json :: json_lib where
  "any_json = \<lparr>json_valid = (\<lambda>_. True), json_strings = concat\<rparr>"

definition one_session :: pool where
  "one_session = fst (create_session counting_entropy True 1 (new_session_manager 5 10))"

lemma one_session_reachable:
  "(pool_step counting_entropy js fmt)\<^sup>*\<^sup>* (new_session_manager 5 10) one_session"
  unfolding one_session_def by (rule r_into_rtranclp) (rule s_create)

lemma one_session_simps:
  "sess_map one_session = [(zero_id, 0)]" "next_sess one_session = 1"
  "sess_heap one_session 0 = \<lparr>sess_id = zero_id, sess_created = 1, last_used = 1, busy = False,
     sess_closed = False, process = Some 0, exec_owner = None\<rparr>"
  "calls one_session = (\<lambda>_. No_Call)" "reaping one_session = {}" "aborting one_session = {}"
  "idle_limit one_session = 10" "to_end one_session = {}" "pprocs one_session 0 = Alive"
  by (simp_all add: one_session_def create_session_def new_session_manager_def random_zero_id
      start_child_proc_def Let_def)

theorem session_limit_holds_witness: "int (session_count one_session) \<le> 5"
  by (rule session_limit_holds [where js = any_json and fmt = "\<lambda>_. format_lines" and idle = 10,
        OF counting_entropy_good _ one_session_reachable]) simp

text \<open>
  C24: once every session has been removed and its abort carried out, no session process is
  alive, even if commands or restarts were in progress at the time.
\<close>

theorem removed_sessions_leave_no_process:
  assumes "good_entropy entropy"
    and "(pool_step entropy js fmt)\<^sup>*\<^sup>* (new_session_manager n idle) m"
    and "sess_map m = []" and "aborting m = {}" and "to_end m = {}"
  shows "pprocs m p \<noteq> Alive"
proof
  assume "pprocs m p = Alive"
  moreover have inv: "closed_wf m" "sess_procs_wf m" "refs_wf m"
    using pool_reachable [OF assms(1,2)] by (simp_all add: pool_inv_def)
  ultimately obtain r where r: "process (sess_heap m r) = Some p"
    using assms(5) unfolding sess_procs_wf_def by blast
  then have "r < next_sess m"
    using inv(3) unfolding refs_wf_def by (metis empty_session_def not_le option.distinct(1)
        session.select_convs(6))
  then have "sess_closed (sess_heap m r)"
    using inv(1) assms(3,4) by (auto simp: closed_wf_def)
  then show False
    using inv(1) r by (simp add: closed_wf_def)
qed

text \<open>The session is deleted, aborted, and its process ended.\<close>

definition one_session_deleted :: pool where
  "one_session_deleted = fst (delete_session zero_id one_session)"

definition one_session_aborted :: pool where
  "one_session_aborted = (abort_session 0 one_session_deleted)\<lparr>aborting := {}\<rparr>"

definition one_session_ended :: pool where
  "one_session_ended = (kill_pid 0 one_session_aborted)\<lparr>to_end := {}\<rparr>"

lemma one_session_aborted_reachable:
  "(pool_step counting_entropy js fmt)\<^sup>*\<^sup>* (new_session_manager 5 10) one_session_aborted"
proof -
  have "(pool_step counting_entropy js fmt)\<^sup>*\<^sup>* (new_session_manager 5 10) one_session_deleted"
    unfolding one_session_deleted_def
    by (rule rtranclp.rtrancl_into_rtrancl [OF one_session_reachable]) (rule s_delete)
  moreover have "aborting one_session_deleted = {0}"
    by (simp add: one_session_deleted_def delete_session_def one_session_simps mget_Cons)
  ultimately show ?thesis
    using s_abort [of 0 one_session_deleted counting_entropy js fmt]
    unfolding one_session_aborted_def by (simp add: rtranclp.rtrancl_into_rtrancl)
qed

lemma one_session_aborted_simps:
  "sess_map one_session_aborted = []" "aborting one_session_aborted = {}" "to_end one_session_aborted = {0}"
  "pprocs one_session_aborted 0 = Alive"
  by (simp_all add: one_session_aborted_def one_session_deleted_def abort_session_def delete_session_def
      one_session_simps mget_Cons mdel_def Let_def)

lemma one_session_ended_reachable:
  "(pool_step counting_entropy js fmt)\<^sup>*\<^sup>* (new_session_manager 5 10) one_session_ended"
  using s_end [of 0 one_session_aborted counting_entropy js fmt] one_session_aborted_simps(3)
  unfolding one_session_ended_def
  by (simp add: rtranclp.rtrancl_into_rtrancl [OF one_session_aborted_reachable])

theorem removed_sessions_leave_no_process_witness:
  "pprocs one_session 0 = Alive \<and> pprocs one_session_aborted 0 = Alive \<and> pprocs one_session_ended 0 \<noteq> Alive"
proof -
  have "sess_map one_session_ended = []" "aborting one_session_ended = {}" "to_end one_session_ended = {}"
    by (simp_all add: one_session_ended_def one_session_aborted_simps)
  from removed_sessions_leave_no_process [where js = any_json and fmt = "\<lambda>_. format_lines" and p = 0,
      OF counting_entropy_good one_session_ended_reachable this]
  show ?thesis
    by (simp only: one_session_simps one_session_aborted_simps simp_thms)
qed

lemma closed_step:
  "pool_step entropy js fmt m m' \<Longrightarrow> refs_wf m \<Longrightarrow> sess_closed (sess_heap m r) \<Longrightarrow>
    sess_closed (sess_heap m' r)"
proof (induction rule: pool_step.induct)
  case (s_create m ok now)
  then have "r \<noteq> next_sess m"
    by (auto simp: refs_wf_def empty_session_def)
  then show ?case
    by (cases rule: create_session_cases [of entropy ok now m]) (use s_create in simp_all)
next
  case (s_delete m sid)
  then show ?case
    by (cases rule: delete_session_cases [of sid m]) simp_all
next
  case (s_reap sid m)
  then show ?case
    by (cases rule: delete_session_cases [of sid m]) simp_all
next
  case (x_restart m c k f ok now m' restarted ms)
  from x_restart(2) show ?case
    by (cases rule: restart_locked_cases) (use x_restart(4) in auto)
next
  case (r_restart m c k ok now m' restarted)
  from r_restart(2) show ?case
    by (cases rule: restart_locked_cases) (use r_restart(4) in auto)
qed (auto simp: kill_all_sessions_def set_owner_def exec_leave_def abort_session_def Let_def
      dest!: exec_enter_NoneD exec_enter_SomeD)

text \<open>
  a session that was deleted, reaped or killed stays closed and never has a process again:
  a command or a restart that was waiting for it finds no session.
\<close>

theorem closed_session_is_final:
  assumes "good_entropy entropy"
    and "(pool_step entropy js fmt)\<^sup>*\<^sup>* (new_session_manager n idle) m"
    and "sess_closed (sess_heap m r)"
    and "(pool_step entropy js fmt)\<^sup>*\<^sup>* m m'"
  shows "sess_closed (sess_heap m' r) \<and> process (sess_heap m' r) = None \<and>
    exec_enter now r m' = (m', None) \<and> restart_locked ok now r m' = (m', False)"
proof -
  have inv: "pool_inv entropy m"
    by (rule pool_reachable [OF assms(1,2)])
  have c: "sess_closed (sess_heap m' r)"
    by (rule sp.steps_stable [where Q = "\<lambda>u. sess_closed (sess_heap u r)", OF assms(4) inv assms(3)])
       (auto simp: pool_inv_def intro: closed_step)
  moreover have "closed_wf m'"
    using sp.steps_inv [OF assms(4) inv] by (simp add: pool_inv_def)
  ultimately show ?thesis
    by (simp add: closed_wf_def exec_enter_def restart_locked_def)
qed

theorem closed_session_is_final_witness:
  "restart_locked True 9 0 one_session_aborted = (one_session_aborted, False)"
proof -
  have "sess_closed (sess_heap one_session_aborted 0)"
    by (simp add: one_session_aborted_def one_session_deleted_def abort_session_def
        delete_session_def one_session_simps mget_Cons Let_def)
  from closed_session_is_final [where js = any_json and fmt = "\<lambda>_. format_lines" and now = 9
      and ok = True, OF counting_entropy_good one_session_aborted_reachable this
      rtranclp.rtrancl_refl]
  show ?thesis by simp
qed

text \<open>
  C23: the commands of one session are serialised: in every reachable state at most one call
  is executing in a session, the session says it is busy exactly while one is, and the call
  that executes holds the session's lock.
\<close>

theorem session_commands_are_serialised:
  assumes "good_entropy entropy"
    and "(pool_step entropy js fmt)\<^sup>*\<^sup>* (new_session_manager n idle) m"
  shows "card {c. executes (calls m c) = Some r} = (if busy (sess_heap m r) then 1 else 0) \<and>
    {c. executes (calls m c) = Some r} \<subseteq> {c. exec_owner (sess_heap m r) = Some c}"
proof -
  have inv: "lock_wf m" "busy_wf m"
    using pool_reachable [OF assms] by (simp_all add: pool_inv_def)
  have "{c. executes (calls m c) = Some r} \<subseteq> {c. exec_owner (sess_heap m r) = Some c}"
    using inv(1) executes_holds by (auto simp: lock_wf_def)
  moreover have "card {c. executes (calls m c) = Some r} = (if busy (sess_heap m r) then 1 else 0)"
  proof (cases "busy (sess_heap m r)")
    case True
    then obtain c where "executes (calls m c) = Some r"
      using inv(2) by (auto simp: busy_wf_def)
    then have "{c. executes (calls m c) = Some r} = {c}"
      using executes_unique [OF inv(1)] by auto
    then show ?thesis
      using True by simp
  next
    case False
    then have "{c. executes (calls m c) = Some r} = {}"
      using inv(2) by (auto simp: busy_wf_def)
    then show ?thesis
      using False by simp
  qed
  ultimately show ?thesis
    by blast
qed

text \<open>A call executes while a second one waits for the lock.\<close>

lemma one_session_busy:
  "\<exists>m. (pool_step counting_entropy js fmt)\<^sup>*\<^sup>* (new_session_manager 5 10) m \<and>
     calls m 0 = X_Write 0 0 \<and> calls m 1 = X_Lock 0 \<and> busy (sess_heap m 0)"
proof -
  note step = rtranclp.rtrancl_into_rtrancl [of "pool_step counting_entropy js fmt"]
  note 1 = step [OF one_session_reachable x_call [of _ 0 0]]
  note 2 = step [OF 1 x_lock [of _ 0 0]]
  note 3 = step [OF 2 x_enter [of _ 0 0 9]]
  note 4 = step [OF 3 x_call [of _ 1 0]]
  show ?thesis
    by (rule exI, rule conjI, rule 4) (auto simp: one_session_simps set_owner_def exec_enter_def Let_def)
qed

theorem session_commands_are_serialised_witness:
  "\<exists>m :: pool. calls m 0 = X_Write 0 0 \<and> calls m 1 = X_Lock 0 \<and> card {c. executes (calls m c) = Some 0} = 1"
proof -
  obtain m where m: "(pool_step counting_entropy any_json (\<lambda>_. format_lines))\<^sup>*\<^sup>* (new_session_manager 5 10) m"
      "calls m 0 = X_Write 0 0" "calls m 1 = X_Lock 0" "busy (sess_heap m 0)"
    using one_session_busy by blast
  show ?thesis
    using session_commands_are_serialised [OF counting_entropy_good m(1), of 0] m(2-4)
    by (intro exI [of _ m]) simp
qed

subsection \<open>The reaper\<close>

text \<open>
  the reaper selects exactly the open sessions that are not busy and were last used more
  than the idle timeout ago.
\<close>

theorem reaper_selects_idle_sessions:
  assumes "mok (sess_map m)" and "0 \<le> idle_limit m"
  shows "sid \<in> set (reap_collect now m) \<longleftrightarrow>
    (\<exists>r. get_session sid m = Inr r \<and> \<not> busy (sess_heap m r) \<and>
       idle_limit m < time_sub now (last_used (sess_heap m r)))"
proof -
  have "sid \<in> set (reap_collect now m) \<longleftrightarrow>
      (\<exists>r. mget (sess_map m) sid = Some r \<and> idle_limit m < idle_for now (sess_heap m r))"
    using assms(1) by (force simp: reap_collect_def mget_eq_Some)
  moreover have "get_session sid m = Inr r \<longleftrightarrow> mget (sess_map m) sid = Some r" for r
    by (simp add: get_session_def split: option.split)
  ultimately show ?thesis
    using assms(2) by (auto simp: idle_for_def)
qed

theorem reaper_selects_idle_sessions_witness: "zero_id \<in> set (reap_collect 99 one_session)"
proof -
  have "mok (sess_map one_session)" "0 \<le> idle_limit one_session"
    by (simp_all add: one_session_simps mok_def)
  from reaper_selects_idle_sessions [OF this, of zero_id 99] show ?thesis
    by (simp add: one_session_simps get_session_def mget_Cons time_sub_def)
qed

text \<open>
  the reaper can close a session while a command runs in it: it selects the session while
  it is idle and deletes it later without looking again, so a command that starts in between
  loses its session.
\<close>

theorem reaper_can_close_a_busy_session:
  "\<exists>m m' r c. (pool_step counting_entropy js fmt)\<^sup>*\<^sup>* (new_session_manager 5 10) m \<and>
     executes (calls m c) = Some r \<and> busy (sess_heap m r) \<and>
     last_used (sess_heap m r) = now \<and> reap_collect now m = [] \<and>
     (pool_step counting_entropy js fmt)\<^sup>*\<^sup>* m m' \<and>
     calls m' c = calls m c \<and> sess_closed (sess_heap m' r)"
proof -
  let ?step = "pool_step counting_entropy js fmt"
  note step = rtranclp.rtrancl_into_rtrancl [of ?step]
  note defs = one_session_simps set_owner_def exec_enter_def delete_session_def mget_Cons
  note 1 = step [OF one_session_reachable s_collect [of _ _ _ _ 99]]
  define m where "m = (one_session
    \<lparr>reaping := {zero_id},
     sess_heap := (sess_heap one_session)(0 := \<lparr>sess_id = zero_id, sess_created = 1,
       last_used = now, busy = True, sess_closed = False, process = Some 0, exec_owner = Some 0\<rparr>),
     calls := (\<lambda>_. No_Call)(0 := X_Write 0 0)\<rparr>)"
  have reap: "reap_collect 99 one_session = [zero_id]"
    by (simp add: reap_collect_def one_session_simps idle_for_def time_sub_def)
  have m: "?step\<^sup>*\<^sup>* (new_session_manager 5 10) m"
  proof -
    let ?a = "one_session\<lparr>reaping := {zero_id}\<rparr>"
    have a: "?step\<^sup>*\<^sup>* (new_session_manager 5 10) ?a"
      using 1 reap by (simp add: one_session_simps)
    have b: "?step\<^sup>*\<^sup>* (new_session_manager 5 10) (set_call 0 (X_Lock 0) ?a)"
      by (rule step [OF a x_call]) (simp_all add: one_session_simps)
    have c: "?step\<^sup>*\<^sup>* (new_session_manager 5 10)
        (set_call 0 (X_Enter 0) (set_owner 0 (Some 0) (set_call 0 (X_Lock 0) ?a)))"
      by (rule step [OF b x_lock]) (simp_all add: one_session_simps)
    have "?step\<^sup>*\<^sup>* (new_session_manager 5 10) (set_call 0 (X_Write 0 0)
        (fst (exec_enter now 0 (set_call 0 (X_Enter 0) (set_owner 0 (Some 0) (set_call 0 (X_Lock 0) ?a))))))"
      by (rule step [OF c x_enter]) (simp_all add: defs)
    then show ?thesis
      by (simp add: defs m_def)
  qed
  let ?d = "(fst (delete_session zero_id m))\<lparr>reaping := {}\<rparr>"
  let ?e = "(abort_session 0 ?d)\<lparr>aborting := {}\<rparr>"
  have "?step m ?d"
    using s_reap [of zero_id m counting_entropy js fmt] by (simp add: m_def)
  moreover have "?step ?d ?e"
    using s_abort [of 0 ?d counting_entropy js fmt] by (simp add: m_def defs)
  ultimately have e: "?step\<^sup>*\<^sup>* m ?e"
    by (meson converse_rtranclp_into_rtranclp r_into_rtranclp)
  show ?thesis
    by (rule exI [of _ m], rule exI [of _ ?e], rule exI [of _ 0], rule exI [of _ 0])
       (use m e in \<open>simp add: m_def reap_collect_def idle_for_def defs abort_session_def Let_def\<close>)
qed

subsection \<open>A lock is always released\<close>

text \<open>How far a call that holds \<open>execMu\<close> is from releasing it.\<close>

fun lock_rank :: "call_pc \<Rightarrow> nat" where
  "lock_rank (X_Enter r) = 6"
| "lock_rank (X_Write r p) = 5"
| "lock_rank (X_Wait r p) = 4"
| "lock_rank (X_Restart r f) = 3"
| "lock_rank (X_Leave r out) = 2"
| "lock_rank (X_Unlock r out) = 1"
| "lock_rank (R_Restart r) = 2"
| "lock_rank (R_Unlock r b) = 1"
| "lock_rank _ = 0"

text \<open>A step of one call alone: the manager's maps, the other calls and the aborts stay.\<close>

definition lone_call :: "call_id \<Rightarrow> pool \<Rightarrow> pool \<Rightarrow> bool" where
  "lone_call c m m' \<longleftrightarrow>
     (\<forall>d. d \<noteq> c \<longrightarrow> calls m' d = calls m d) \<and> sess_map m' = sess_map m \<and> next_sess m' = next_sess m \<and>
     pdraws m' = pdraws m \<and> reaping m' = reaping m \<and> aborting m' = aborting m"

lemma lone_call_simps [simp]:
  "lone_call c m (set_call c pc u) \<longleftrightarrow> lone_call c m u"
  "lone_call c m m" "lone_call c m (kill_pid p m)" "lone_call c m (set_owner r oc m)"
  "lone_call c m (exec_leave now r m)"
  by (auto simp: lone_call_def set_owner_def exec_leave_def)

lemma lone_enter: "exec_enter now r m = (m', res) \<Longrightarrow> lone_call c m m'"
  by (auto simp: exec_enter_def lone_call_def Let_def split: if_splits)

lemma lone_restart: "restart_locked ok now r m = (m', b) \<Longrightarrow> lone_call c m m'"
  by (erule restart_locked_cases) (auto simp: lone_call_def)

lemma holder_can_move:
  assumes "holds_lock (calls m c) = Some r"
  shows "\<exists>m'. pool_step entropy js fmt m m' \<and> lock_rank (calls m' c) < lock_rank (calls m c) \<and>
    (holds_lock (calls m' c) = Some r \<or> exec_owner (sess_heap m' r) = None) \<and> lone_call c m m'"
proof (cases "calls m c")
  case (X_Enter k)
  obtain m1 res where e: "exec_enter 0 k m = (m1, res)"
    by fastforce
  show ?thesis
  proof (cases res)
    case None
    with x_enter_closed [OF X_Enter, of 0 m1 entropy js fmt] e X_Enter assms lone_enter [OF e] show ?thesis
      by force
  next
    case (Some p)
    with x_enter [OF X_Enter, of 0 m1 p entropy js fmt] e X_Enter assms lone_enter [OF e] show ?thesis
      by force
  qed
next
  case (X_Write k p)
  from x_no_id [OF this, of entropy js fmt] X_Write assms show ?thesis by force
next
  case (X_Wait k p)
  from x_expired [OF this, of entropy js fmt] X_Wait assms show ?thesis
    by (intro exI [of _ "set_call c (X_Restart k Fail_Timeout) (kill_pid p m)"]) (simp add: lone_call_def)
next
  case (X_Restart k f)
  obtain m1 b where e: "restart_locked True 0 k m = (m1, b)"
    by fastforce
  from x_restart [OF X_Restart e, of entropy js fmt] X_Restart assms lone_restart [OF e] show ?thesis
    by force
next
  case (X_Leave k out)
  from x_leave [OF this, of entropy js fmt] X_Leave assms show ?thesis by force
next
  case (X_Unlock k out)
  from x_unlock [OF this, of entropy js fmt] X_Unlock assms show ?thesis
    by (force simp: set_owner_def lone_call_def)
next
  case (R_Restart k)
  obtain m1 b where e: "restart_locked True 0 k m = (m1, b)"
    by fastforce
  from r_restart [OF R_Restart e, of entropy js fmt] R_Restart assms lone_restart [OF e] show ?thesis
    by force
next
  case (R_Unlock k b)
  from r_unlock [OF this, of entropy js fmt] R_Unlock assms show ?thesis
    by (force simp: set_owner_def lone_call_def)
qed (use assms in simp_all)

lemma holder_releases:
  "holds_lock (calls m c) = Some r \<Longrightarrow>
    \<exists>m'. (pool_step entropy js fmt)\<^sup>*\<^sup>* m m' \<and> exec_owner (sess_heap m' r) = None"
proof (induction "lock_rank (calls m c)" arbitrary: m rule: less_induct)
  case less
  obtain m' where m': "pool_step entropy js fmt m m'" "lock_rank (calls m' c) < lock_rank (calls m c)"
    "holds_lock (calls m' c) = Some r \<or> exec_owner (sess_heap m' r) = None"
    using holder_can_move [OF less(2)] by blast
  show ?case
  proof (cases "holds_lock (calls m' c) = Some r")
    case True
    from less(1) [OF m'(2) True] m'(1) show ?thesis
      by (meson converse_rtranclp_into_rtranclp)
  next
    case False
    with m' show ?thesis
      by blast
  qed
qed

text \<open>
  no call can keep a session's lock for ever: from every reachable state there is a
  continuation in which the lock of the session is free, so calls that wait for it are never
  in a deadlock.
\<close>

theorem session_lock_is_released:
  assumes "good_entropy entropy"
    and "(pool_step entropy js fmt)\<^sup>*\<^sup>* (new_session_manager n idle) m"
  shows "\<exists>m'. (pool_step entropy js fmt)\<^sup>*\<^sup>* m m' \<and> exec_owner (sess_heap m' r) = None"
proof (cases "exec_owner (sess_heap m r)")
  case None
  then show ?thesis
    by blast
next
  case (Some c)
  moreover have "lock_wf m"
    using pool_reachable [OF assms] by (simp add: pool_inv_def)
  ultimately have "holds_lock (calls m c) = Some r"
    by (simp add: lock_wf_def)
  then show ?thesis
    by (rule holder_releases)
qed

theorem session_lock_is_released_witness:
  "\<exists>m'. (pool_step counting_entropy any_json (\<lambda>_. format_lines))\<^sup>*\<^sup>* one_session m' \<and>
     exec_owner (sess_heap m' 0) = None"
  by (rule session_lock_is_released [OF counting_entropy_good one_session_reachable])

subsection \<open>Results\<close>

definition session_result_ok :: "json_lib \<Rightarrow> string \<Rightarrow> outcome \<Rightarrow> bool" where
  "session_result_ok js f out \<longleftrightarrow>
     (case out of (res, err) \<Rightarrow>
        (case err of
           None \<Rightarrow> \<not> timed_out res \<and> \<not> session_restarted res \<and> json_valid js (exec_output res)
         | Some Timed_Out \<Rightarrow> timed_out res \<and> \<not> success res \<and> exit_code res = -1 \<and>
             format res = f \<and> exec_output res = ''null''
         | Some (Shell_Exited d) \<Rightarrow> \<not> timed_out res \<and> \<not> success res \<and> exit_code res = -1 \<and>
             format res = f \<and> exec_output res = ''null''
         | Some _ \<Rightarrow> res = empty_result))"

fun call_outcome :: "call_pc \<Rightarrow> outcome option" where
  "call_outcome (X_Leave r out) = Some out"
| "call_outcome (X_Unlock r out) = Some out"
| "call_outcome (X_Returned out) = Some out"
| "call_outcome _ = None"

definition call_outcomes_wf :: "json_lib \<Rightarrow> (call_id \<Rightarrow> string) \<Rightarrow> pool \<Rightarrow> bool" where
  "call_outcomes_wf js fmt m \<longleftrightarrow>
     (\<forall>c out. call_outcome (calls m c) = Some out \<longrightarrow> session_result_ok js (fmt c) out)"

lemma exec_failed_ok: "session_result_ok js f (exec_failed f ms k restarted)"
  by (simp add: session_result_ok_def exec_failed_def shell_exited_result_def empty_result_def
      split: exec_failure.split)

lemma call_outcomes_wfD:
  "call_outcomes_wf js fmt m \<Longrightarrow> call_outcome (calls m c) = Some out \<Longrightarrow>
    session_result_ok js (fmt c) out"
  unfolding call_outcomes_wf_def by blast

lemma call_outcomes_call:
  assumes "call_outcomes_wf js fmt m" and "calls u = calls m"
    and "\<And>out. call_outcome pc = Some out \<Longrightarrow>
          call_outcome (calls m c) = Some out \<or> session_result_ok js (fmt c) out"
  shows "call_outcomes_wf js fmt (set_call c pc u)"
  unfolding call_outcomes_wf_def
proof (intro allI impI)
  fix d out
  assume d: "call_outcome (calls (set_call c pc u) d) = Some out"
  show "session_result_ok js (fmt d) out"
  proof (cases "d = c")
    case True
    then show ?thesis
      using d assms(3) call_outcomes_wfD [OF assms(1), of c out] by fastforce
  next
    case False
    then show ?thesis
      using d assms(2) call_outcomes_wfD [OF assms(1), of d out] by simp
  qed
qed

lemma call_outcomes_same:
  "call_outcomes_wf js fmt m \<Longrightarrow> calls u = calls m \<Longrightarrow> call_outcomes_wf js fmt u"
  by (simp add: call_outcomes_wf_def)

lemma call_outcomes_step:
  assumes "json_valid js ''null''" and "\<And>xs. json_valid js (json_strings js xs)"
  shows "pool_step entropy js fmt m m' \<Longrightarrow> call_outcomes_wf js fmt m \<Longrightarrow> call_outcomes_wf js fmt m'"
proof (induction rule: pool_step.induct)
  case (s_create m ok now)
  then show ?case
    by (cases rule: create_session_cases [of entropy ok now m])
       (auto intro: call_outcomes_same)
next
  case (s_delete m sid)
  then show ?case
    by (cases rule: delete_session_cases [of sid m]) (auto intro: call_outcomes_same)
next
  case (s_reap sid m)
  then show ?case
    by (cases rule: delete_session_cases [of sid m]) (auto intro: call_outcomes_same)
next
  case (x_restart m c r f ok now m' restarted ms)
  from x_restart(2) have "calls m' = calls m"
    by (cases rule: restart_locked_cases) simp_all
  then show ?case
    using exec_failed_ok [of js "fmt c" ms f restarted]
    by (intro call_outcomes_call [OF x_restart(3)]) auto
next
  case (r_restart m c r ok now m' restarted)
  from r_restart(2) have "calls m' = calls m"
    by (cases rule: restart_locked_cases) simp_all
  then show ?case
    by (intro call_outcomes_call [OF r_restart(3)]) simp_all
next
  case (x_frame m c r p fr ms)
  show ?case
    by (rule call_outcomes_call [OF x_frame(2) refl])
       (use to_api_result_ok [of js, OF assms] in \<open>auto simp: session_result_ok_def\<close>)
next
  case (x_enter m c r now m' p)
  show ?case
    by (rule call_outcomes_call [OF x_enter(3)]) (use exec_enter_SomeD [OF x_enter(2)] in simp_all)
next
  case (x_enter_closed m c r now m')
  show ?case
    by (rule call_outcomes_call [OF x_enter_closed(3)])
       (use exec_enter_NoneD [OF x_enter_closed(2)] in \<open>auto simp: session_result_ok_def\<close>)
next
  case (x_no_id m c r p msg)
  show ?case
    by (rule call_outcomes_call [OF x_no_id(2) refl]) (auto simp: session_result_ok_def)
qed ((rule call_outcomes_call, assumption, simp_all add: set_owner_def exec_leave_def; fail)
     | (rule call_outcomes_same, assumption, simp add: kill_all_sessions_def; fail))+

text \<open>
  what \<open>Session.Exec\<close> returns is consistent: no error means an output that is valid JSON
  and no flags; a timeout or a dead process carries exit code -1, the requested format and a
  null output, with the timeout flag only for the timeout; any other error has no result.
\<close>

theorem session_results_consistent:
  assumes "json_valid js ''null''" and "\<And>xs. json_valid js (json_strings js xs)"
    and "(pool_step entropy js fmt)\<^sup>*\<^sup>* (new_session_manager n idle) m"
    and "calls m c = X_Returned out"
  shows "session_result_ok js (fmt c) out"
proof -
  have "call_outcomes_wf js fmt m"
    using assms(3)
  proof (induction rule: rtranclp_induct)
    case base
    then show ?case
      by (simp add: call_outcomes_wf_def new_session_manager_def)
  next
    case (step y z)
    then show ?case
      using call_outcomes_step [OF assms(1,2)] by blast
  qed
  then show ?thesis
    using assms(4) unfolding call_outcomes_wf_def by (metis call_outcome.simps(3))
qed

lemma call_after_abort:
  "\<exists>m. (pool_step counting_entropy js fmt)\<^sup>*\<^sup>* (new_session_manager 5 10) m \<and>
     calls m 0 = X_Returned (empty_result, Some Session_Not_Found)"
proof -
  note step = rtranclp.rtrancl_into_rtrancl [of "pool_step counting_entropy js fmt"]
  let ?m = one_session_aborted
  have m: "calls ?m = (\<lambda>_. No_Call)" "next_sess ?m = 1"
    "sess_closed (sess_heap ?m 0)" "exec_owner (sess_heap ?m 0) = None"
    by (simp_all add: one_session_aborted_def one_session_deleted_def abort_session_def
        delete_session_def one_session_simps mget_Cons Let_def)
  note 1 = step [OF one_session_aborted_reachable x_call [of _ 0 0]]
  note 2 = step [OF 1 x_lock [of _ 0 0]]
  note 3 = step [OF 2 x_enter_closed [of _ 0 0 9]]
  note 4 = step [OF 3 x_unlock [of _ 0 0]]
  show ?thesis
    by (rule exI, rule conjI, rule 4) (auto simp: m set_owner_def exec_enter_def)
qed

theorem session_results_consistent_witness:
  "session_result_ok any_json format_lines (empty_result, Some Session_Not_Found)"
proof -
  obtain m where "(pool_step counting_entropy any_json (\<lambda>_. format_lines))\<^sup>*\<^sup>*
      (new_session_manager 5 10) m" "calls m 0 = X_Returned (empty_result, Some Session_Not_Found)"
    using call_after_abort by blast
  from session_results_consistent [OF _ _ this] show ?thesis
    by (simp add: any_json_def)
qed

end
