(* ===== verification/Version.thy ===== *)
theory Version
  imports Security Frame
begin

section \<open>internal/updater/version.go: release versions\<close>

text \<open>
  Parsing and comparing the versions of the agent. The abstract value of a parsed version is
  a point of the lexicographic order on three numbers, an instance of \<open>linorder\<close>; the loop of
  \<open>newerVersion\<close> and \<open>versionsEqual\<close> are shown to decide \<open><\<close> and \<open>=\<close> of that order.
\<close>

subsection \<open>strconv.Atoi\<close>

text \<open>
  An optional sign and at least one decimal digit, within the range of a 64-bit \<open>int\<close>.
\<close>

definition is_digit :: "char \<Rightarrow> bool" where
  "is_digit c \<longleftrightarrow> 48 \<le> byte_val c \<and> byte_val c \<le> 57"

definition digits_value :: "string \<Rightarrow> nat" where
  "digits_value s = foldl (\<lambda>n c. 10 * n + (byte_val c - 48)) 0 s"

definition atoi :: "string \<Rightarrow> int option" where
  "atoi s =
     (let neg = has_prefix s ''-'';
          body = (if has_prefix s ''-'' \<or> has_prefix s ''+'' then tl s else s);
          n = (if neg then - int (digits_value body) else int (digits_value body))
      in if body = [] \<or> \<not> list_all is_digit body then None
         else if n < - (2 ^ 63) \<or> 2 ^ 63 \<le> n then None
         else Some n)"

subsection \<open>parseVersion, newerVersion, versionsEqual\<close>

datatype version_error = Not_Semantic | Not_Numeric

text \<open>The loop over the three parts.\<close>

fun parse_parts :: "string list \<Rightarrow> version_error + int list" where
  "parse_parts [] = Inr []"
| "parse_parts (p # ps) =
     (case atoi p of
        None \<Rightarrow> Inl Not_Numeric
      | Some n \<Rightarrow>
          if n < 0 then Inl Not_Numeric
          else (case parse_parts ps of Inl e \<Rightarrow> Inl e | Inr ns \<Rightarrow> Inr (n # ns)))"

definition parse_version :: "string \<Rightarrow> version_error + int list" where
  "parse_version value =
     (let value = trim_prefix (trim_space value) ''v'';
          value = (case index_byte value (CHR ''-'') of None \<Rightarrow> value | Some i \<Rightarrow> take i value);
          parts = split_byte (CHR ''.'') value
      in if length parts \<noteq> 3 then Inl Not_Semantic else parse_parts parts)"

text \<open>The loop that finds the first difference.\<close>

fun first_greater :: "int list \<Rightarrow> int list \<Rightarrow> bool" where
  "first_greater (n # ns) (c # cs) = (if n \<noteq> c then n > c else first_greater ns cs)"
| "first_greater _ _ = False"

datatype newer_error = Bad_Current version_error | Bad_Release version_error

definition newer_version :: "string \<Rightarrow> string \<Rightarrow> newer_error + bool" where
  "newer_version current candidate =
     (case parse_version current of
        Inl e \<Rightarrow> Inl (Bad_Current e)
      | Inr c \<Rightarrow>
          (case parse_version candidate of
             Inl e \<Rightarrow> Inl (Bad_Release e)
           | Inr n \<Rightarrow> Inr (first_greater n c)))"

definition versions_equal :: "string \<Rightarrow> string \<Rightarrow> bool" where
  "versions_equal a b =
     (case (parse_version a, parse_version b) of (Inr v, Inr w) \<Rightarrow> v = w | _ \<Rightarrow> False)"

subsection \<open>The order of versions\<close>

datatype version = Version (major: int) (minor: int) (patch: int)

instantiation version :: linorder
begin

definition less_version :: "version \<Rightarrow> version \<Rightarrow> bool" where
  "less_version v w \<longleftrightarrow>
     major v < major w \<or>
     major v = major w \<and> (minor v < minor w \<or> minor v = minor w \<and> patch v < patch w)"

definition less_eq_version :: "version \<Rightarrow> version \<Rightarrow> bool" where
  "less_eq_version v w \<longleftrightarrow> v < w \<or> v = w"

instance
  by intro_classes
     (auto simp: less_version_def less_eq_version_def intro: version.expand)

end

definition version_of :: "string \<Rightarrow> version option" where
  "version_of s =
     (case parse_version s of Inr [a, b, c] \<Rightarrow> Some (Version a b c) | _ \<Rightarrow> None)"

lemma parse_parts_length: "parse_parts ps = Inr ns \<Longrightarrow> length ns = length ps"
  by (induction ps arbitrary: ns) (auto split: option.splits if_splits sum.splits)

lemma parse_version_three:
  assumes "parse_version s = Inr ns"
  obtains a b c where "ns = [a, b, c]" "version_of s = Some (Version a b c)"
proof -
  have "length ns = 3"
    using assms parse_parts_length by (auto simp: parse_version_def Let_def split: if_splits)
  then obtain a b c where "ns = [a, b, c]"
    by (auto simp: numeral_3_eq_3 length_Suc_conv)
  with assms that show ?thesis
    by (simp add: version_of_def)
qed

lemma version_of_cases:
  obtains e where "parse_version s = Inl e" "version_of s = None"
  | v where "parse_version s = Inr [major v, minor v, patch v]" "version_of s = Some v"
proof (cases "parse_version s")
  case (Inl e)
  then show ?thesis
    using that(1) by (simp add: version_of_def)
next
  case (Inr ns)
  then show ?thesis
    using that(2) [of "Version _ _ _"] by (auto elim!: parse_version_three)
qed

lemma first_greater_less:
  "first_greater [major w, minor w, patch w] [major v, minor v, patch v] \<longleftrightarrow> v < w"
  by (auto simp: less_version_def)

lemma version_comparison:
  "newer_version current candidate =
     (case (version_of current, version_of candidate) of
        (Some v, Some w) \<Rightarrow> Inr (v < w)
      | (Some v, None) \<Rightarrow> Inl (Bad_Release (projl (parse_version candidate)))
      | (None, _) \<Rightarrow> Inl (Bad_Current (projl (parse_version current)))) \<and>
   (versions_equal current candidate \<longleftrightarrow>
     version_of current = version_of candidate \<and> version_of current \<noteq> None)"
proof -
  have "v = w \<longleftrightarrow> [major v, minor v, patch v] = [major w, minor w, patch w]" for v w
    by (cases v; cases w) auto
  then show ?thesis
    using first_greater_less
    by (cases current rule: version_of_cases; cases candidate rule: version_of_cases)
       (simp_all del: first_greater.simps add: newer_version_def versions_equal_def)
qed

text \<open>
  C32: comparing two strings that parse is comparing their versions in a linear order:
  \<open>newerVersion\<close> answers whether the candidate's version is strictly greater,
  \<open>versionsEqual\<close> whether they are equal; if either does not parse there is an error and
  no equality. So no version is newer than itself, and of two different versions exactly
  one is newer.
\<close>

theorem version_comparison_is_linear_order:
  "newer_version current candidate =
     (case (version_of current, version_of candidate) of
        (Some v, Some w) \<Rightarrow> Inr (v < w)
      | (Some v, None) \<Rightarrow> Inl (Bad_Release (projl (parse_version candidate)))
      | (None, _) \<Rightarrow> Inl (Bad_Current (projl (parse_version current)))) \<and>
   (versions_equal current candidate \<longleftrightarrow>
     version_of current = version_of candidate \<and> version_of current \<noteq> None)"
  by (rule version_comparison)

subsection \<open>Round trip\<close>

lemma decimal_is_digits: "list_all is_digit (decimal n) \<and> decimal n \<noteq> []"
proof (induction n rule: decimal.induct)
  case (1 n)
  have "is_digit (char_of (48 + k))" if "k < 10" for k :: nat
    using that by (simp add: is_digit_def byte_val_char_of)
  then show ?case
    using 1 by (subst (1 2) decimal.simps) auto
qed

lemma digits_value_append: "digits_value (s @ [c]) = 10 * digits_value s + (byte_val c - 48)"
  by (simp add: digits_value_def)

lemma digits_value_decimal: "digits_value (decimal n) = n"
proof (induction n rule: decimal.induct)
  case (1 n)
  have b: "byte_val (char_of (48 + k)) = 48 + k" if "k < 10" for k :: nat
    using that by (intro byte_val_char_of) simp
  show ?case
  proof (cases "n < 10")
    case True
    then show ?thesis
      by (subst decimal.simps) (simp add: digits_value_def b)
  next
    case False
    then show ?thesis
      using 1 b [of "n mod 10"] by (subst decimal.simps) (simp add: digits_value_append)
  qed
qed

lemma digit_not: "is_digit c \<Longrightarrow> c \<noteq> CHR ''.'' \<and> c \<noteq> CHR ''-'' \<and> c \<noteq> CHR ''+'' \<and> c \<noteq> CHR ''v''"
  by (auto simp: is_digit_def)

lemma atoi_decimal: "n < 2 ^ 63 \<Longrightarrow> atoi (decimal n) = Some (int n)"
proof -
  assume n: "n < 2 ^ 63"
  have d: "decimal n \<noteq> []" "list_all is_digit (decimal n)"
    using decimal_is_digits by blast+
  then have "is_digit (hd (decimal n))"
    by (cases "decimal n") simp_all
  then have "\<not> has_prefix (decimal n) ''-''" "\<not> has_prefix (decimal n) ''+''"
    using d(1) digit_not [of "CHR ''-''"] digit_not [of "CHR ''+''"] by (auto simp: has_prefix_iff)
  moreover have "int n < 2 ^ 63"
    using n by (metis of_nat_less_iff of_nat_numeral of_nat_power)
  ultimately show ?thesis
    using d by (simp add: atoi_def digits_value_decimal)
qed

definition version_text :: "nat \<Rightarrow> nat \<Rightarrow> nat \<Rightarrow> string" where
  "version_text a b c = join_with ''.'' [decimal a, decimal b, decimal c]"

lemma version_text_chars: "x \<in> set (version_text a b c) \<Longrightarrow> is_digit x \<or> x = CHR ''.''"
  using decimal_is_digits by (auto simp: version_text_def list_all_iff)

lemma version_text_split:
  "split_byte (CHR ''.'') (version_text a b c) = [decimal a, decimal b, decimal c]"
proof -
  have "CHR ''.'' \<notin> set (decimal n)" for n
    using decimal_is_digits [of n] digit_not by (auto simp: list_all_iff)
  then show ?thesis
    unfolding version_text_def by (intro split_join_byte) simp_all
qed

lemma index_byte_append: "c \<notin> set w \<Longrightarrow> index_byte (w @ c # s) c = Some (length w)"
  by (induction w) auto

lemma index_byte_absent: "c \<notin> set w \<Longrightarrow> index_byte w c = None"
  by (induction w) auto

lemma parse_version_text:
  assumes "a < 2 ^ 63" and "b < 2 ^ 63" and "c < 2 ^ 63"
    and "pre = [] \<or> pre = ''v''" and "suf = [] \<or> hd suf = CHR ''-'' \<and> set suf \<inter> space_bytes = {}"
  shows "parse_version (pre @ version_text a b c @ suf) = Inr [int a, int b, int c]"
proof -
  let ?t = "version_text a b c"
  have digit: "is_digit x \<Longrightarrow> x \<notin> space_bytes" for x
    by (auto simp: is_digit_def space_bytes_def space_runes_def)
  have "CHR ''v'' \<notin> space_bytes" "CHR ''.'' \<notin> space_bytes"
    by (simp_all add: space_bytes_def space_runes_def)
  then have "set pre \<inter> space_bytes = {}" "set ?t \<inter> space_bytes = {}" "set suf \<inter> space_bytes = {}"
    using assms(4,5) digit version_text_chars [of _ a b c] by auto
  then have "set (pre @ ?t @ suf) \<inter> space_bytes = {}"
    by (simp add: Int_Un_distrib2)
  then have trim: "trim_space (pre @ ?t @ suf) = pre @ ?t @ suf"
    by (rule trim_space_plain)
  have "?t \<noteq> []"
    using decimal_is_digits [of a] by (simp add: version_text_def)
  then have "hd (?t @ suf) \<in> set ?t"
    by simp
  then have "is_digit (hd (?t @ suf)) \<or> hd (?t @ suf) = CHR ''.''"
    by (rule version_text_chars)
  then have "hd (?t @ suf) \<noteq> CHR ''v''"
    by (auto simp: digit_not)
  then have "\<not> has_prefix (?t @ suf) ''v''"
    by (auto simp: has_prefix_iff)
  then have v: "trim_prefix (pre @ ?t @ suf) ''v'' = ?t @ suf"
    using assms(4) by (auto simp: trim_prefix_def has_prefix_def)
  have hyphen: "CHR ''-'' \<notin> set ?t"
    using version_text_chars [of "CHR ''-''" a b c] digit_not [of "CHR ''-''"] by auto
  have cut: "(case index_byte (?t @ suf) (CHR ''-'') of None \<Rightarrow> ?t @ suf | Some i \<Rightarrow> take i (?t @ suf)) = ?t"
  proof (cases suf)
    case Nil
    then show ?thesis
      using hyphen by (simp add: index_byte_absent)
  next
    case (Cons x s)
    then have "index_byte (?t @ suf) (CHR ''-'') = Some (length ?t)"
      using assms(5) hyphen by (simp add: index_byte_append)
    then show ?thesis
      by simp
  qed
  show ?thesis
    unfolding parse_version_def trim v Let_def cut
    using assms(1-3) by (simp add: version_text_split atoi_decimal)
qed

text \<open>
  a version written as three decimal numbers reads back as those numbers, with or without
  a leading v, and whatever follows a hyphen after them is ignored.
\<close>

theorem version_roundtrip:
  assumes "a < 2 ^ 63" and "b < 2 ^ 63" and "c < 2 ^ 63"
    and "pre = [] \<or> pre = ''v''" and "suf = [] \<or> hd suf = CHR ''-'' \<and> set suf \<inter> space_bytes = {}"
  shows "parse_version (pre @ version_text a b c @ suf) = Inr [int a, int b, int c]"
  using assms by (rule parse_version_text)

theorem version_roundtrip_witness: "parse_version ''v1.20.3-rc1'' = Inr [1, 20, 3]"
proof -
  have "''v'' @ version_text 1 20 3 @ ''-rc1'' = ''v1.20.3-rc1''"
    by (simp add: version_text_def decimal.simps char_of_def bit_0)
  moreover have "set ''-rc1'' \<inter> space_bytes = {}"
    by (simp add: space_bytes_def space_runes_def)
  ultimately show ?thesis
    using version_roundtrip [of 1 20 3 "''v''" "''-rc1''"] by simp
qed

end
