(* ===== verification/Go_Os.thy ===== *)
theory Go_Os
  imports WLM_Prelude
begin

section \<open>Files, paths and calendar time of the Go standard library\<close>

text \<open>
  What the program uses of \<open>os\<close>, \<open>path/filepath\<close> and of the formats of \<open>time\<close>.
  The disk is a map from paths to contents; whether a system call fails is an argument of the
  operation, chosen by the environment. The functions of \<open>filepath\<close> depend on the operating
  system's path syntax and are parameters.
\<close>

subsection \<open>Files\<close>

type_synonym files = "string \<Rightarrow> string option"

definition rename_file :: "bool \<Rightarrow> string \<Rightarrow> string \<Rightarrow> files \<Rightarrow> files option" where
  "rename_file ok a b fs = (if ok \<and> fs a \<noteq> None then Some (fs(a := None, b := fs a)) else None)"

definition remove_file :: "bool \<Rightarrow> string \<Rightarrow> files \<Rightarrow> files" where
  "remove_file ok a fs = (if ok then fs(a := None) else fs)"

text \<open>What \<open>os.Stat\<close> answers: it exists, \<open>IsNotExist\<close>, or another error.\<close>

datatype stat_answer = Stat_Exists | Stat_Missing | Stat_Error

text \<open>
  \<open>os.OpenFile\<close> with \<open>O_CREATE\<close> for writing: \<open>O_EXCL\<close> fails on an existing file,
  \<open>O_TRUNC\<close> empties it, otherwise its content stays.
\<close>

datatype open_mode = Open_Excl | Open_Trunc | Open_Keep

definition open_create :: "bool \<Rightarrow> open_mode \<Rightarrow> string \<Rightarrow> files \<Rightarrow> files option" where
  "open_create ok mode a fs =
     (if \<not> ok then None
      else case fs a of
             None \<Rightarrow> Some (fs(a := Some []))
           | Some c \<Rightarrow>
               (case mode of Open_Excl \<Rightarrow> None
                | Open_Trunc \<Rightarrow> Some (fs(a := Some []))
                | Open_Keep \<Rightarrow> Some fs))"

definition append_file :: "string \<Rightarrow> string \<Rightarrow> files \<Rightarrow> files" where
  "append_file a t fs = fs(a := Some ((case fs a of None \<Rightarrow> [] | Some c \<Rightarrow> c) @ t))"

record path_lib =
  path_dir :: "string \<Rightarrow> string"
  path_join :: "string list \<Rightarrow> string"

lemma open_create_other:
  "open_create ok mode a fs = Some fs' \<Longrightarrow> b \<noteq> a \<Longrightarrow> fs' b = fs b"
  by (cases ok; cases "fs a"; cases mode) (auto simp: open_create_def)

lemma open_excl_new:
  "open_create ok Open_Excl a fs = Some fs' \<Longrightarrow> fs a = None \<and> fs' = fs(a := Some [])"
  by (cases ok; cases "fs a") (auto simp: open_create_def)

lemma open_keep_content:
  "open_create ok Open_Keep a fs = Some fs' \<Longrightarrow>
     fs' = fs(a := Some (case fs a of None \<Rightarrow> [] | Some c \<Rightarrow> c))"
  by (cases ok; cases "fs a") (auto simp: open_create_def fun_eq_iff)

subsection \<open>Calendar time\<close>

text \<open>
  A \<open>timestamp\<close> counts nanoseconds from midnight of 1 January of year 1, UTC. The civil date
  of a day number in the Gregorian calendar, by cycles of 400, 100, 4 and 1 years.
\<close>

definition nanos_per_day :: int where
  "nanos_per_day = 86400 * nanos_per_second"

definition leap_year :: "nat \<Rightarrow> bool" where
  "leap_year y \<longleftrightarrow> y mod 4 = 0 \<and> (y mod 100 \<noteq> 0 \<or> y mod 400 = 0)"

definition year_and_day :: "nat \<Rightarrow> nat \<times> nat" where
  "year_and_day days =
     (let n400 = days div 146097; d = days mod 146097;
          n100 = min 3 (d div 36524); d = d - n100 * 36524;
          n4 = d div 1461; d = d mod 1461;
          n1 = min 3 (d div 365); d = d - n1 * 365
      in (400 * n400 + 100 * n100 + 4 * n4 + n1 + 1, d))"

definition month_lengths :: "nat \<Rightarrow> nat list" where
  "month_lengths y = [31, if leap_year y then 29 else 28, 31, 30, 31, 30, 31, 31, 30, 31, 30, 31]"

fun month_and_day :: "nat \<Rightarrow> nat list \<Rightarrow> nat \<Rightarrow> nat \<times> nat" where
  "month_and_day m [] d = (m, d + 1)"
| "month_and_day m (l # ls) d = (if d < l then (m, d + 1) else month_and_day (m + 1) ls (d - l))"

definition civil_date :: "nat \<Rightarrow> nat \<times> nat \<times> nat" where
  "civil_date days =
     (let (y, d) = year_and_day days in (y, month_and_day 1 (month_lengths y) d))"

lemma civil_date_examples:
  "civil_date 0 = (1, 1, 1)" "civil_date 719162 = (1970, 1, 1)"
  "civil_date 730178 = (2000, 2, 29)" "civil_date 739615 = (2025, 12, 31)"
  by (simp_all add: civil_date_def year_and_day_def month_lengths_def leap_year_def)

text \<open>A number padded with zeros to a width.\<close>

fun padded :: "nat \<Rightarrow> nat \<Rightarrow> string" where
  "padded 0 n = []"
| "padded (Suc w) n = padded w (n div 10) @ [char_of (48 + n mod 10)]"

lemma length_padded [simp]: "length (padded w n) = w"
  by (induction w arbitrary: n) simp_all

text \<open>The parts of a time in UTC: seconds of its day, nanoseconds of its second.\<close>

definition day_of :: "timestamp \<Rightarrow> nat" where
  "day_of t = nat (t div nanos_per_day)"

definition second_of_day :: "timestamp \<Rightarrow> nat" where
  "second_of_day t = nat (t mod nanos_per_day div nanos_per_second)"

definition nanos_of :: "timestamp \<Rightarrow> nat" where
  "nanos_of t = nat (t mod nanos_per_second)"

definition clock_parts :: "timestamp \<Rightarrow> string \<times> string \<times> string" where
  "clock_parts t =
     (let s = second_of_day t
      in (padded 2 (s div 3600), padded 2 (s mod 3600 div 60), padded 2 (s mod 60)))"

text \<open>\<open>Format("20060102-150405.000000000")\<close>, for years up to 9999.\<close>

definition file_stamp :: "timestamp \<Rightarrow> string" where
  "file_stamp t =
     (let (y, m, d) = civil_date (day_of t); (hh, mm, ss) = clock_parts t
      in padded 4 y @ padded 2 m @ padded 2 d @ ''-'' @ hh @ mm @ ss @ ''.'' @
         padded 9 (nanos_of t))"

text \<open>
  \<open>Format(time.RFC3339Nano)\<close> of a time in UTC: the fraction loses its trailing zeros, and its
  dot when nothing is left.
\<close>

definition rfc3339_nano :: "timestamp \<Rightarrow> string" where
  "rfc3339_nano t =
     (let (y, m, d) = civil_date (day_of t); (hh, mm, ss) = clock_parts t;
          fraction = rev (dropWhile (\<lambda>c. c = CHR ''0'') (rev (padded 9 (nanos_of t))))
      in padded 4 y @ ''-'' @ padded 2 m @ ''-'' @ padded 2 d @ ''T'' @
         hh @ '':'' @ mm @ '':'' @ ss @ (if fraction = [] then [] else ''.'' @ fraction) @ ''Z'')"

end
