(* ===== verification/Updater.thy ===== *)
theory Updater
  imports Version Config Go_Os
begin

section \<open>internal/updater: checking, verifying and installing a release\<close>

text \<open>
  \<open>config.go\<close>, \<open>github.go\<close>, \<open>verify.go\<close>, \<open>update.go\<close> and the service control of
  \<open>service_windows.go\<close>. The world is a file system, a map from paths to contents, and the
  content of the binary the Windows service is running. The network, the signature library,
  SHA-256, running a binary and every failure of a system call are parameters. Files are
  changed by the updater only.
\<close>

subsection \<open>config.go\<close>

record updater_config =
  github_owner :: string
  github_repository :: string
  agent_path :: string
  service_name :: string
  upd_kill_switch_path :: string
  log_path :: string
  check_timeout_sec :: int
  service_timeout_sec :: int
  agent_asset_name :: string

definition updater_default :: "(string list \<Rightarrow> string) \<Rightarrow> string \<Rightarrow> updater_config" where
  "updater_default join base_dir =
     \<lparr>github_owner = [], github_repository = [],
      agent_path = join [base_dir, ''agent.exe''], service_name = ''WindowsLLMManager'',
      upd_kill_switch_path = join [base_dir, ''KILLED''],
      log_path = join [base_dir, ''logs'', ''updater.log''],
      check_timeout_sec = 60, service_timeout_sec = 30, agent_asset_name = ''agent.exe''\<rparr>"

datatype updater_config_error =
  Upd_Read string | Upd_Decode string | Upd_Trailing | Upd_No_Repository | Upd_No_Paths | Upd_Bad_Timeouts

definition load_updater_config ::
  "updater_config json_decoder \<Rightarrow> updater_config \<Rightarrow> string + string \<Rightarrow>
   updater_config_error + updater_config" where
  "load_updater_config dec defaults file =
     (case file of
        Inl err \<Rightarrow> Inl (Upd_Read err)
      | Inr b \<Rightarrow>
          (case dec defaults (trim_prefix b utf8_bom) of
             Json_Bad msg \<Rightarrow> Inl (Upd_Decode msg)
           | Json_More \<Rightarrow> Inl (Upd_Decode ''unexpected EOF'')
           | Json_Value c rest \<Rightarrow>
               if \<not> json_at_eof rest then Inl Upd_Trailing
               else if github_owner c = [] \<or> github_repository c = [] then Inl Upd_No_Repository
               else if agent_path c = [] \<or> service_name c = [] \<or> upd_kill_switch_path c = [] \<or>
                       log_path c = [] then Inl Upd_No_Paths
               else if check_timeout_sec c < 10 \<or> service_timeout_sec c < 5 then Inl Upd_Bad_Timeouts
               else Inr c))"

definition check_timeout :: "updater_config \<Rightarrow> duration" where
  "check_timeout c = seconds (check_timeout_sec c)"

definition service_timeout :: "updater_config \<Rightarrow> duration" where
  "service_timeout c = seconds (service_timeout_sec c)"

subsection \<open>github.go\<close>

record release_asset =
  asset_name :: string
  asset_url :: string

record release =
  tag_name :: string
  assets :: "release_asset list"

text \<open>
  \<open>fetch\<close> is the response to a GET: no response, or whether the status is 200, the body, and
  whether reading it to its end failed.
\<close>

record net_env =
  url_scheme :: "string \<Rightarrow> string option"
  path_escape :: "string \<Rightarrow> string"
  fetch :: "string \<Rightarrow> (bool \<times> string \<times> bool) option"
  open_ok :: "string \<Rightarrow> bool"
  close_ok :: "string \<Rightarrow> bool"
  release_decoder :: "release json_decoder"

datatype fetch_error =
  Not_Https | No_Response | Bad_Status | Bad_Release_Json | Open_Failed | Too_Large | Write_Failed

definition empty_release :: release where
  "empty_release = \<lparr>tag_name = [], assets = []\<rparr>"

definition latest :: "net_env \<Rightarrow> updater_config \<Rightarrow> fetch_error + release" where
  "latest net cfg =
     (let endpoint = ''https://api.github.com/repos/'' @ path_escape net (github_owner cfg) @ ''/'' @
            path_escape net (github_repository cfg) @ ''/releases/latest'' in
      case fetch net endpoint of
        None \<Rightarrow> Inl No_Response
      | Some (status_ok, body, read_failed) \<Rightarrow>
          if \<not> status_ok then Inl Bad_Status
          else (case release_decoder net empty_release (take (2 * 1024 * 1024) body) of
                  Json_Value r rest \<Rightarrow> Inr r
                | Json_Bad msg \<Rightarrow> Inl Bad_Release_Json
                | Json_More \<Rightarrow> Inl Bad_Release_Json))"

definition download :: "net_env \<Rightarrow> string \<Rightarrow> string \<Rightarrow> nat \<Rightarrow> files \<Rightarrow> files \<times> fetch_error option" where
  "download net url dest max_bytes fs =
     (if url_scheme net url \<noteq> Some ''https'' then (fs, Some Not_Https)
      else case fetch net url of
        None \<Rightarrow> (fs, Some No_Response)
      | Some (status_ok, body, read_failed) \<Rightarrow>
          if \<not> status_ok then (fs, Some Bad_Status)
          else if fs dest \<noteq> None \<or> \<not> open_ok net dest then (fs, Some Open_Failed)
          else
            let data = take (max_bytes + 1) body;
                copy_failed = (read_failed \<and> length body < max_bytes + 1)
            in if copy_failed \<or> \<not> close_ok net dest \<or> length data > max_bytes
               then (fs(dest := None),
                     Some (if length data > max_bytes then Too_Large else Write_Failed))
               else (fs(dest := Some data), None))"

subsection \<open>verify.go\<close>

text \<open>\<open>strings.Fields\<close>: the words between runs of white space.\<close>

fun take_word :: "string \<Rightarrow> string" where
  "take_word [] = []"
| "take_word (x # s) =
     (if list_ex (has_prefix (x # s)) space_runes then [] else x # take_word s)"

definition first_field :: "string \<Rightarrow> string option" where
  "first_field s =
     (let t = strip_left space_runes s in if t = [] then None else Some (take_word t))"

text \<open>The loop of \<open>equalBytes\<close>, on 8-bit words.\<close>

definition byte_of :: "char \<Rightarrow> 8 word" where
  "byte_of c = word_of_nat (byte_val c)"

fun bytes_diff :: "8 word \<Rightarrow> string \<Rightarrow> string \<Rightarrow> 8 word" where
  "bytes_diff d (a # as) (b # bs) =
     bytes_diff (or d (xor (byte_of a) (byte_of b))) as bs"
| "bytes_diff d _ _ = d"

definition equal_bytes :: "string \<Rightarrow> string \<Rightarrow> bool" where
  "equal_bytes a b \<longleftrightarrow> (if length a \<noteq> length b then False else bytes_diff 0 a b = 0)"

datatype verify_error =
  Read_Error | Empty_Checksum | Invalid_Checksum | Checksum_Mismatch
  | No_Key | Bad_Key | Bad_Signature_Text | Signature_Rejected

definition verify_checksum ::
  "(string \<Rightarrow> string) \<Rightarrow> string \<Rightarrow> string \<Rightarrow> files \<Rightarrow> verify_error option" where
  "verify_checksum sha256 binary_path checksum_path fs =
     (case fs binary_path of
        None \<Rightarrow> Some Read_Error
      | Some binary \<Rightarrow>
          (case fs checksum_path of
             None \<Rightarrow> Some Read_Error
           | Some checksum_file \<Rightarrow>
               (case first_field checksum_file of
                  None \<Rightarrow> Some Empty_Checksum
                | Some field \<Rightarrow>
                    (case hex_decode field of
                       None \<Rightarrow> Some Invalid_Checksum
                     | Some expected \<Rightarrow>
                         if length expected \<noteq> 32 then Some Invalid_Checksum
                         else if \<not> equal_bytes (sha256 binary) expected then Some Checksum_Mismatch
                         else None))))"

text \<open>The signature library: a PEM key read as a verifier, and the verification.\<close>

record 'key cosign_lib =
  load_key :: "string \<Rightarrow> 'key option"
  verify_signature :: "'key \<Rightarrow> string \<Rightarrow> string \<Rightarrow> bool"

definition verify_cosign_blob ::
  "'key cosign_lib \<Rightarrow> string \<Rightarrow> string \<Rightarrow> string \<Rightarrow> files \<Rightarrow> verify_error option" where
  "verify_cosign_blob lib binary_path signature_path public_key fs =
     (if public_key = [] then Some No_Key
      else case load_key lib public_key of
        None \<Rightarrow> Some Bad_Key
      | Some key \<Rightarrow>
          (case fs binary_path of
             None \<Rightarrow> Some Read_Error
           | Some payload \<Rightarrow>
               (case fs signature_path of
                  None \<Rightarrow> Some Read_Error
                | Some signature \<Rightarrow>
                    (case b64_decode (trim_space signature) of
                       None \<Rightarrow> Some Bad_Signature_Text
                     | Some raw \<Rightarrow>
                         if verify_signature lib key raw payload then None
                         else Some Signature_Rejected))))"

subsection \<open>service_windows.go\<close>

datatype svc_state = Svc_Stopped | Svc_Running | Svc_Pending

datatype svc_error = Svc_Unreachable | Svc_Refused | Svc_Query_Failed | Svc_Exited | Svc_Deadline

text \<open>
  What the service manager answers: whether the service opens, its state, whether it accepts
  the request, and the states the polls see until the deadline (\<open>None\<close>: the query failed).
\<close>

record svc_obs =
  opens :: bool
  first_state :: "svc_state option"
  accepts :: bool
  polls :: "svc_state option list"

fun wait_for_state :: "svc_state \<Rightarrow> svc_state option list \<Rightarrow> svc_error option" where
  "wait_for_state wanted [] = Some Svc_Deadline"
| "wait_for_state wanted (None # obs) = Some Svc_Query_Failed"
| "wait_for_state wanted (Some s # obs) =
     (if s = wanted then None
      else if wanted = Svc_Running \<and> s = Svc_Stopped then Some Svc_Exited
      else wait_for_state wanted obs)"

record world =
  disk :: files
  running :: "string option"

text \<open>
  Once the manager has accepted a stop the old process ends, whatever the polls saw; once it
  has accepted a start the process of the binary on disk runs, unless the polls saw it exit.
\<close>

definition stop_service :: "svc_obs \<Rightarrow> world \<Rightarrow> world \<times> svc_error option" where
  "stop_service sv w =
     (if \<not> opens sv then (w, Some Svc_Unreachable)
      else if first_state sv = None then (w, Some Svc_Query_Failed)
      else if first_state sv = Some Svc_Stopped then (w\<lparr>running := None\<rparr>, None)
      else if \<not> accepts sv then (w, Some Svc_Refused)
      else (w\<lparr>running := None\<rparr>, wait_for_state Svc_Stopped (polls sv)))"

definition start_service :: "svc_obs \<Rightarrow> string \<Rightarrow> world \<Rightarrow> world \<times> svc_error option" where
  "start_service sv path w =
     (if \<not> opens sv then (w, Some Svc_Unreachable)
      else if \<not> accepts sv \<or> running w \<noteq> None \<or> disk w path = None then (w, Some Svc_Refused)
      else case wait_for_state Svc_Running (polls sv) of
             Some Svc_Exited \<Rightarrow> (w, Some Svc_Exited)
           | res \<Rightarrow> (w\<lparr>running := disk w path\<rparr>, res))"

subsection \<open>update.go: the release and its files\<close>

datatype install_error =
  Stop_Failed svc_error | Kill_Armed | Backup_Failed | Install_Failed
  | Rollback_Failed svc_error | Rolled_Back_Not_Started svc_error svc_error | Rolled_Back svc_error

datatype update_error =
    No_Current_Version | No_Release fetch_error | Bad_Versions newer_error | Missing_Asset string
  | No_Entropy | Download_Failed fetch_error | Not_Verified verify_error
  | No_Downloaded_Version | Version_Mismatch | Not_Installed install_error

record update_result =
  updated :: bool
  skipped_killed :: bool
  current_version :: string
  latest_version :: string

definition empty_update_result :: update_result where
  "empty_update_result = \<lparr>updated = False, skipped_killed = False, current_version = [], latest_version = []\<rparr>"

text \<open>
  \<open>requiredAssets\<close>: the last asset of each needed name; which missing name the error tells is
  the choice of Go's map order, here the first.
\<close>

definition required_names :: "string \<Rightarrow> string list" where
  "required_names asset = [asset, asset @ ''.sha256'', asset @ ''.sig'']"

definition found_assets :: "string \<Rightarrow> release_asset list \<Rightarrow> (string \<times> string) list" where
  "found_assets asset as =
     foldl (\<lambda>m a. if asset_name a \<in> set (required_names asset)
                  then mput (asset_name a) (asset_url a) m else m) [] as"

definition found_url :: "(string \<times> string) list \<Rightarrow> string \<Rightarrow> string" where
  "found_url m name = (case mget m name of None \<Rightarrow> [] | Some u \<Rightarrow> u)"

definition required_assets :: "string \<Rightarrow> release \<Rightarrow> update_error + (string \<times> string \<times> string)" where
  "required_assets asset rel =
     (let found = found_assets asset (assets rel) in
      case find (\<lambda>name. found_url found name = []) (required_names asset) of
        Some name \<Rightarrow> Inl (Missing_Asset name)
      | None \<Rightarrow> Inr (found_url found asset, found_url found (asset @ ''.sha256''),
                     found_url found (asset @ ''.sig'')))"

definition update_prefix :: "path_lib \<Rightarrow> updater_config \<Rightarrow> string \<Rightarrow> string" where
  "update_prefix pl cfg id_bytes =
     path_join pl [path_dir pl (agent_path cfg), ''.update-'' @ hex_encode id_bytes]"

definition cleanup_files :: "string \<Rightarrow> files \<Rightarrow> files" where
  "cleanup_files pfx fs =
     remove_file True (pfx @ ''.sig'')
       (remove_file True (pfx @ ''.sha256'') (remove_file True (pfx @ ''.exe'') fs))"

definition download_and_verify ::
  "path_lib \<Rightarrow> net_env \<Rightarrow> (string \<Rightarrow> string) \<Rightarrow> 'key cosign_lib \<Rightarrow> updater_config \<Rightarrow> string \<Rightarrow>
   string option \<Rightarrow> string \<times> string \<times> string \<Rightarrow> files \<Rightarrow> files \<times> (update_error + string)" where
  "download_and_verify pl net sha256 lib cfg public_key id_bytes urls fs =
     (case id_bytes of
        None \<Rightarrow> (fs, Inl No_Entropy)
      | Some b \<Rightarrow>
          let pfx = update_prefix pl cfg b; (binary, checksum, signature) = urls in
          case download net binary (pfx @ ''.exe'') (200 * 1024 * 1024) fs of
            (fs, Some e) \<Rightarrow> (cleanup_files pfx fs, Inl (Download_Failed e))
          | (fs, None) \<Rightarrow>
              (case download net checksum (pfx @ ''.sha256'') 4096 fs of
                 (fs, Some e) \<Rightarrow> (cleanup_files pfx fs, Inl (Download_Failed e))
               | (fs, None) \<Rightarrow>
                   (case download net signature (pfx @ ''.sig'') (1024 * 1024) fs of
                      (fs, Some e) \<Rightarrow> (cleanup_files pfx fs, Inl (Download_Failed e))
                    | (fs, None) \<Rightarrow>
                        (case verify_checksum sha256 (pfx @ ''.exe'') (pfx @ ''.sha256'') fs of
                           Some e \<Rightarrow> (cleanup_files pfx fs, Inl (Not_Verified e))
                         | None \<Rightarrow>
                             (case verify_cosign_blob lib (pfx @ ''.exe'') (pfx @ ''.sig'') public_key fs of
                                Some e \<Rightarrow> (cleanup_files pfx fs, Inl (Not_Verified e))
                              | None \<Rightarrow> (fs, Inr pfx))))))"

subsection \<open>update.go: the installation\<close>

text \<open>\<open>isKilled\<close>: any answer of \<open>os.Stat\<close> but "does not exist" counts as armed.\<close>

definition is_killed :: "stat_answer \<Rightarrow> bool" where
  "is_killed a \<longleftrightarrow> a = Stat_Exists \<or> a \<noteq> Stat_Missing"

lemma is_killed_missing [simp]: "\<not> is_killed Stat_Missing"
  by (simp add: is_killed_def)

text \<open>
  Every outcome the installation does not control; \<open>stat_after_stop\<close> is the answer of \<open>os.Stat\<close>
  to the third look at the kill-switch file, once the service has stopped.
\<close>

record install_env =
  stop_obs :: svc_obs
  stat_after_stop :: stat_answer
  abort_start :: svc_obs
  remove_backup_ok :: bool
  backup_ok :: bool
  move_in_ok :: bool
  undo_ok :: bool
  start_obs :: svc_obs
  stop_failed_obs :: svc_obs
  stamp :: string
  move_failed_ok :: bool
  restore_ok :: bool
  restart_obs :: svc_obs

text \<open>\<open>_ = os.Rename(a, b)\<close>: a failed rename is ignored.\<close>

definition try_rename :: "bool \<Rightarrow> string \<Rightarrow> string \<Rightarrow> world \<Rightarrow> world" where
  "try_rename ok a b w =
     (case rename_file ok a b (disk w) of None \<Rightarrow> w | Some fs \<Rightarrow> w\<lparr>disk := fs\<rparr>)"

definition best_effort_start :: "install_env \<Rightarrow> updater_config \<Rightarrow> world \<Rightarrow> world" where
  "best_effort_start env cfg w = fst (start_service (abort_start env) (agent_path cfg) w)"

text \<open>The part of \<open>installVerified\<close> after the new agent failed to start.\<close>

definition roll_back ::
  "install_env \<Rightarrow> updater_config \<Rightarrow> svc_error \<Rightarrow> world \<Rightarrow> world \<times> install_error option" where
  "roll_back env cfg start_err w0 =
     (let agent = agent_path cfg;
          w1 = fst (stop_service (stop_failed_obs env) w0);
          w2 = try_rename (move_failed_ok env) agent (agent @ ''.failed-'' @ stamp env) w1
      in case rename_file (restore_ok env) (agent @ ''.bak'') agent (disk w2) of
           None \<Rightarrow> (w2, Some (Rollback_Failed start_err))
         | Some fs \<Rightarrow>
             (case start_service (restart_obs env) agent (w2\<lparr>disk := fs\<rparr>) of
                (w3, Some e) \<Rightarrow> (w3, Some (Rolled_Back_Not_Started start_err e))
              | (w3, None) \<Rightarrow> (w3, Some (Rolled_Back start_err))))"

definition install_verified ::
  "install_env \<Rightarrow> updater_config \<Rightarrow> string \<Rightarrow> world \<Rightarrow> world \<times> install_error option" where
  "install_verified env cfg downloaded w0 =
     (let agent = agent_path cfg; backup = agent @ ''.bak'' in
      case stop_service (stop_obs env) w0 of
        (w1, Some e) \<Rightarrow> (w1, Some (Stop_Failed e))
      | (w1, None) \<Rightarrow>
          if is_killed (stat_after_stop env) then (best_effort_start env cfg w1, Some Kill_Armed)
          else
            let w2 = w1\<lparr>disk := remove_file (remove_backup_ok env) backup (disk w1)\<rparr> in
            case rename_file (backup_ok env) agent backup (disk w2) of
              None \<Rightarrow> (best_effort_start env cfg w2, Some Backup_Failed)
            | Some fs3 \<Rightarrow>
                let w3 = w2\<lparr>disk := fs3\<rparr> in
                (case rename_file (move_in_ok env) downloaded agent (disk w3) of
                   None \<Rightarrow>
                     (best_effort_start env cfg (try_rename (undo_ok env) backup agent w3),
                      Some Install_Failed)
                 | Some fs4 \<Rightarrow>
                     let w4 = w3\<lparr>disk := fs4\<rparr> in
                     (case start_service (start_obs env) agent w4 of
                        (w5, None) \<Rightarrow> (w5, None)
                      | (w5, Some e) \<Rightarrow> roll_back env cfg e w5)))"

subsection \<open>update.go: CheckAndUpdate\<close>

text \<open>\<open>binaryVersion\<close>: \<open>run_version\<close> is the output of running a binary with --version.\<close>

definition binary_version :: "(string \<Rightarrow> string option) \<Rightarrow> string \<Rightarrow> files \<Rightarrow> string option" where
  "binary_version run_version path fs =
     (case fs path of
        None \<Rightarrow> None
      | Some content \<Rightarrow>
          (case run_version content of
             None \<Rightarrow> None
           | Some out \<Rightarrow> if trim_space out = [] then None else Some (trim_space out)))"

record 'key update_env =
  up_paths :: path_lib
  up_net :: net_env
  up_sha256 :: "string \<Rightarrow> string"
  up_cosign :: "'key cosign_lib"
  up_run_version :: "string \<Rightarrow> string option"
  up_random :: "string option"
  up_stat1 :: stat_answer
  up_stat2 :: stat_answer
  up_install :: install_env

text \<open>\<open>CheckAndUpdate\<close> from the downloaded files on, with the deferred cleanup.\<close>

definition install_downloaded ::
  "'key update_env \<Rightarrow> updater_config \<Rightarrow> release \<Rightarrow> update_result \<Rightarrow> string \<Rightarrow> world \<Rightarrow>
   world \<times> update_result \<times> update_error option" where
  "install_downloaded env cfg rel res pfx w =
     (let cleanup = (\<lambda>w'. w'\<lparr>disk := cleanup_files pfx (disk w')\<rparr>) in
      case binary_version (up_run_version env) (pfx @ ''.exe'') (disk w) of
        None \<Rightarrow> (cleanup w, res, Some No_Downloaded_Version)
      | Some downloaded \<Rightarrow>
          if \<not> versions_equal downloaded (tag_name rel) then (cleanup w, res, Some Version_Mismatch)
          else if is_killed (up_stat2 env) then (cleanup w, res\<lparr>skipped_killed := True\<rparr>, None)
          else
            (case install_verified (up_install env) cfg (pfx @ ''.exe'') w of
               (w', Some e) \<Rightarrow> (cleanup w', res, Some (Not_Installed e))
             | (w', None) \<Rightarrow> (cleanup w', res\<lparr>updated := True\<rparr>, None)))"

text \<open>\<open>CheckAndUpdate\<close> from the decision that the release is newer on.\<close>

definition apply_release ::
  "'key update_env \<Rightarrow> updater_config \<Rightarrow> string \<Rightarrow> release \<Rightarrow> update_result \<Rightarrow> world \<Rightarrow>
   world \<times> update_result \<times> update_error option" where
  "apply_release env cfg public_key rel res w =
     (case required_assets (agent_asset_name cfg) rel of
        Inl e \<Rightarrow> (w, res, Some e)
      | Inr urls \<Rightarrow>
          (case download_and_verify (up_paths env) (up_net env) (up_sha256 env) (up_cosign env) cfg
                  public_key (up_random env) urls (disk w) of
             (fs, Inl e) \<Rightarrow> (w\<lparr>disk := fs\<rparr>, res, Some e)
           | (fs, Inr pfx) \<Rightarrow> install_downloaded env cfg rel res pfx (w\<lparr>disk := fs\<rparr>)))"

definition check_and_update ::
  "'key update_env \<Rightarrow> updater_config \<Rightarrow> string \<Rightarrow> world \<Rightarrow>
   world \<times> update_result \<times> update_error option" where
  "check_and_update env cfg public_key w =
     (if is_killed (up_stat1 env) then (w, empty_update_result\<lparr>skipped_killed := True\<rparr>, None)
      else
        case binary_version (up_run_version env) (agent_path cfg) (disk w) of
          None \<Rightarrow> (w, empty_update_result, Some No_Current_Version)
        | Some current \<Rightarrow>
            (case latest (up_net env) cfg of
               Inl e \<Rightarrow> (w, empty_update_result\<lparr>current_version := current\<rparr>, Some (No_Release e))
             | Inr rel \<Rightarrow>
                 let res = empty_update_result\<lparr>current_version := current, latest_version := tag_name rel\<rparr> in
                 (case newer_version current (tag_name rel) of
                    Inl e \<Rightarrow> (w, res, Some (Bad_Versions e))
                  | Inr newer \<Rightarrow>
                      if \<not> newer then (w, res, None)
                      else apply_release env cfg public_key rel res w)))"

subsection \<open>Checksums and signatures\<close>

lemma byte_of_inject: "byte_of a = byte_of b \<longleftrightarrow> a = b"
proof -
  have "unat (byte_of c) = byte_val c" for c
    by (simp add: byte_of_def unat_of_nat)
  then show ?thesis
    by (metis of_char_eq_iff)
qed

lemma xor_zero_iff: "xor a b = 0 \<longleftrightarrow> a = (b :: 8 word)"
  by (metis xor.assoc xor.left_neutral xor.right_neutral xor_self_eq)

lemma bytes_diff_zero:
  "length a = length b \<Longrightarrow> bytes_diff d a b = 0 \<longleftrightarrow> d = 0 \<and> a = b"
proof (induction d a b rule: bytes_diff.induct)
  case (1 d x a y b)
  have "or d (xor (byte_of x) (byte_of y)) = 0 \<longleftrightarrow> d = 0 \<and> x = y"
    by (simp add: or_eq_0_iff xor_zero_iff byte_of_inject)
  then show ?case
    using 1 by simp
qed simp_all

lemma equal_bytes_iff: "equal_bytes a b \<longleftrightarrow> a = b"
  using bytes_diff_zero [of a b 0] by (auto simp: equal_bytes_def)

text \<open>
  \<open>equalBytes\<close>, the loop that joins the differences of all bytes, decides equality.
\<close>

theorem equal_bytes_is_equality: "equal_bytes a b \<longleftrightarrow> a = b"
  by (rule equal_bytes_iff)

lemma verify_checksum_sound:
  assumes "verify_checksum sha256 bin chk fs = None" and "fs bin = Some content"
  shows "\<exists>text field. fs chk = Some text \<and> first_field text = Some field \<and>
    hex_decode field = Some (sha256 content)"
  using assms
  by (auto simp: verify_checksum_def equal_bytes_iff split: option.splits if_splits)

lemma verify_cosign_sound:
  assumes "verify_cosign_blob lib bin sig key fs = None" and "fs bin = Some content"
  shows "\<exists>k raw. key \<noteq> [] \<and> load_key lib key = Some k \<and> verify_signature lib k raw content"
  using assms by (auto simp: verify_cosign_blob_def split: option.splits if_splits)

subsection \<open>Installation\<close>

definition backup_path :: "updater_config \<Rightarrow> string" where
  "backup_path cfg = agent_path cfg @ ''.bak''"

definition failed_path :: "install_env \<Rightarrow> updater_config \<Rightarrow> string" where
  "failed_path env cfg = agent_path cfg @ ''.failed-'' @ stamp env"

lemma path_names [simp]:
  "agent_path cfg \<noteq> backup_path cfg" "agent_path cfg \<noteq> failed_path env cfg"
  "backup_path cfg \<noteq> failed_path env cfg" "backup_path cfg \<noteq> agent_path cfg"
  "failed_path env cfg \<noteq> agent_path cfg" "failed_path env cfg \<noteq> backup_path cfg"
  by (auto simp: backup_path_def failed_path_def)

lemma stop_service_disk [simp]: "disk (fst (stop_service sv w)) = disk w"
  by (simp add: stop_service_def)

lemma start_service_disk [simp]: "disk (fst (start_service sv p w)) = disk w"
  by (simp add: start_service_def split: option.split svc_error.split)

lemma best_effort_start_disk [simp]: "disk (best_effort_start env cfg w) = disk w"
  by (simp add: best_effort_start_def)

lemma stop_service_eq: "stop_service sv w = (w', r) \<Longrightarrow> disk w' = disk w"
  using stop_service_disk [of sv w] by simp

lemma start_service_eq: "start_service sv p w = (w', r) \<Longrightarrow> disk w' = disk w"
  using start_service_disk [of sv p w] by simp

lemma rename_file_cases:
  obtains "rename_file ok a b fs = None" "\<not> ok \<or> fs a = None"
  | c where "ok" "fs a = Some c" "rename_file ok a b fs = Some (fs(a := None, b := Some c))"
  by (cases "ok \<and> fs a \<noteq> None") (auto simp: rename_file_def)

text \<open>The files the installation touches.\<close>

definition install_paths :: "install_env \<Rightarrow> updater_config \<Rightarrow> string \<Rightarrow> string set" where
  "install_paths env cfg d = {agent_path cfg, backup_path cfg, failed_path env cfg, d}"

text \<open>The state in which the new agent is in place and the old one is the backup.\<close>

definition swapped :: "updater_config \<Rightarrow> string \<Rightarrow> string \<Rightarrow> string \<Rightarrow> world \<Rightarrow> world \<Rightarrow> bool" where
  "swapped cfg d old new w w' \<longleftrightarrow>
     disk w' = (disk w)(d := None, agent_path cfg := Some new, backup_path cfg := Some old)"

lemma roll_back_disk:
  assumes "disk w0 (agent_path cfg) = Some new" and "disk w0 (backup_path cfg) = Some old"
    and "roll_back env cfg e w0 = (w', r)"
  shows "r \<noteq> None" and "restore_ok env \<Longrightarrow> disk w' (agent_path cfg) = Some old"
    and "disk w' (agent_path cfg) \<in> {Some old, Some new, None}"
    and "p \<notin> {agent_path cfg, backup_path cfg, failed_path env cfg} \<Longrightarrow> disk w' p = disk w0 p"
proof -
  let ?w1 = "fst (stop_service (stop_failed_obs env) w0)"
  let ?w2 = "try_rename (move_failed_ok env) (agent_path cfg) (failed_path env cfg) ?w1"
  have d2: "disk ?w2 = (if move_failed_ok env
      then (disk w0)(agent_path cfg := None, failed_path env cfg := Some new) else disk w0)"
    using assms(1) by (simp add: try_rename_def rename_file_def)
  have rb: "roll_back env cfg e w0 =
      (case rename_file (restore_ok env) (backup_path cfg) (agent_path cfg) (disk ?w2) of
         None \<Rightarrow> (?w2, Some (Rollback_Failed e))
       | Some fs \<Rightarrow>
           (case start_service (restart_obs env) (agent_path cfg) (?w2\<lparr>disk := fs\<rparr>) of
              (w3, Some e') \<Rightarrow> (w3, Some (Rolled_Back_Not_Started e e'))
            | (w3, None) \<Rightarrow> (w3, Some (Rolled_Back e))))"
    by (simp only: roll_back_def backup_path_def failed_path_def Let_def)
  have bk: "disk ?w2 (backup_path cfg) = Some old"
    using assms(2) by (simp add: d2)
  show "r \<noteq> None"
    using assms(3) unfolding rb by (auto split: option.splits prod.splits)
  have cases: "\<not> restore_ok env \<and> w' = ?w2 \<or>
      restore_ok env \<and> disk w' = (disk ?w2)(backup_path cfg := None, agent_path cfg := Some old)"
  proof (cases "restore_ok env")
    case True
    then have fs: "rename_file (restore_ok env) (backup_path cfg) (agent_path cfg) (disk ?w2) =
        Some ((disk ?w2)(backup_path cfg := None, agent_path cfg := Some old))"
      using bk by (simp add: rename_file_def)
    show ?thesis
      using assms(3) True unfolding rb fs
      by (simp split: prod.splits option.splits) (auto dest!: start_service_eq)
  next
    case False
    then show ?thesis
      using assms(3) unfolding rb by (simp add: rename_file_def)
  qed
  then show "restore_ok env \<Longrightarrow> disk w' (agent_path cfg) = Some old"
    and "disk w' (agent_path cfg) \<in> {Some old, Some new, None}"
    using assms(1) d2 by (cases "move_failed_ok env"; cases "restore_ok env"; force)+
  show "disk w' p = disk w0 p" if "p \<notin> {agent_path cfg, backup_path cfg, failed_path env cfg}"
  proof -
    have "disk ?w2 p = disk w0 p"
      unfolding d2 using that by simp
    then show ?thesis
      using cases that by auto
  qed
qed

text \<open>An installation that finds the switch armed changes no file and says so.\<close>

lemma install_killed:
  "is_killed (stat_after_stop env) \<Longrightarrow> install_verified env cfg d w = (w', r) \<Longrightarrow> r \<noteq> None \<and> disk w' = disk w"
  by (cases "stop_service (stop_obs env) w")
     (auto simp: install_verified_def Let_def dest: stop_service_eq split: option.splits)

text \<open>The five ways an installation ends.\<close>

lemma install_verified_cases:
  assumes "disk w (agent_path cfg) = Some old" and "disk w d = Some new"
    and "d \<notin> {agent_path cfg, backup_path cfg}"
    and "install_verified env cfg d w = (w', r)"
  obtains (Untouched) "r \<noteq> None" "disk w' = disk w"
  | (No_Backup) "r = Some Backup_Failed"
      "disk w' = remove_file (remove_backup_ok env) (backup_path cfg) (disk w)"
  | (Not_Moved) "r = Some Install_Failed"
      "disk w' = (if undo_ok env then (disk w)(agent_path cfg := Some old, backup_path cfg := None)
        else (disk w)(agent_path cfg := None, backup_path cfg := Some old))"
  | (Installed) w4 where "r = None" "swapped cfg d old new w w4" "running w4 = None"
      "start_service (start_obs env) (agent_path cfg) w4 = (w', None)"
  | (Rollback) w5 e where "swapped cfg d old new w w5" "roll_back env cfg e w5 = (w', r)"
proof -
  obtain w1 r1 where stop: "stop_service (stop_obs env) w = (w1, r1)"
    by fastforce
  have d1: "disk w1 = disk w"
    using stop_service_eq [OF stop] .
  note [simp] = backup_path_def [symmetric] failed_path_def [symmetric]
  show ?thesis
  proof (cases "r1 \<noteq> None \<or> is_killed (stat_after_stop env)")
    case True
    then show ?thesis
      using Untouched assms(4) stop d1
      by (auto simp: install_verified_def Let_def split: option.splits)
  next
    case False
    then have r1: "r1 = None" "\<not> is_killed (stat_after_stop env)"
      by simp_all
    have off: "running w1 = None"
      using stop r1(1) by (auto simp: stop_service_def split: if_splits)
    let ?w2 = "w1\<lparr>disk := remove_file (remove_backup_ok env) (backup_path cfg) (disk w1)\<rparr>"
    have a2: "disk ?w2 (agent_path cfg) = Some old"
      using assms(1) d1 by (simp add: remove_file_def)
    show ?thesis
    proof (cases "backup_ok env")
      case False
      then have "rename_file (backup_ok env) (agent_path cfg) (backup_path cfg) (disk ?w2) = None"
        by (simp add: rename_file_def)
      then show ?thesis
        using No_Backup assms(4) stop r1 d1 by (auto simp: install_verified_def Let_def)
    next
      case True
      let ?fs3 = "(disk w)(agent_path cfg := None, backup_path cfg := Some old)"
      have b: "rename_file (backup_ok env) (agent_path cfg) (backup_path cfg) (disk ?w2) = Some ?fs3"
        using True assms(1) d1 by (auto simp: rename_file_def remove_file_def fun_eq_iff)
      let ?w3 = "?w2\<lparr>disk := ?fs3\<rparr>"
      have d3: "disk ?w3 d = Some new"
        using assms(2,3) by simp
      show ?thesis
      proof (cases "move_in_ok env")
        case False
        then have m: "rename_file (move_in_ok env) d (agent_path cfg) (disk ?w3) = None"
          by (simp add: rename_file_def)
        have "disk (try_rename (undo_ok env) (backup_path cfg) (agent_path cfg) ?w3) =
            (if undo_ok env then (disk w)(agent_path cfg := Some old, backup_path cfg := None)
             else ?fs3)"
          by (auto simp: try_rename_def rename_file_def fun_eq_iff)
        then have "disk (best_effort_start env cfg
            (try_rename (undo_ok env) (backup_path cfg) (agent_path cfg) (w1\<lparr>disk := ?fs3\<rparr>))) =
          (if undo_ok env then (disk w)(agent_path cfg := Some old, backup_path cfg := None)
           else ?fs3)"
          by (simp del: fun_upd_apply)
        then show ?thesis
          using Not_Moved assms(4) stop r1 b m
          by (auto simp add: install_verified_def Let_def simp del: fun_upd_apply)
      next
        case True
        let ?w4 = "?w3\<lparr>disk := ?fs3(d := None, agent_path cfg := Some new)\<rparr>"
        have m: "rename_file (move_in_ok env) d (agent_path cfg) (disk ?w3) = Some (disk ?w4)"
          using True d3 by (simp add: rename_file_def)
        have sw: "swapped cfg d old new w ?w4"
          using assms(3) by (auto simp: swapped_def fun_eq_iff)
        obtain w5 r5 where st: "start_service (start_obs env) (agent_path cfg) ?w4 = (w5, r5)"
          by fastforce
        have inst: "install_verified env cfg d w =
            (case r5 of None \<Rightarrow> (w5, None) | Some e \<Rightarrow> roll_back env cfg e w5)"
          using stop r1 b m st by (simp add: install_verified_def Let_def del: fun_upd_apply)
        show ?thesis
        proof (cases r5)
          case None
          then show ?thesis
            using Installed [OF _ sw] inst assms(4) st off by simp
        next
          case (Some e)
          have "swapped cfg d old new w w5"
            using sw start_service_eq [OF st] by (simp add: swapped_def)
          then show ?thesis
            using Rollback Some inst assms(4) by simp
        qed
      qed
    qed
  qed
qed

subsection \<open>What an installation guarantees\<close>

lemma install_verified_ok:
  assumes "disk w (agent_path cfg) = Some old" and "disk w d = Some new"
    and "d \<notin> {agent_path cfg, backup_path cfg}"
    and "install_verified env cfg d w = (w', None)"
  shows "disk w' = (disk w)(d := None, agent_path cfg := Some new, backup_path cfg := Some old) \<and>
    running w' = Some new"
  using assms
proof (cases rule: install_verified_cases)
  case (Installed w4)
  then have "disk w' = disk w4" "running w' = disk w4 (agent_path cfg)"
    by (auto simp: start_service_def split: if_splits option.splits svc_error.splits)
  then show ?thesis
    using Installed(2) by (simp add: swapped_def)
next
  case (Rollback w5 e)
  then have "disk w5 (agent_path cfg) = Some new" "disk w5 (backup_path cfg) = Some old"
    by (simp_all add: swapped_def)
  from roll_back_disk(1) [OF this Rollback(2)] show ?thesis
    by simp
qed simp_all

text \<open>
  a successful installation leaves the verified binary as the agent, the former agent as
  the backup, the new agent running, and every other file as it was.
\<close>

theorem install_success:
  assumes "disk w (agent_path cfg) = Some old" and "disk w d = Some new"
    and "d \<notin> {agent_path cfg, backup_path cfg}"
    and "install_verified env cfg d w = (w', None)"
  shows "disk w' = (disk w)(d := None, agent_path cfg := Some new, backup_path cfg := Some old) \<and>
    running w' = Some new"
  using assms by (rule install_verified_ok)

lemma install_verified_failed:
  assumes "disk w (agent_path cfg) = Some old" and "disk w d = Some new"
    and "d \<notin> {agent_path cfg, backup_path cfg}"
    and "install_verified env cfg d w = (w', Some e)"
  shows "(undo_ok env \<and> restore_ok env \<longrightarrow> disk w' (agent_path cfg) = Some old) \<and>
    disk w' (agent_path cfg) \<in> {Some old, Some new, None}"
  using assms
proof (cases rule: install_verified_cases)
  case (Rollback w5 e)
  then have "disk w5 (agent_path cfg) = Some new" "disk w5 (backup_path cfg) = Some old"
    by (simp_all add: swapped_def)
  from roll_back_disk(2,3) [OF this Rollback(2)] show ?thesis
    by simp
qed (use assms(1) in \<open>auto simp: remove_file_def\<close>)

text \<open>
  C26: an installation that fails, at whatever point, leaves the former agent in place, provided
  the rename that puts it back does not itself fail; and even then the agent's path holds the
  former agent, the verified one or nothing, never another binary.
\<close>

theorem install_failure_restores:
  assumes "disk w (agent_path cfg) = Some old" and "disk w d = Some new"
    and "d \<notin> {agent_path cfg, backup_path cfg}"
    and "install_verified env cfg d w = (w', Some e)"
  shows "(undo_ok env \<and> restore_ok env \<longrightarrow> disk w' (agent_path cfg) = Some old) \<and>
    disk w' (agent_path cfg) \<in> {Some old, Some new, None}"
  using assms by (rule install_verified_failed)

text \<open>Concrete files and observations, for the witnesses.\<close>

definition good_obs :: svc_obs where
  "good_obs = \<lparr>opens = True, first_state = Some Svc_Running, accepts = True,
     polls = [Some Svc_Pending, Some Svc_Stopped]\<rparr>"

definition started_obs :: svc_obs where
  "started_obs = good_obs\<lparr>polls := [Some Svc_Pending, Some Svc_Running]\<rparr>"

definition calm_env :: install_env where
  "calm_env = \<lparr>stop_obs = good_obs, stat_after_stop = Stat_Missing, abort_start = started_obs,
     remove_backup_ok = True, backup_ok = True, move_in_ok = True, undo_ok = True,
     start_obs = started_obs, stop_failed_obs = good_obs, stamp = ''1'', move_failed_ok = True,
     restore_ok = True, restart_obs = started_obs\<rparr>"

definition sample_cfg :: updater_config where
  "sample_cfg = (updater_default (join_with ''/'') ''d'')\<lparr>github_owner := ''o'', github_repository := ''r''\<rparr>"

definition sample_world :: world where
  "sample_world = \<lparr>disk = [''d/agent.exe'' \<mapsto> ''old'', ''d/u.exe'' \<mapsto> ''new''], running = Some ''old''\<rparr>"

lemma sample_world_simps:
  "agent_path sample_cfg = ''d/agent.exe''" "backup_path sample_cfg = ''d/agent.exe.bak''"
  "disk sample_world ''d/agent.exe'' = Some ''old''" "disk sample_world ''d/u.exe'' = Some ''new''"
  "running sample_world = Some ''old''"
  by (simp_all add: sample_cfg_def updater_default_def backup_path_def sample_world_def)

theorem install_success_witness:
  "disk (fst (install_verified calm_env sample_cfg ''d/u.exe'' sample_world)) ''d/agent.exe'' = Some ''new''"
proof -
  obtain w' r where i: "install_verified calm_env sample_cfg ''d/u.exe'' sample_world = (w', r)"
    by fastforce
  moreover have "r = None"
    using i by (auto simp: install_verified_def calm_env_def stop_service_def start_service_def good_obs_def
        started_obs_def rename_file_def remove_file_def sample_world_simps)
  ultimately show ?thesis
    using install_success [of sample_world sample_cfg "''old''" "''d/u.exe''" "''new''" calm_env w']
    by (simp add: sample_world_simps)
qed

theorem install_failure_restores_witness:
  "disk (fst (install_verified (calm_env\<lparr>start_obs := good_obs\<rparr>) sample_cfg ''d/u.exe'' sample_world))
     ''d/agent.exe'' = Some ''old''"
proof -
  let ?env = "calm_env\<lparr>start_obs := good_obs\<rparr>"
  obtain w' r where i: "install_verified ?env sample_cfg ''d/u.exe'' sample_world = (w', r)"
    by fastforce
  moreover obtain e where "r = Some e"
    using i by (auto simp: install_verified_def calm_env_def stop_service_def start_service_def good_obs_def
        started_obs_def rename_file_def remove_file_def sample_world_simps roll_back_def Let_def
        split: option.splits prod.splits)
  ultimately show ?thesis
    using install_failure_restores [of sample_world sample_cfg "''old''" "''d/u.exe''" "''new''" ?env w' e]
    by (simp add: sample_world_simps calm_env_def)
qed



subsection \<open>Downloads\<close>

lemma download_other:
  "download net url dest n fs = (fs', r) \<Longrightarrow> p \<noteq> dest \<Longrightarrow> fs' p = fs p"
  by (auto simp: download_def Let_def split: if_splits option.splits)

lemma download_stored:
  "download net url dest n fs = (fs', None) \<Longrightarrow>
    fs dest = None \<and> (\<exists>data. fs' dest = Some data \<and> length data \<le> n) \<and> url_scheme net url = Some ''https''"
  by (auto simp: download_def Let_def split: if_splits option.splits)

definition temp_paths :: "string \<Rightarrow> string set" where
  "temp_paths pfx = {pfx @ ''.exe'', pfx @ ''.sha256'', pfx @ ''.sig''}"

lemma cleanup_files_get:
  "cleanup_files pfx fs p = (if p \<in> temp_paths pfx then None else fs p)"
  by (simp add: cleanup_files_def remove_file_def temp_paths_def)

text \<open>What a verified download is: the binary, its key and signature, its digest.\<close>

definition verified_binary ::
  "(string \<Rightarrow> string) \<Rightarrow> 'key cosign_lib \<Rightarrow> string \<Rightarrow> files \<Rightarrow> string \<Rightarrow> string \<Rightarrow> bool" where
  "verified_binary sha256 lib public_key fs pfx content \<longleftrightarrow>
     fs (pfx @ ''.exe'') = Some content \<and> length content \<le> 200 * 1024 * 1024 \<and>
     public_key \<noteq> [] \<and>
     (\<exists>key raw sig. load_key lib public_key = Some key \<and> fs (pfx @ ''.sig'') = Some sig \<and>
        b64_decode (trim_space sig) = Some raw \<and> verify_signature lib key raw content) \<and>
     (\<exists>listing field. fs (pfx @ ''.sha256'') = Some listing \<and> first_field listing = Some field \<and>
        hex_decode field = Some (sha256 content))"

lemma download_and_verify_ok:
  assumes "download_and_verify pl net sha256 lib cfg key idb urls fs = (fs', Inr pfx)"
  shows "\<exists>content. verified_binary sha256 lib key fs' pfx content"
    and "p \<notin> temp_paths pfx \<Longrightarrow> fs' p = fs p"
    and "\<exists>b. idb = Some b \<and> pfx = update_prefix pl cfg b"
proof -
  obtain b bin chk sg fs1 fs2 where b: "idb = Some b" "urls = (bin, chk, sg)"
      and pfx: "pfx = update_prefix pl cfg b"
      and d1: "download net bin (pfx @ ''.exe'') (200 * 1024 * 1024) fs = (fs1, None)"
      and d2: "download net chk (pfx @ ''.sha256'') 4096 fs1 = (fs2, None)"
      and d3: "download net sg (pfx @ ''.sig'') (1024 * 1024) fs2 = (fs', None)"
      and v1: "verify_checksum sha256 (pfx @ ''.exe'') (pfx @ ''.sha256'') fs' = None"
      and v2: "verify_cosign_blob lib (pfx @ ''.exe'') (pfx @ ''.sig'') key fs' = None"
    using assms unfolding download_and_verify_def Let_def
    by (auto split: option.splits prod.splits)
  show "\<exists>b. idb = Some b \<and> pfx = update_prefix pl cfg b"
    using b pfx by simp
  show "p \<notin> temp_paths pfx \<Longrightarrow> fs' p = fs p"
    using download_other [OF d1] download_other [OF d2] download_other [OF d3]
    by (auto simp: temp_paths_def)
  obtain content where c: "fs1 (pfx @ ''.exe'') = Some content" "length content \<le> 200 * 1024 * 1024"
    using download_stored [OF d1] by blast
  then have "fs' (pfx @ ''.exe'') = Some content"
    using download_other [OF d2] download_other [OF d3] by simp
  then show "\<exists>content. verified_binary sha256 lib key fs' pfx content"
    using v1 v2 c(2)
    by (auto simp: verified_binary_def verify_checksum_def verify_cosign_blob_def
        equal_bytes_iff split: option.splits if_splits)
qed

lemma download_and_verify_failed:
  assumes "download_and_verify pl net sha256 lib cfg key idb urls fs = (fs', Inl e)"
    and "\<And>b. idb = Some b \<Longrightarrow> p \<notin> temp_paths (update_prefix pl cfg b)"
  shows "fs' p = fs p"
proof (cases idb)
  case None
  then show ?thesis
    using assms(1) by (simp add: download_and_verify_def)
next
  case (Some b)
  let ?pfx = "update_prefix pl cfg b"
  obtain bin chk sg where urls: "urls = (bin, chk, sg)"
    by (cases urls)
  have p: "p \<notin> temp_paths ?pfx" "p \<noteq> ?pfx @ ''.exe''" "p \<noteq> ?pfx @ ''.sha256''" "p \<noteq> ?pfx @ ''.sig''"
    using assms(2) [OF Some] by (auto simp: temp_paths_def)
  obtain fs1 r1 where d1: "download net bin (?pfx @ ''.exe'') (200 * 1024 * 1024) fs = (fs1, r1)"
    by fastforce
  obtain fs2 r2 where d2: "download net chk (?pfx @ ''.sha256'') 4096 fs1 = (fs2, r2)"
    by fastforce
  obtain fs3 r3 where d3: "download net sg (?pfx @ ''.sig'') (1024 * 1024) fs2 = (fs3, r3)"
    by fastforce
  have "fs1 p = fs p" "fs2 p = fs p" "fs3 p = fs p"
    using download_other [OF d1 p(2)] download_other [OF d2 p(3)] download_other [OF d3 p(4)]
    by simp_all
  then show ?thesis
    using assms(1) Some urls d1 d2 d3 p(1)
    by (auto simp: download_and_verify_def Let_def cleanup_files_get split: option.splits)
qed

subsection \<open>What an update guarantees\<close>

text \<open>A failed download leaves no temporary file behind.\<close>

lemma download_and_verify_failed_temp:
  assumes "download_and_verify pl net sha256 lib cfg key idb urls fs = (fs', Inl e)"
    and "idb = Some b" and "p \<in> temp_paths (update_prefix pl cfg b)"
  shows "fs' p = None"
proof -
  obtain bin chk sg where "urls = (bin, chk, sg)"
    by (cases urls)
  then show ?thesis
    using assms by (auto simp: download_and_verify_def Let_def cleanup_files_get
        split: option.splits prod.splits)
qed

text \<open>The names of the temporary files differ from the agent's and its backups'.\<close>

definition paths_apart :: "'key update_env \<Rightarrow> updater_config \<Rightarrow> bool" where
  "paths_apart env cfg \<longleftrightarrow>
     (\<forall>b. up_random env = Some b \<longrightarrow>
        temp_paths (update_prefix (up_paths env) cfg b) \<inter>
          {agent_path cfg, backup_path cfg, failed_path (up_install env) cfg} = {})"

text \<open>What is known when the installation is reached.\<close>

definition update_approved ::
  "'key update_env \<Rightarrow> updater_config \<Rightarrow> string \<Rightarrow> world \<Rightarrow> files \<Rightarrow> string \<Rightarrow> string \<Rightarrow> bool" where
  "update_approved env cfg key w fs pfx content \<longleftrightarrow>
     \<not> is_killed (up_stat1 env) \<and> \<not> is_killed (up_stat2 env) \<and>
     verified_binary (up_sha256 env) (up_cosign env) key fs pfx content \<and>
     (\<exists>current downloaded rel v1 v2. latest (up_net env) cfg = Inr rel \<and>
        binary_version (up_run_version env) (agent_path cfg) (disk w) = Some current \<and>
        binary_version (up_run_version env) (pfx @ ''.exe'') fs = Some downloaded \<and>
        version_of current = Some v1 \<and> version_of (tag_name rel) = Some v2 \<and>
        version_of downloaded = Some v2 \<and> v1 < v2)"

lemma newer_version_true:
  assumes "newer_version current tag = Inr True" and "versions_equal downloaded tag"
  shows "\<exists>v1 v2. version_of current = Some v1 \<and> version_of tag = Some v2 \<and>
    version_of downloaded = Some v2 \<and> v1 < v2"
  using assms version_comparison [of current tag]
    version_comparison [of downloaded tag]
  by (auto split: option.splits)

text \<open>Either nothing but temporary files changed, or the installation was reached.\<close>

definition files_kept :: "'key update_env \<Rightarrow> updater_config \<Rightarrow> world \<Rightarrow> world \<Rightarrow> bool" where
  "files_kept env cfg w w' \<longleftrightarrow> running w' = running w \<and>
     (\<forall>p. (\<forall>b. up_random env = Some b \<longrightarrow> p \<notin> temp_paths (update_prefix (up_paths env) cfg b)) \<longrightarrow>
        disk w' p = disk w p) \<and>
     (\<forall>b p. up_random env = Some b \<longrightarrow> p \<in> temp_paths (update_prefix (up_paths env) cfg b) \<longrightarrow>
        disk w p = None \<longrightarrow> disk w' p = None)"

definition install_tried ::
  "'key update_env \<Rightarrow> updater_config \<Rightarrow> string \<Rightarrow> world \<Rightarrow> world \<Rightarrow> install_error option \<Rightarrow> bool" where
  "install_tried env cfg pfx w w' e \<longleftrightarrow>
     (\<exists>w2. install_verified (up_install env) cfg (pfx @ ''.exe'') w = (w2, e) \<and>
        w' = w2\<lparr>disk := cleanup_files pfx (disk w2)\<rparr>)"

lemma install_downloaded_cases:
  assumes "install_downloaded env cfg rel res pfx w = (w', res', err)" and "\<not> updated res"
  obtains (Kept) "w' = w\<lparr>disk := cleanup_files pfx (disk w)\<rparr>" "\<not> updated res'"
  | (Tried) downloaded e where
      "binary_version (up_run_version env) (pfx @ ''.exe'') (disk w) = Some downloaded"
      "versions_equal downloaded (tag_name rel)" "\<not> is_killed (up_stat2 env)"
      "install_tried env cfg pfx w w' e" "updated res' \<longleftrightarrow> e = None" "err = map_option Not_Installed e"
  using assms unfolding install_downloaded_def install_tried_def Let_def
  by (auto split: option.splits if_splits prod.splits)

lemma apply_release_cases:
  assumes "apply_release env cfg key rel res w = (w', res', err)" and "\<not> updated res"
  obtains (Kept) "files_kept env cfg w w'" "\<not> updated res'"
  | (Tried) b fs content downloaded e where "up_random env = Some b"
      "verified_binary (up_sha256 env) (up_cosign env) key fs (update_prefix (up_paths env) cfg b) content"
      "\<And>p. p \<notin> temp_paths (update_prefix (up_paths env) cfg b) \<Longrightarrow> fs p = disk w p"
      "binary_version (up_run_version env) (update_prefix (up_paths env) cfg b @ ''.exe'') fs =
         Some downloaded"
      "versions_equal downloaded (tag_name rel)" "\<not> is_killed (up_stat2 env)"
      "install_tried env cfg (update_prefix (up_paths env) cfg b) (w\<lparr>disk := fs\<rparr>) w' e"
      "updated res' \<longleftrightarrow> e = None" "err = map_option Not_Installed e"
proof (cases "required_assets (agent_asset_name cfg) rel")
  case (Inl e)
  then show ?thesis
    using Kept assms by (simp add: apply_release_def files_kept_def)
next
  case (Inr urls)
  obtain fs r where d: "download_and_verify (up_paths env) (up_net env) (up_sha256 env) (up_cosign env)
      cfg key (up_random env) urls (disk w) = (fs, r)"
    by fastforce
  show ?thesis
  proof (cases r)
    case (Inl e)
    then have "disk w' = fs" "running w' = running w" "\<not> updated res'"
      using assms Inr d by (auto simp: apply_release_def)
    then show ?thesis
      using Kept download_and_verify_failed [OF d [unfolded Inl]]
        download_and_verify_failed_temp [OF d [unfolded Inl]] by (simp add: files_kept_def)
  next
    case r: (Inr pfx)
    note d = d [unfolded r]
    obtain b where b: "up_random env = Some b" "pfx = update_prefix (up_paths env) cfg b"
      using download_and_verify_ok(3) [OF d] by blast
    have i: "install_downloaded env cfg rel res pfx (w\<lparr>disk := fs\<rparr>) = (w', res', err)"
      using assms(1) Inr d by (simp add: apply_release_def)
    from i assms(2) show ?thesis
    proof (cases rule: install_downloaded_cases)
      case Kept': Kept
      then show ?thesis
        using Kept b download_and_verify_ok(2) [OF d] by (simp add: files_kept_def cleanup_files_get)
    next
      case Tried': (Tried downloaded e)
      obtain content where
        "verified_binary (up_sha256 env) (up_cosign env) key fs pfx content"
        using download_and_verify_ok(1) [OF d] by blast
      then show ?thesis
        using Tried [of b fs content downloaded e] Tried' b download_and_verify_ok(2) [OF d] by simp
    qed
  qed
qed

lemma check_and_update_cases:
  assumes "check_and_update env cfg key w = (w', res, err)"
  obtains (Kept) "files_kept env cfg w w'" "\<not> updated res"
  | (Tried) b fs content e where "up_random env = Some b"
      "update_approved env cfg key w fs (update_prefix (up_paths env) cfg b) content"
      "\<And>p. p \<notin> temp_paths (update_prefix (up_paths env) cfg b) \<Longrightarrow> fs p = disk w p"
      "install_tried env cfg (update_prefix (up_paths env) cfg b) (w\<lparr>disk := fs\<rparr>) w' e"
      "updated res \<longleftrightarrow> e = None" "err = map_option Not_Installed e"
proof (cases "\<exists>current rel. \<not> is_killed (up_stat1 env) \<and>
    binary_version (up_run_version env) (agent_path cfg) (disk w) = Some current \<and>
    latest (up_net env) cfg = Inr rel \<and> newer_version current (tag_name rel) = Inr True")
  case False
  then have "w' = w" "\<not> updated res"
    using assms unfolding check_and_update_def Let_def empty_update_result_def
    by (auto split: option.splits if_splits sum.splits)
  then show ?thesis
    using Kept by (simp add: files_kept_def)
next
  case True
  then obtain current rel where k: "\<not> is_killed (up_stat1 env)"
    and v: "binary_version (up_run_version env) (agent_path cfg) (disk w) = Some current"
      "latest (up_net env) cfg = Inr rel" "newer_version current (tag_name rel) = Inr True"
    by blast
  let ?res = "empty_update_result\<lparr>current_version := current, latest_version := tag_name rel\<rparr>"
  have a: "apply_release env cfg key rel ?res w = (w', res, err)" "\<not> updated ?res"
    using assms k v by (simp_all add: check_and_update_def empty_update_result_def)
  then show ?thesis
  proof (cases rule: apply_release_cases)
    case Kept': Kept
    then show ?thesis
      using Kept by simp
  next
    case Tried': (Tried b fs content downloaded e)
    have "update_approved env cfg key w fs (update_prefix (up_paths env) cfg b) content"
      unfolding update_approved_def
      using k v Tried' newer_version_true [OF v(3) Tried'(5)] by blast
    then show ?thesis
      using Tried [of b fs content e] Tried' by simp
  qed
qed

text \<open>
  C8: whatever the network serves and whatever fails, a binary that replaces the agent was
  approved: the kill switch was not armed at any of the three looks (at the start, before the
  installation, and once the service had stopped), the signature over exactly these
  bytes verifies with the embedded key, their SHA-256 is the published one, they report the
  version of the release tag, and that version is newer than the agent's.
\<close>

theorem only_approved_binaries_installed:
  assumes "check_and_update env cfg key w = (w', res, err)" and "paths_apart env cfg"
    and "disk w (agent_path cfg) = Some old" and "disk w' (agent_path cfg) = Some c" and "c \<noteq> old"
  shows "\<exists>b fs. up_random env = Some b \<and>
    update_approved env cfg key w fs (update_prefix (up_paths env) cfg b) c \<and>
    \<not> is_killed (stat_after_stop (up_install env))"
  using assms(1)
proof (cases rule: check_and_update_cases)
  case Kept
  then have "disk w' (agent_path cfg) = disk w (agent_path cfg)"
    using assms(2) by (fastforce simp: files_kept_def paths_apart_def)
  then show ?thesis
    using assms(3-5) by simp
next
  case (Tried b fs content e)
  let ?pfx = "update_prefix (up_paths env) cfg b"
  have apart: "temp_paths ?pfx \<inter> {agent_path cfg, backup_path cfg} = {}"
    using assms(2) Tried(1) by (auto simp: paths_apart_def)
  have new: "fs (?pfx @ ''.exe'') = Some content"
    using Tried(2) by (simp add: update_approved_def verified_binary_def)
  have old: "fs (agent_path cfg) = Some old"
    using Tried(3) [of "agent_path cfg"] apart assms(3) by auto
  obtain w2 where i: "install_verified (up_install env) cfg (?pfx @ ''.exe'') (w\<lparr>disk := fs\<rparr>) = (w2, e)"
    and w': "w' = w2\<lparr>disk := cleanup_files ?pfx (disk w2)\<rparr>"
    using Tried(4) by (auto simp: install_tried_def)
  have d: "?pfx @ ''.exe'' \<notin> {agent_path cfg, backup_path cfg}"
    using apart by (auto simp: temp_paths_def)
  have "disk w' (agent_path cfg) = disk w2 (agent_path cfg)"
    using apart by (auto simp: w' cleanup_files_get)
  moreover have "disk w2 (agent_path cfg) \<in> {Some old, Some content, None}"
    using install_verified_ok [OF _ _ d, of "w\<lparr>disk := fs\<rparr>" old content "up_install env" w2]
      install_verified_failed [OF _ _ d, of "w\<lparr>disk := fs\<rparr>" old content "up_install env" w2] i old new
    by (cases e) auto
  moreover have "disk w2 (agent_path cfg) = Some old" if "is_killed (stat_after_stop (up_install env))"
    using install_killed [OF that i] old by simp
  ultimately show ?thesis
    using assms(4,5) Tried(1,2) by auto
qed

lemma first_field_plain:
  assumes "set s \<inter> space_bytes = {}" and "s \<noteq> []"
  shows "first_field s = Some s"
proof -
  have no: "\<not> has_prefix t r" if "r \<in> set space_runes" "set t \<inter> space_bytes = {}" for t r
  proof
    assume "has_prefix t r"
    then obtain u where "t = r @ u"
      by (auto simp: has_prefix_iff)
    moreover have "r \<noteq> []" "set r \<subseteq> space_bytes"
      using that(1) by (auto simp: space_runes_def space_bytes_def)
    ultimately show False
      using that(2) by (cases r) auto
  qed
  have "take_word t = t" if "set t \<inter> space_bytes = {}" for t
    using that
  proof (induction t)
    case (Cons x t)
    then show ?case
      using no [of _ "x # t"] by (auto simp: list_ex_iff)
  qed simp
  moreover have "strip_left space_runes s = s"
    using no assms(1) by (intro strip_left_id) blast
  ultimately show ?thesis
    using assms by (simp add: first_field_def)
qed

text \<open>An environment in which a release is newer, signed and installable.\<close>

definition sample_net :: net_env where
  "sample_net = \<lparr>url_scheme = (\<lambda>_. Some ''https''), path_escape = (\<lambda>s. s),
     fetch = (\<lambda>u. Some (True, if u = ''b'' then ''new'' else if u = ''c'' then replicate 64 (CHR ''0'') else [], False)),
     open_ok = (\<lambda>_. True), close_ok = (\<lambda>_. True),
     release_decoder = (\<lambda>_ _. Json_Value \<lparr>tag_name = version_text 1 1 0,
       assets = [\<lparr>asset_name = ''agent.exe'', asset_url = ''b''\<rparr>,
                 \<lparr>asset_name = ''agent.exe.sha256'', asset_url = ''c''\<rparr>,
                 \<lparr>asset_name = ''agent.exe.sig'', asset_url = ''s''\<rparr>]\<rparr> [])\<rparr>"

definition sample_env :: "unit update_env" where
  "sample_env = \<lparr>up_paths = \<lparr>path_dir = (\<lambda>_. ''d''), path_join = join_with ''/''\<rparr>, up_net = sample_net,
     up_sha256 = (\<lambda>_. replicate 32 (CHR 0x00)),
     up_cosign = \<lparr>load_key = (\<lambda>_. Some ()), verify_signature = (\<lambda>_ _ _. True)\<rparr>,
     up_run_version = (\<lambda>c. Some (if c = ''old'' then version_text 1 0 0 else version_text 1 1 0)),
     up_random = Some [], up_stat1 = Stat_Missing, up_stat2 = Stat_Missing, up_install = calm_env\<rparr>"

lemma trim_version_text: "trim_space (version_text a b c) = version_text a b c"
proof (rule trim_space_plain)
  have "is_digit x \<Longrightarrow> x \<notin> space_bytes" for x
    by (auto simp: is_digit_def space_bytes_def space_runes_def)
  moreover have "CHR ''.'' \<notin> space_bytes"
    by (simp add: space_bytes_def space_runes_def)
  ultimately show "set (version_text a b c) \<inter> space_bytes = {}"
    using version_text_chars [of _ a b c] by auto
qed

lemma parse_plain_version:
  "a < 2 ^ 63 \<Longrightarrow> b < 2 ^ 63 \<Longrightarrow> c < 2 ^ 63 \<Longrightarrow>
    parse_version (version_text a b c) = Inr [int a, int b, int c]"
  using parse_version_text [of a b c "[]" "[]"] by simp

lemma version_text_not_Nil: "version_text a b c \<noteq> []"
  using decimal_is_digits [of a] by (simp add: version_text_def)

lemma hex_zeros: "hex_decode (replicate 64 (CHR ''0'')) = Some (replicate 32 (CHR 0x00))"
proof -
  have "hex_decode (replicate (2 * n) (CHR ''0'')) = Some (replicate n (CHR 0x00))" for n
    by (induction n) (simp_all add: hex_value_def char_of_def)
  from this [of 32] show ?thesis by simp
qed

lemma sample_update:
  "\<exists>w' res. check_and_update sample_env sample_cfg ''k'' (sample_world\<lparr>disk := [''d/agent.exe'' \<mapsto> ''old'']\<rparr>) = (w', res, None)
     \<and> disk w' ''d/agent.exe'' = Some ''new'' \<and> updated res"
proof -
  have zeros: "first_field (replicate 64 (CHR ''0'')) = Some (replicate 64 (CHR ''0''))"
    by (rule first_field_plain) (auto simp: space_bytes_def space_runes_def)
  have eq: "equal_bytes (replicate 32 (CHR 0x00)) (replicate 32 (CHR 0x00))"
    using bytes_diff_zero [of "replicate 32 (CHR 0x00)" "replicate 32 (CHR 0x00)" 0]
    by (simp add: equal_bytes_def)
  show ?thesis
    by (simp add: check_and_update_def apply_release_def install_downloaded_def sample_env_def
      sample_net_def sample_world_def sample_cfg_def updater_default_def is_killed_def binary_version_def
      trim_version_text version_text_not_Nil latest_def newer_version_def parse_plain_version
      required_assets_def found_assets_def required_names_def found_url_def mget_Cons
      download_and_verify_def download_def update_prefix_def verify_checksum_def zeros hex_zeros eq
      verify_cosign_blob_def b64_decode_def versions_equal_def install_verified_def calm_env_def
      stop_service_def good_obs_def started_obs_def start_service_def rename_file_def remove_file_def
      cleanup_files_def empty_update_result_def)
qed

theorem only_approved_binaries_installed_witness:
  "\<exists>fs. update_approved sample_env sample_cfg ''k'' (sample_world\<lparr>disk := [''d/agent.exe'' \<mapsto> ''old'']\<rparr>)
     fs ''d/.update-'' ''new''"
proof -
  let ?w = "sample_world\<lparr>disk := [''d/agent.exe'' \<mapsto> ''old'']\<rparr>"
  have names: "agent_path sample_cfg = ''d/agent.exe''" "up_random sample_env = Some []"
    "update_prefix (up_paths sample_env) sample_cfg [] = ''d/.update-''"
    by (simp_all add: sample_cfg_def updater_default_def sample_env_def update_prefix_def)
  have apart: "paths_apart sample_env sample_cfg"
    by (simp add: paths_apart_def names temp_paths_def backup_path_def failed_path_def)
  obtain w' res where u: "check_and_update sample_env sample_cfg ''k'' ?w = (w', res, None)"
    "disk w' ''d/agent.exe'' = Some ''new''"
    using sample_update by blast
  show ?thesis
    using only_approved_binaries_installed [OF u(1) apart, of "''old''" "''new''"] u(2)
    by (simp add: names)
qed

text \<open>
  C27: the result of an update tells the truth: it says updated exactly when the approved
  binary is the agent and runs, with the former agent kept as the backup; otherwise the former
  agent is still there, unless putting it back failed.
\<close>

theorem update_result_is_truthful:
  assumes "check_and_update env cfg key w = (w', res, err)" and "paths_apart env cfg"
    and "disk w (agent_path cfg) = Some old"
  shows "if updated res
    then \<exists>b fs new. update_approved env cfg key w fs (update_prefix (up_paths env) cfg b) new \<and>
      disk w' (agent_path cfg) = Some new \<and> disk w' (backup_path cfg) = Some old \<and>
      running w' = Some new \<and> err = None
    else undo_ok (up_install env) \<and> restore_ok (up_install env) \<longrightarrow> disk w' (agent_path cfg) = Some old"
  using assms(1)
proof (cases rule: check_and_update_cases)
  case Kept
  then have "disk w' (agent_path cfg) = disk w (agent_path cfg)"
    using assms(2) by (fastforce simp: files_kept_def paths_apart_def)
  then show ?thesis
    using Kept assms(3) by simp
next
  case (Tried b fs content e)
  let ?pfx = "update_prefix (up_paths env) cfg b"
  have apart: "temp_paths ?pfx \<inter> {agent_path cfg, backup_path cfg} = {}"
    using assms(2) Tried(1) by (auto simp: paths_apart_def)
  have new: "fs (?pfx @ ''.exe'') = Some content"
    using Tried(2) by (simp add: update_approved_def verified_binary_def)
  have old: "fs (agent_path cfg) = Some old"
    using Tried(3) [of "agent_path cfg"] apart assms(3) by auto
  obtain w2 where i: "install_verified (up_install env) cfg (?pfx @ ''.exe'') (w\<lparr>disk := fs\<rparr>) = (w2, e)"
    and w': "w' = w2\<lparr>disk := cleanup_files ?pfx (disk w2)\<rparr>"
    using Tried(4) by (auto simp: install_tried_def)
  have d: "?pfx @ ''.exe'' \<notin> {agent_path cfg, backup_path cfg}"
    using apart by (auto simp: temp_paths_def)
  have same: "disk w' (agent_path cfg) = disk w2 (agent_path cfg)"
    "disk w' (backup_path cfg) = disk w2 (backup_path cfg)" "running w' = running w2"
    using apart by (auto simp: w' cleanup_files_get)
  show ?thesis
  proof (cases e)
    case None
    then have "disk w2 (agent_path cfg) = Some content \<and> disk w2 (backup_path cfg) = Some old \<and>
        running w2 = Some content"
      using install_verified_ok [OF _ _ d, of "w\<lparr>disk := fs\<rparr>" old content "up_install env" w2] i old new
      by simp
    then show ?thesis
      using None Tried(2,5,6) same by auto
  next
    case (Some x)
    then show ?thesis
      using install_verified_failed [OF _ _ d, of "w\<lparr>disk := fs\<rparr>" old content "up_install env" w2 x]
        i old new Tried(5) same by simp
  qed
qed

theorem update_result_is_truthful_witness:
  "\<exists>w' res. check_and_update sample_env sample_cfg ''k'' (sample_world\<lparr>disk := [''d/agent.exe'' \<mapsto> ''old'']\<rparr>) =
     (w', res, None) \<and> disk w' (backup_path sample_cfg) = Some ''old''"
proof -
  have names: "agent_path sample_cfg = ''d/agent.exe''" "up_random sample_env = Some []"
    "update_prefix (up_paths sample_env) sample_cfg [] = ''d/.update-''"
    by (simp_all add: sample_cfg_def updater_default_def sample_env_def update_prefix_def)
  have apart: "paths_apart sample_env sample_cfg"
    by (simp add: paths_apart_def names temp_paths_def backup_path_def failed_path_def)
  obtain w' res where u: "check_and_update sample_env sample_cfg ''k''
      (sample_world\<lparr>disk := [''d/agent.exe'' \<mapsto> ''old'']\<rparr>) = (w', res, None)" "updated res"
    using sample_update by blast
  show ?thesis
    using update_result_is_truthful [OF u(1) apart, of "''old''"] u by (auto simp: names)
qed

text \<open>
  an update, successful or not, leaves none of its downloaded files on the disk.
\<close>

theorem no_download_is_left_behind:
  assumes "check_and_update env cfg key w = (w', res, err)" and "up_random env = Some b"
    and "p \<in> temp_paths (update_prefix (up_paths env) cfg b)" and "disk w p = None"
  shows "disk w' p = None"
  using assms(1)
proof (cases rule: check_and_update_cases)
  case Kept
  then show ?thesis
    using assms(2-4) by (simp add: files_kept_def)
next
  case (Tried b' fs content e)
  then show ?thesis
    using assms(2,3) by (auto simp: install_tried_def cleanup_files_get)
qed

theorem no_download_is_left_behind_witness:
  "\<exists>w' res. check_and_update sample_env sample_cfg ''k'' (sample_world\<lparr>disk := [''d/agent.exe'' \<mapsto> ''old'']\<rparr>) =
     (w', res, None) \<and> disk w' ''d/.update-.sig'' = None"
proof -
  have names: "up_random sample_env = Some []"
    "update_prefix (up_paths sample_env) sample_cfg [] = ''d/.update-''"
    by (simp_all add: sample_cfg_def updater_default_def sample_env_def update_prefix_def)
  obtain w' res where u: "check_and_update sample_env sample_cfg ''k''
      (sample_world\<lparr>disk := [''d/agent.exe'' \<mapsto> ''old'']\<rparr>) = (w', res, None)"
    using sample_update by blast
  show ?thesis
    using no_download_is_left_behind [OF u names(1), of "''d/.update-.sig''"] u
    by (simp add: names temp_paths_def)
qed

end
