(* ===== verification/Scheduler.thy ===== *)
theory Scheduler
  imports Runner
begin

section \<open>Update scheduler: internal/updatescheduler/scheduler.go\<close>

text \<open>
  The agent starts the updater program at a fixed interval. The scheduler has one loop
  goroutine (\<open>run\<close>), and every updater it starts has a goroutine that waits for the process
  and then clears \<open>running\<close>. The steps of the loop, of the waiting goroutines, of the
  ticker, of the context and of the processes interleave freely. \<open>launch\<close> is split where its
  locks are: the test-and-set of \<open>running\<close>, the start of the process, the clearing of
  \<open>running\<close>. The \<open>Launcher\<close> interface is modelled by its contract: \<open>Start\<close> returns a new
  process or an error, \<open>Wait\<close> returns after the process has ended. Log lines are left out.
\<close>

subsection \<open>The lock around \<open>running\<close>\<close>

text \<open>
  A flag that one client at a time holds: taking it fails while it is held, and only the
  holder gives it back. The rest of the scheduler relies on these laws alone.
\<close>

locale single_flight =
  fixes try_take :: "'s \<Rightarrow> 's option"
    and give_back :: "'s \<Rightarrow> 's"
    and held :: "'s \<Rightarrow> bool"
  assumes take_free: "\<not> held s \<Longrightarrow> \<exists>s'. try_take s = Some s' \<and> held s'"
    and take_held: "held s \<Longrightarrow> try_take s = None"
    and given_back: "\<not> held (give_back s)"
begin

lemma take_SomeD: "try_take s = Some s' \<Longrightarrow> \<not> held s \<and> held s'"
  using take_free take_held by (cases "held s") force+

lemma take_NoneD: "try_take s = None \<Longrightarrow> held s"
  using take_free by force

lemma take_twice: "try_take s = Some s' \<Longrightarrow> try_take s' = None"
  using take_SomeD take_held by blast

lemma take_again: "\<exists>s'. try_take (give_back s) = Some s' \<and> held s'"
  using given_back take_free by blast

end

subsection \<open>State\<close>

datatype loop_pc = Loop_Off | Loop_Select | Loop_Launch | Loop_Start | Loop_Failed | Loop_Done

record scheduler =
  sched_path :: string
  sched_config :: string
  interval :: duration
  running :: bool
  loop :: loop_pc
  ctx_done :: bool
  ticks :: nat
  waiting :: "pid set"
  reaped :: "pid set"
  updaters :: "pid \<Rightarrow> proc"
  next_updater :: pid
  started :: "(pid \<times> string \<times> string list) list"

text \<open>
  \<open>waiting\<close> are the processes whose goroutine is in \<open>Wait\<close>, \<open>reaped\<close> those whose \<open>Wait\<close> has
  returned and whose goroutine is about to clear \<open>running\<close>; \<open>ticks\<close> is what the ticker's
  channel of capacity one holds; \<open>started\<close> records every process started with its path and
  arguments.
\<close>

definition new_scheduler :: "string \<Rightarrow> string \<Rightarrow> duration \<Rightarrow> scheduler" where
  "new_scheduler path config_path ivl =
     \<lparr>sched_path = path, sched_config = config_path, interval = ivl, running = False,
      loop = Loop_Off, ctx_done = False, ticks = 0, waiting = {}, reaped = {},
      updaters = (\<lambda>_. Absent), next_updater = 0, started = []\<rparr>"

definition set_running :: "bool \<Rightarrow> scheduler \<Rightarrow> scheduler" where
  "set_running v s = s\<lparr>running := v\<rparr>"

text \<open>\<open>Start\<close>: no loop when the interval is not positive.\<close>

definition start_scheduler :: "scheduler \<Rightarrow> scheduler" where
  "start_scheduler s = (if interval s \<le> 0 then s else s\<lparr>loop := Loop_Select\<rparr>)"

text \<open>The locked section at the start of \<open>launch\<close>.\<close>

definition claim_launch :: "scheduler \<Rightarrow> scheduler option" where
  "claim_launch s = (if running s then None else Some (set_running True s))"

definition launch_args :: "scheduler \<Rightarrow> string list" where
  "launch_args s = [''--check-only'', ''--config'', sched_config s]"

text \<open>
  The rest of \<open>launch\<close> up to its return: the process is started and its goroutine waits, or
  the start failed and \<open>running\<close> is still to be cleared.
\<close>

definition launch_process :: "bool \<Rightarrow> scheduler \<Rightarrow> scheduler" where
  "launch_process ok s =
     (if ok
      then let p = next_updater s in
        s\<lparr>updaters := (updaters s)(p := Alive), next_updater := Suc p,
          started := started s @ [(p, sched_path s, launch_args s)],
          waiting := insert p (waiting s), loop := Loop_Select\<rparr>
      else s\<lparr>loop := Loop_Failed\<rparr>)"

interpretation gate: single_flight claim_launch "set_running False" running
  by unfold_locales (auto simp: claim_launch_def set_running_def)

subsection \<open>Steps\<close>

text \<open>
  \<open>run\<close> is the loop of the same name: when the context is done and a tick is waiting too,
  \<open>select\<close> may take either.
\<close>

inductive sched_step :: "scheduler \<Rightarrow> scheduler \<Rightarrow> bool" where
  tick: "loop s \<noteq> Loop_Off \<Longrightarrow> loop s \<noteq> Loop_Done \<Longrightarrow> sched_step s (s\<lparr>ticks := 1\<rparr>)"
| cancel_ctx: "sched_step s (s\<lparr>ctx_done := True\<rparr>)"
| stop: "loop s = Loop_Select \<Longrightarrow> ctx_done s \<Longrightarrow> sched_step s (s\<lparr>loop := Loop_Done\<rparr>)"
| take_tick: "loop s = Loop_Select \<Longrightarrow> ticks s = 1 \<Longrightarrow>
    sched_step s (s\<lparr>ticks := 0, loop := Loop_Launch\<rparr>)"
| skip: "loop s = Loop_Launch \<Longrightarrow> claim_launch s = None \<Longrightarrow>
    sched_step s (s\<lparr>loop := Loop_Select\<rparr>)"
| claim: "loop s = Loop_Launch \<Longrightarrow> claim_launch s = Some s' \<Longrightarrow>
    sched_step s (s'\<lparr>loop := Loop_Start\<rparr>)"
| launch: "loop s = Loop_Start \<Longrightarrow> sched_step s (launch_process ok s)"
| launch_failed: "loop s = Loop_Failed \<Longrightarrow>
    sched_step s ((set_running False s)\<lparr>loop := Loop_Select\<rparr>)"
| updater_exits: "updaters s p = Alive \<Longrightarrow>
    sched_step s (s\<lparr>updaters := (updaters s)(p := Ended)\<rparr>)"
| wait_returns: "p \<in> waiting s \<Longrightarrow> updaters s p = Ended \<Longrightarrow>
    sched_step s (s\<lparr>waiting := waiting s - {p}, reaped := insert p (reaped s)\<rparr>)"
| clear: "p \<in> reaped s \<Longrightarrow>
    sched_step s ((set_running False s)\<lparr>reaped := reaped s - {p}\<rparr>)"

inductive_cases sched_stepE: "sched_step s t"

subsection \<open>What every reachable state satisfies\<close>

text \<open>The loop holds the flag itself between taking it and handing it to a waiting goroutine.\<close>

definition loop_holds :: "scheduler \<Rightarrow> bool" where
  "loop_holds s \<longleftrightarrow> loop s = Loop_Start \<or> loop s = Loop_Failed"

definition flag_wf :: "scheduler \<Rightarrow> bool" where
  "flag_wf s \<longleftrightarrow> (running s \<longleftrightarrow> loop_holds s \<or> waiting s \<union> reaped s \<noteq> {}) \<and>
     (loop_holds s \<longrightarrow> waiting s \<union> reaped s = {})"

definition procs_wf :: "scheduler \<Rightarrow> bool" where
  "procs_wf s \<longleftrightarrow> waiting s \<inter> reaped s = {} \<and>
     (\<forall>p \<in> waiting s \<union> reaped s. Suc p = next_updater s) \<and>
     (\<forall>p. updaters s p = Alive \<longrightarrow> p \<in> waiting s) \<and>
     (\<forall>p \<in> waiting s. updaters s p = Alive \<or> updaters s p = Ended) \<and>
     (\<forall>p \<in> reaped s. updaters s p = Ended)"

definition started_wf :: "scheduler \<Rightarrow> bool" where
  "started_wf s \<longleftrightarrow> map fst (started s) = [0..<next_updater s] \<and>
     (\<forall>(p, path, args) \<in> set (started s). path = sched_path s \<and> args = launch_args s) \<and>
     (interval s \<le> 0 \<longrightarrow> started s = [] \<and> loop s = Loop_Off)"

definition sched_inv :: "scheduler \<Rightarrow> bool" where
  "sched_inv s \<longleftrightarrow> flag_wf s \<and> procs_wf s \<and> started_wf s"

lemma claim_launch_None: "claim_launch s = None \<longleftrightarrow> running s"
  by (simp add: claim_launch_def)

lemma claim_launch_Some:
  "claim_launch s = Some s' \<longleftrightarrow> \<not> running s \<and> s' = s\<lparr>running := True\<rparr>"
  by (auto simp: claim_launch_def set_running_def)

lemmas sched_ops = claim_launch_None claim_launch_Some set_running_def launch_process_def launch_args_def
  loop_holds_def

lemma only_holder:
  assumes "procs_wf s" and "p \<in> waiting s \<union> reaped s"
  shows "waiting s \<union> reaped s = {p}"
proof -
  have "q = p" if "q \<in> waiting s \<union> reaped s" for q
    using assms that by (metis Suc_inject procs_wf_def)
  with assms(2) show ?thesis
    by blast
qed

lemma flag_wf_step: "sched_step s t \<Longrightarrow> flag_wf s \<Longrightarrow> procs_wf s \<Longrightarrow> flag_wf t"
proof (erule sched_stepE)
  fix p
  assume wf: "flag_wf s" "procs_wf s" and p: "p \<in> reaped s"
    and t: "t = (set_running False s)\<lparr>reaped := reaped s - {p}\<rparr>"
  have "waiting s \<union> reaped s = {p}"
    using wf(2) p by (intro only_holder) auto
  moreover have "waiting s \<inter> reaped s = {}"
    using wf(2) by (simp add: procs_wf_def)
  ultimately have "waiting s = {}" "reaped s = {p}"
    using p by auto
  with wf(1) t p show "flag_wf t"
    by (auto simp: flag_wf_def set_running_def loop_holds_def)
qed (auto simp: flag_wf_def sched_ops Let_def split: if_splits)

lemma procs_wf_step:
  assumes "sched_step s t" and "flag_wf s" and "procs_wf s"
  shows "procs_wf t"
  using assms(1)
  by cases
     (use assms(2,3) in
       \<open>auto simp: flag_wf_def procs_wf_def sched_ops Let_def split: if_splits\<close>)

lemma started_wf_step: "sched_step s t \<Longrightarrow> started_wf s \<Longrightarrow> started_wf t"
  by (erule sched_stepE)
     (auto simp: started_wf_def sched_ops Let_def split: if_splits)

lemma sched_inv_start: "sched_inv (start_scheduler (new_scheduler path cfg ivl))"
  by (auto simp: sched_inv_def flag_wf_def procs_wf_def started_wf_def start_scheduler_def
      new_scheduler_def loop_holds_def)

interpretation sc: rel_invariant sched_step sched_inv
  by unfold_locales
     (simp add: sched_inv_def flag_wf_step procs_wf_step started_wf_step)

lemma sched_reachable:
  "sched_step\<^sup>*\<^sup>* (start_scheduler (new_scheduler path cfg ivl)) s \<Longrightarrow> sched_inv s"
  by (rule sc.steps_inv [OF _ sched_inv_start])

text \<open>The configuration never changes.\<close>

lemma sched_step_config:
  "sched_step s t \<Longrightarrow> sched_path t = sched_path s \<and>
     sched_config t = sched_config s \<and> interval t = interval s"
  by (erule sched_stepE) (auto simp: sched_ops Let_def split: if_splits)

lemma sched_steps_config:
  "sched_step\<^sup>*\<^sup>* s t \<Longrightarrow> sched_path t = sched_path s \<and>
     sched_config t = sched_config s \<and> interval t = interval s"
  by (induction rule: rtranclp_induct) (auto dest: sched_step_config)

subsection \<open>The updater can always be started again\<close>

text \<open>The goroutine of an updater can bring the flag back: its process ends, \<open>Wait\<close> returns.\<close>

lemma reaped_clears:
  assumes "sched_inv s" and "p \<in> reaped s" and "\<not> loop_holds s"
  obtains t where "sched_step s t" "\<not> running t" "loop t = loop s" "started t = started s"
proof (rule that)
  show "sched_step s ((set_running False s)\<lparr>reaped := reaped s - {p}\<rparr>)"
    by (rule clear) (rule assms(2))
qed (simp_all add: set_running_def)

lemma waiting_reaped:
  assumes "sched_inv s" and "p \<in> waiting s"
  obtains t where "sched_step\<^sup>*\<^sup>* s t" "p \<in> reaped t" "loop t = loop s" "started t = started s"
proof -
  define s1 where "s1 = s\<lparr>updaters := (updaters s)(p := Ended)\<rparr>"
  have "updaters s p = Alive \<or> updaters s p = Ended"
    using assms by (cases "updaters s p") (auto simp: sched_inv_def procs_wf_def)
  then have 1: "sched_step\<^sup>*\<^sup>* s s1"
  proof
    assume "updaters s p = Alive"
    then show ?thesis
      unfolding s1_def by (intro r_into_rtranclp updater_exits)
  next
    assume "updaters s p = Ended"
    then have "s1 = s"
      by (auto simp: s1_def fun_upd_idem)
    then show ?thesis by simp
  qed
  have 2: "sched_step s1 (s1\<lparr>waiting := waiting s1 - {p}, reaped := insert p (reaped s1)\<rparr>)"
    using assms(2) by (intro wait_returns) (simp_all add: s1_def)
  show thesis
    by (rule that [OF rtranclp.rtrancl_into_rtrancl [OF 1 2]]) (simp_all add: s1_def)
qed

lemma flag_comes_back:
  assumes inv: "sched_inv s" and "\<not> loop_holds s"
  obtains t where "sched_step\<^sup>*\<^sup>* s t" "\<not> running t" "loop t = loop s" "started t = started s"
proof (cases "running s")
  case False
  then show ?thesis by (intro that [of s]) simp_all
next
  case True
  then obtain p where p: "p \<in> waiting s \<union> reaped s"
    using assms by (auto simp: sched_inv_def flag_wf_def)
  obtain s1 where s1: "sched_step\<^sup>*\<^sup>* s s1" "p \<in> reaped s1" "loop s1 = loop s" "started s1 = started s"
  proof (cases "p \<in> reaped s")
    case True
    then show ?thesis by (intro that [of s]) simp_all
  next
    case False
    with p inv show ?thesis by (auto elim!: waiting_reaped that)
  qed
  have "sched_inv s1"
    by (rule sc.steps_inv [OF s1(1) inv])
  then obtain t where "sched_step s1 t" "\<not> running t" "loop t = loop s1" "started t = started s1"
    by (rule reaped_clears [OF _ s1(2)]) (use assms(2) s1(3) in \<open>simp add: loop_holds_def\<close>)
  with s1 show ?thesis
    by (intro that [of t]) (simp_all add: rtranclp.rtrancl_into_rtrancl)
qed

text \<open>The three steps of a launch that finds the flag free.\<close>

lemma free_launch:
  assumes "loop s = Loop_Launch" and "\<not> running s"
  obtains t where "sched_step\<^sup>*\<^sup>* s t" "length (started t) = Suc (length (started s))"
proof -
  obtain s1 where s1: "claim_launch s = Some s1"
    using gate.take_free assms(2) by blast
  then have 1: "sched_step s (s1\<lparr>loop := Loop_Start\<rparr>)"
    by (intro claim assms(1))
  have 2: "sched_step (s1\<lparr>loop := Loop_Start\<rparr>) (launch_process True (s1\<lparr>loop := Loop_Start\<rparr>))"
    by (rule launch) simp
  show thesis
  proof (rule that [of "launch_process True (s1\<lparr>loop := Loop_Start\<rparr>)"])
    show "sched_step\<^sup>*\<^sup>* s (launch_process True (s1\<lparr>loop := Loop_Start\<rparr>))"
      using 1 2 by (meson converse_rtranclp_into_rtranclp r_into_rtranclp)
    show "length (started (launch_process True (s1\<lparr>loop := Loop_Start\<rparr>))) =
            Suc (length (started s))"
      using s1 by (simp add: claim_launch_Some launch_process_def Let_def)
  qed
qed

lemma next_tick_launches:
  assumes "loop s = Loop_Select" and "\<not> running s"
  obtains t where "sched_step\<^sup>*\<^sup>* s t" "length (started t) = Suc (length (started s))"
proof -
  define s1 where "s1 = s\<lparr>ticks := 1\<rparr>"
  define s2 where "s2 = s1\<lparr>ticks := 0, loop := Loop_Launch\<rparr>"
  have 1: "sched_step s s1"
    unfolding s1_def by (rule tick) (simp_all add: assms(1))
  have 2: "sched_step s1 s2"
    unfolding s2_def by (rule take_tick) (simp_all add: assms(1) s1_def)
  obtain t where t: "sched_step\<^sup>*\<^sup>* s2 t" "length (started t) = Suc (length (started s2))"
    by (rule free_launch [of s2]) (simp_all add: s2_def s1_def assms)
  show thesis
    by (rule that [of t])
       (use 1 2 t in \<open>simp_all add: s1_def s2_def converse_rtranclp_into_rtranclp\<close>)
qed

subsection \<open>Properties\<close>

abbreviation scheduler_run :: "string \<Rightarrow> string \<Rightarrow> duration \<Rightarrow> scheduler \<Rightarrow> bool" where
  "scheduler_run path cfg ivl s \<equiv>
     sched_step\<^sup>*\<^sup>* (start_scheduler (new_scheduler path cfg ivl)) s"

text \<open>A run that starts an updater: tick, launch, running.\<close>

definition one_updater :: scheduler where
  "one_updater = (new_scheduler ''u'' ''c'' 5)\<lparr>loop := Loop_Select, running := True,
     waiting := {0}, updaters := (\<lambda>_. Absent)(0 := Alive), next_updater := 1,
     started := [(0, ''u'', [''--check-only'', ''--config'', ''c''])]\<rparr>"

lemma one_updater_run: "scheduler_run ''u'' ''c'' 5 one_updater"
proof -
  let ?s0 = "(new_scheduler ''u'' ''c'' 5)\<lparr>loop := Loop_Select\<rparr>"
  let ?s1 = "?s0\<lparr>ticks := 1\<rparr>"
  let ?s2 = "?s1\<lparr>ticks := 0, loop := Loop_Launch\<rparr>"
  let ?s3 = "?s2\<lparr>running := True, loop := Loop_Start\<rparr>"
  have "sched_step ?s0 ?s1"
    by (rule tick) (simp_all add: new_scheduler_def)
  moreover have "sched_step ?s1 ?s2"
    by (rule take_tick) (simp_all add: new_scheduler_def)
  moreover have "sched_step ?s2 ((?s2\<lparr>running := True\<rparr>)\<lparr>loop := Loop_Start\<rparr>)"
    by (rule claim) (simp_all add: new_scheduler_def claim_launch_Some)
  moreover have "sched_step ?s3 (launch_process True ?s3)"
    by (rule launch) simp
  moreover have "launch_process True ?s3 = one_updater"
    by (simp add: launch_process_def launch_args_def new_scheduler_def one_updater_def Let_def)
  moreover have "start_scheduler (new_scheduler ''u'' ''c'' 5) = ?s0"
    by (simp add: start_scheduler_def new_scheduler_def)
  ultimately show ?thesis
    by (simp add: converse_rtranclp_into_rtranclp)
qed

text \<open>
  C28: at most one updater runs at a time: in every reachable state two live updater processes
  are the same process, and while one lives \<open>running\<close> is set and its goroutine waits for it,
  so the next tick is skipped.
\<close>

theorem at_most_one_updater:
  assumes "scheduler_run path cfg ivl s" and "updaters s p = Alive"
  shows "(\<forall>q. updaters s q = Alive \<longrightarrow> q = p) \<and> running s \<and> p \<in> waiting s \<and> claim_launch s = None"
proof -
  have inv: "flag_wf s" "procs_wf s"
    using sched_reachable [OF assms(1)] by (simp_all add: sched_inv_def)
  then have p: "p \<in> waiting s"
    using assms(2) by (simp add: procs_wf_def)
  then have only: "waiting s \<union> reaped s = {p}"
    using only_holder inv(2) by blast
  have "running s"
    using inv(1) p by (auto simp: flag_wf_def)
  moreover have "q = p" if "updaters s q = Alive" for q
    using inv(2) that only by (auto simp: procs_wf_def)
  ultimately show ?thesis
    using p by (simp add: claim_launch_None)
qed

theorem at_most_one_updater_witness:
  "{q. updaters one_updater q = Alive} \<subseteq> {0} \<and> running one_updater \<and>
   0 \<in> waiting one_updater \<and> claim_launch one_updater = None"
proof -
  have "updaters one_updater 0 = Alive"
    by (simp add: one_updater_def)
  from at_most_one_updater [OF one_updater_run this] show ?thesis
    by blast
qed

text \<open>
  C30: the scheduler cannot lock itself out: from every reachable state in which its loop has
  not ended there is a continuation in which one more updater is started, whatever failed or
  is still running now.
\<close>

theorem updates_keep_coming:
  assumes "scheduler_run path cfg ivl s" and "loop s \<noteq> Loop_Off" and "loop s \<noteq> Loop_Done"
  shows "\<exists>t. sched_step\<^sup>*\<^sup>* s t \<and> length (started t) = Suc (length (started s))"
proof -
  have inv: "sched_inv s"
    using sched_reachable [OF assms(1)] .
  have free: "\<exists>t. sched_step\<^sup>*\<^sup>* s t \<and> length (started t) = Suc (length (started s))"
    if l: "loop s = Loop_Select \<or> loop s = Loop_Launch" and inv: "sched_inv s" for s
  proof -
    obtain t where t: "sched_step\<^sup>*\<^sup>* s t" "\<not> running t" "loop t = loop s" "started t = started s"
      by (rule flag_comes_back [OF inv]) (use l in \<open>auto simp: loop_holds_def\<close>)
    obtain u where "sched_step\<^sup>*\<^sup>* t u" "length (started u) = Suc (length (started t))"
      using l t(2,3) by (metis next_tick_launches free_launch)
    with t show ?thesis
      by (auto intro: rtranclp_trans)
  qed
  consider "loop s = Loop_Select \<or> loop s = Loop_Launch" | "loop s = Loop_Start" | "loop s = Loop_Failed"
    using assms(2,3) by (cases "loop s") auto
  then show ?thesis
  proof cases
    case 1
    then show ?thesis by (rule free [OF _ inv])
  next
    case 2
    then have "sched_step s (launch_process True s)"
      by (rule launch)
    then show ?thesis
      by (auto simp: launch_process_def Let_def intro!: exI [of _ "launch_process True s"])
  next
    case 3
    define t where "t = (set_running False s)\<lparr>loop := Loop_Select\<rparr>"
    have step: "sched_step s t"
      unfolding t_def using 3 by (rule launch_failed)
    moreover have "sched_inv t"
      by (rule sc.step_inv [OF step inv])
    moreover have "started t = started s"
      by (simp add: t_def set_running_def)
    ultimately show ?thesis
      using free [of t] by (auto simp: t_def intro: converse_rtranclp_into_rtranclp)
  qed
qed

theorem updates_keep_coming_witness:
  "\<exists>t. sched_step\<^sup>*\<^sup>* one_updater t \<and> length (started t) = Suc (length (started one_updater))"
  by (rule updates_keep_coming [OF one_updater_run])
     (simp_all add: one_updater_def new_scheduler_def)

lemma started_by_scheduler:
  assumes "scheduler_run path cfg ivl s" and "(p, exe, args) \<in> set (started s)"
  shows "exe = path \<and> args = [''--check-only'', ''--config'', cfg] \<and> 0 < ivl"
proof -
  have "started_wf s"
    using sched_reachable [OF assms(1)] by (simp add: sched_inv_def)
  moreover have "sched_path s = path \<and> sched_config s = cfg \<and> interval s = ivl"
    using sched_steps_config [OF assms(1)] by (simp add: start_scheduler_def new_scheduler_def)
  ultimately show ?thesis
    using assms(2) by (cases "ivl \<le> 0") (auto simp: started_wf_def launch_args_def)
qed

text \<open>
  the scheduler starts nothing but the configured updater, each time with the arguments
  \<open>--check-only --config\<close> and the configured path, and nothing at all when the interval is
  not positive.
\<close>

theorem only_the_updater_is_started:
  assumes "scheduler_run path cfg ivl s" and "(p, exe, args) \<in> set (started s)"
  shows "exe = path \<and> args = [''--check-only'', ''--config'', cfg] \<and> 0 < ivl"
  using assms by (rule started_by_scheduler)

theorem only_the_updater_is_started_witness:
  "(\<lambda>(p, exe, args). exe = ''u'' \<and> args = [''--check-only'', ''--config'', ''c''] \<and> (0 :: int) < 5)
     (hd (started one_updater))"
  using only_the_updater_is_started [OF one_updater_run, of 0 "''u''" "launch_args one_updater"]
  by (simp add: one_updater_def launch_args_def)

end
