(* ===== verification/Go_Flag.thy ===== *)
theory Go_Flag
  imports WLM_Prelude
begin

section \<open>Command-line flags: the package flag of the Go standard library\<close>

text \<open>
  The parser the three programs use for their arguments, for the two kinds of flags they
  define. The result is an association of the flags that were set with their raw values (the
  last one wins) and the arguments left over. A flag that was not set keeps its default.
\<close>

datatype flag_kind = Bool_Flag | String_Flag

datatype flag_error =
    Bad_Syntax string | Undefined_Flag string | Help_Wanted | Bad_Bool string | Needs_Value string

definition parse_bool :: "string \<Rightarrow> bool option" where
  "parse_bool s =
     (if s \<in> set [''1'', ''t'', ''T'', ''TRUE'', ''true'', ''True''] then Some True
      else if s \<in> set [''0'', ''f'', ''F'', ''FALSE'', ''false'', ''False''] then Some False
      else None)"

text \<open>What one argument is: no flag, the terminator, or a flag with the text after its dashes.\<close>

datatype arg_class = Plain_Arg | Terminator | Flag_Text string

definition classify_arg :: "string \<Rightarrow> arg_class" where
  "classify_arg s =
     (if length s < 2 \<or> hd s \<noteq> CHR ''-'' then Plain_Arg
      else if s ! 1 \<noteq> CHR ''-'' then Flag_Text (drop 1 s)
      else if length s = 2 then Terminator
      else Flag_Text (drop 2 s))"

definition bad_flag_text :: "string \<Rightarrow> bool" where
  "bad_flag_text t \<longleftrightarrow> t = [] \<or> hd t = CHR ''-'' \<or> hd t = CHR ''=''"

text \<open>\<open>name=value\<close>; the first character of the text belongs to the name.\<close>

definition split_flag :: "string \<Rightarrow> string \<times> string option" where
  "split_flag t =
     (let name = takeWhile (\<lambda>c. c \<noteq> CHR ''='') t; rest = dropWhile (\<lambda>c. c \<noteq> CHR ''='') t
      in (name, if rest = [] then None else Some (tl rest)))"

fun parse_flags ::
  "(string \<times> flag_kind) list \<Rightarrow> string list \<Rightarrow> (string \<times> string) list \<Rightarrow>
   flag_error + (string \<times> string) list \<times> string list" where
  "parse_flags defs [] vals = Inr (vals, [])"
| "parse_flags defs (a # as) vals =
     (case classify_arg a of
        Plain_Arg \<Rightarrow> Inr (vals, a # as)
      | Terminator \<Rightarrow> Inr (vals, as)
      | Flag_Text t \<Rightarrow>
          if bad_flag_text t then Inl (Bad_Syntax a)
          else
            let (name, value) = split_flag t in
            case mget defs name of
              None \<Rightarrow> Inl (if name = ''help'' \<or> name = ''h'' then Help_Wanted else Undefined_Flag name)
            | Some Bool_Flag \<Rightarrow>
                (case value of
                   None \<Rightarrow> parse_flags defs as (mput name ''true'' vals)
                 | Some v \<Rightarrow>
                     if parse_bool v = None then Inl (Bad_Bool name)
                     else parse_flags defs as (mput name v vals))
            | Some String_Flag \<Rightarrow>
                (case value of
                   Some v \<Rightarrow> parse_flags defs as (mput name v vals)
                 | None \<Rightarrow>
                     (case as of
                        [] \<Rightarrow> Inl (Needs_Value name)
                      | v # as' \<Rightarrow> parse_flags defs as' (mput name v vals))))"

definition string_flag :: "(string \<times> string) list \<Rightarrow> string \<Rightarrow> string \<Rightarrow> string" where
  "string_flag vals name dflt = (case mget vals name of None \<Rightarrow> dflt | Some v \<Rightarrow> v)"

definition bool_flag :: "(string \<times> string) list \<Rightarrow> string \<Rightarrow> bool" where
  "bool_flag vals name = (case mget vals name of None \<Rightarrow> False | Some v \<Rightarrow> parse_bool v = Some True)"

subsection \<open>Reading flags back\<close>

lemma classify_long_flag: "t \<noteq> [] \<Longrightarrow> classify_arg (''--'' @ t) = Flag_Text t"
  by (simp add: classify_arg_def)

lemma split_flag_plain: "CHR ''='' \<notin> set t \<Longrightarrow> split_flag t = (t, None)"
  by (auto simp: split_flag_def Let_def takeWhile_eq_all_conv dropWhile_eq_Nil_conv)

lemma parse_bool_flag:
  assumes "t \<noteq> []" "CHR ''='' \<notin> set t" "hd t \<noteq> CHR ''-''" "mget defs t = Some Bool_Flag"
  shows "parse_flags defs ((''--'' @ t) # as) vals = parse_flags defs as (mput t ''true'' vals)"
  using assms classify_long_flag [OF assms(1)]
  by (auto simp: bad_flag_text_def split_flag_plain hd_in_set dest: hd_in_set)

lemma parse_string_flag:
  assumes "t \<noteq> []" "CHR ''='' \<notin> set t" "hd t \<noteq> CHR ''-''" "mget defs t = Some String_Flag"
  shows "parse_flags defs ((''--'' @ t) # v # as) vals = parse_flags defs as (mput t v vals)"
  using assms classify_long_flag [OF assms(1)]
  by (auto simp: bad_flag_text_def split_flag_plain dest: hd_in_set)

lemma parse_flags_Nil: "parse_flags defs [] vals = Inr (vals, [])"
  by simp

declare parse_flags.simps [simp del]
declare parse_flags_Nil [simp]

end
