(* ===== verification/Cmd_Updater.thy ===== *)
theory Cmd_Updater
  imports Updater Scheduler Go_Flag
begin

section \<open>The updater program: cmd/updater/main.go\<close>

text \<open>
  \<open>run\<close> of the updater program: flags, configuration, log file, embedded key, then one
  \<open>CheckAndUpdate\<close>. What the program finds around it (its own directory, the files, the JSON
  decoder, the answers to \<open>MkdirAll\<close> and \<open>OpenFile\<close>) is a record. The result tells what the
  program did: the error it ends with, or what it printed or logged.
\<close>

record 'key updater_program =
  pr_base_dir :: string
  pr_join :: "string list \<Rightarrow> string"
  pr_dir :: "string \<Rightarrow> string"
  pr_decode :: "updater_config json_decoder"
  pr_read :: "string \<Rightarrow> string + string"
  pr_mkdir_ok :: bool
  pr_log_open_ok :: bool
  pr_embedded_key :: string
  pr_env :: "'key update_env"

datatype updater_exit =
    Exit_Flags flag_error | Exit_Version | Exit_No_Action | Exit_Config updater_config_error
  | Exit_Log | Exit_No_Key | Exit_Update update_error | Exit_Checked update_result

definition updater_flags :: "(string \<times> flag_kind) list" where
  "updater_flags = [(''config'', String_Flag), (''check-only'', Bool_Flag), (''version'', Bool_Flag)]"

definition updater_main ::
  "'key updater_program \<Rightarrow> string list \<Rightarrow> world \<Rightarrow> world \<times> updater_exit" where
  "updater_main pr args w =
     (case parse_flags updater_flags args [] of
        Inl e \<Rightarrow> (w, Exit_Flags e)
      | Inr (vals, _) \<Rightarrow>
          let config_path =
                string_flag vals ''config'' (pr_join pr [pr_base_dir pr, ''updater-config.json'']) in
          if bool_flag vals ''version'' then (w, Exit_Version)
          else if \<not> bool_flag vals ''check-only'' then (w, Exit_No_Action)
          else
            case load_updater_config (pr_decode pr)
                   (updater_default (pr_join pr) (pr_dir pr config_path)) (pr_read pr config_path) of
              Inl e \<Rightarrow> (w, Exit_Config e)
            | Inr cfg \<Rightarrow>
                if \<not> pr_mkdir_ok pr \<or> \<not> pr_log_open_ok pr then (w, Exit_Log)
                else
                  case b64_decode (pr_embedded_key pr) of
                    None \<Rightarrow> (w, Exit_No_Key)
                  | Some key \<Rightarrow>
                      if key = [] then (w, Exit_No_Key)
                      else
                        (case check_and_update (pr_env pr) cfg key w of
                           (w', _, Some e) \<Rightarrow> (w', Exit_Update e)
                         | (w', res, None) \<Rightarrow> (w', Exit_Checked res)))"

lemma scheduler_flags:
  "parse_flags updater_flags [''--check-only'', ''--config'', path] [] =
     Inr ([(''check-only'', ''true''), (''config'', path)], [])"
proof -
  have "parse_flags updater_flags [''--check-only'', ''--config'', path] [] =
      parse_flags updater_flags [''--config'', path] (mput ''check-only'' ''true'' [])"
    using parse_bool_flag [of "''check-only''" updater_flags "[''--config'', path]" "[]"]
    by (simp add: updater_flags_def mget_Cons)
  also have "\<dots> = Inr (mput ''config'' path (mput ''check-only'' ''true'' []), [])"
    using parse_string_flag [of "''config''" updater_flags path "[]"]
    by (simp add: updater_flags_def mget_Cons)
  finally show ?thesis by simp
qed

lemma scheduler_flag_values:
  "bool_flag [(''check-only'', ''true''), (''config'', path)] ''check-only''"
  "\<not> bool_flag [(''check-only'', ''true''), (''config'', path)] ''version''"
  "string_flag [(''check-only'', ''true''), (''config'', path)] ''config'' d = path"
  by (simp_all add: bool_flag_def string_flag_def mget_Cons parse_bool_def)

text \<open>
  C29: the arguments the scheduler passes make the updater program check for an update with
  the configuration file the agent names: whatever updater process the scheduler has started
  does exactly one \<open>CheckAndUpdate\<close> under the configuration loaded from that path, provided
  the file loads, the log opens and a key is embedded.
\<close>

theorem scheduled_updater_checks:
  assumes "scheduler_run exe path ivl s" and "(p, prog, args) \<in> set (started s)"
    and "load_updater_config (pr_decode pr) (updater_default (pr_join pr) (pr_dir pr path))
           (pr_read pr path) = Inr cfg"
    and "pr_mkdir_ok pr" and "pr_log_open_ok pr"
    and "b64_decode (pr_embedded_key pr) = Some key" and "key \<noteq> []"
  shows "updater_main pr args w =
     (case check_and_update (pr_env pr) cfg key w of
        (w', _, Some e) \<Rightarrow> (w', Exit_Update e)
      | (w', res, None) \<Rightarrow> (w', Exit_Checked res))"
proof -
  have "args = [''--check-only'', ''--config'', path]"
    using started_by_scheduler [OF assms(1,2)] by simp
  then show ?thesis
    using assms(3-7) by (simp add: updater_main_def scheduler_flags scheduler_flag_values Let_def)
qed

text \<open>A program whose configuration loads and whose key is the one byte \<open>k\<close>.\<close>

definition sample_program :: "unit updater_program" where
  "sample_program = \<lparr>pr_base_dir = ''d'', pr_join = join_with ''/'', pr_dir = (\<lambda>_. ''d''),
     pr_decode = (\<lambda>_ _. Json_Value sample_cfg []),
     pr_read = (\<lambda>_. Inr ''{}''), pr_mkdir_ok = True, pr_log_open_ok = True,
     pr_embedded_key = b64_encode ''k'', pr_env = sample_env\<rparr>"

lemma sample_program_config:
  "load_updater_config (pr_decode sample_program)
     (updater_default (pr_join sample_program) (pr_dir sample_program path)) (pr_read sample_program path) =
   Inr sample_cfg"
  by (simp add: load_updater_config_def sample_program_def sample_cfg_def updater_default_def
      json_at_eof_def)

theorem scheduled_updater_checks_witness:
  "updater_main sample_program [''--check-only'', ''--config'', ''c''] sample_world =
     (case check_and_update (pr_env sample_program)
             sample_cfg ''k'' sample_world of
        (w', _, Some e) \<Rightarrow> (w', Exit_Update e)
      | (w', res, None) \<Rightarrow> (w', Exit_Checked res))"
  by (rule scheduled_updater_checks [OF one_updater_run _ sample_program_config, of 0 "''u''"])
     (simp_all add: one_updater_def sample_program_def b64_decode_encode del: b64_encode.simps)

text \<open>
  without the explicit request, a loadable configuration and a valid embedded key the
  updater program changes nothing: any end but that of an update check leaves the disk and
  the service as they were.
\<close>

theorem updater_refuses_without_key:
  assumes "updater_main pr args w = (w', ex)"
    and "(\<forall>e. ex \<noteq> Exit_Update e) \<and> (\<forall>res. ex \<noteq> Exit_Checked res) \<or>
         b64_decode (pr_embedded_key pr) = None \<or> b64_decode (pr_embedded_key pr) = Some []"
  shows "w' = w"
  using assms
  by (auto simp: updater_main_def Let_def split: sum.splits if_splits option.splits prod.splits)

theorem updater_refuses_without_key_witness:
  "fst (updater_main (sample_program\<lparr>pr_embedded_key := []\<rparr>) [''--check-only''] sample_world) = sample_world"
  by (rule updater_refuses_without_key [where ex = "snd (updater_main (sample_program\<lparr>pr_embedded_key := []\<rparr>)
        [''--check-only''] sample_world)" and args = "[''--check-only'']"
        and pr = "sample_program\<lparr>pr_embedded_key := []\<rparr>"])
     (simp_all add: b64_decode_def)

end
