(* ===== verification/Pki.thy ===== *)
theory Pki
  imports Go_Flag Go_Os Go_Codec Security
begin

section \<open>The certificate tool: cmd/pki/main.go\<close>

text \<open>
  The tool creates a certificate authority, issues server certificates and prints
  fingerprints. Key generation, X.509, PEM and SHA-256 are parameters; what is modelled is
  what the tool does around them: flags, the names a certificate is for, the protection of
  existing files, the order of the writes and what is reported when one fails.
\<close>

subsection \<open>Names\<close>

definition split_csv :: "string \<Rightarrow> string list" where
  "split_csv value =
     filter (\<lambda>item. item \<noteq> []) (map trim_space (split_byte (CHR '','') value))"

text \<open>The loop of \<open>uniqueStrings\<close> with its set \<open>seen\<close>.\<close>

fun unique_loop :: "string set \<Rightarrow> string list \<Rightarrow> string list" where
  "unique_loop seen [] = []"
| "unique_loop seen (v # vs) =
     (let value = trim_space v in
      if value \<noteq> [] \<and> value \<notin> seen then value # unique_loop (insert value seen) vs
      else unique_loop seen vs)"

definition unique_strings :: "string list \<Rightarrow> string list" where
  "unique_strings values = unique_loop {} values"

text \<open>The loop of \<open>issue\<close> over the \<open>--ip\<close> names: the first bad one is the error.\<close>

fun parse_ips :: "'ip net_lib \<Rightarrow> string list \<Rightarrow> string + 'ip list" where
  "parse_ips net [] = Inr []"
| "parse_ips net (raw # raws) =
     (case parse_ip net raw of
        None \<Rightarrow> Inl raw
      | Some ip \<Rightarrow> (case parse_ips net raws of Inl e \<Rightarrow> Inl e | Inr ips \<Rightarrow> Inr (ip # ips)))"

definition issue_names ::
  "'ip net_lib \<Rightarrow> string \<Rightarrow> string \<Rightarrow> string \<Rightarrow> string + string list \<times> 'ip list" where
  "issue_names net name dns_names ip_addresses =
     (let dns = split_csv dns_names;
          (ips, dns) = (case parse_ip net name of
                          Some primary \<Rightarrow> ([primary], dns)
                        | None \<Rightarrow> ([], name # dns));
          dns = unique_strings dns
      in case parse_ips net (split_csv ip_addresses) of
           Inl raw \<Rightarrow> Inl raw
         | Inr extra \<Rightarrow> Inr (dns, ips @ extra))"

subsection \<open>Files\<close>

datatype pki_error =
    Pki_Usage | Pki_Unknown_Command string | Pki_Flags flag_error | Pki_Exists | Pki_No_Name
  | Pki_No_Key | Pki_No_Serial | Pki_No_Certificate | Pki_No_Key_Text | Pki_Bad_IP string
  | Pki_Bad_CA | Pki_Write string | Pki_Read | Pki_Bad_PEM

record 'ip cert_template =
  tp_serial :: nat
  tp_common_name :: string
  tp_not_before :: timestamp
  tp_not_after :: timestamp
  tp_is_ca :: bool
  tp_dns :: "string list"
  tp_ips :: "'ip list"

text \<open>
  What the tool finds around it. \<open>pk_written p k\<close> is the answer to the \<open>k\<close>-th write to the
  file \<open>p\<close>: everything, or only the first bytes; \<open>pk_stat_ok\<close> is false where \<open>os.Stat\<close> fails
  on a file that exists.
\<close>

record ('ip, 'cert, 'key) pki_env =
  pk_net :: "'ip net_lib"
  pk_now :: timestamp
  pk_add_years :: "nat \<Rightarrow> timestamp \<Rightarrow> timestamp"
  pk_key :: "'key option"
  pk_serial :: "nat option"
  pk_create :: "'ip cert_template \<Rightarrow> 'cert option \<Rightarrow> 'key \<Rightarrow> 'key \<Rightarrow> string option"
  pk_key_text :: "'key \<Rightarrow> string option"
  pk_parse_cert :: "string \<Rightarrow> 'cert option"
  pk_parse_key :: "string \<Rightarrow> 'key option"
  pk_key_of_cert :: "'cert \<Rightarrow> 'key \<Rightarrow> bool"
  pk_raw :: "'cert \<Rightarrow> string"
  pk_pem :: "string \<Rightarrow> string \<Rightarrow> string"
  pk_unpem :: "string \<Rightarrow> (string \<times> string) option"
  pk_sha256 :: "string \<Rightarrow> string"
  pk_stat_ok :: "string \<Rightarrow> bool"
  pk_mkdir_ok :: "string \<Rightarrow> bool"
  pk_open_ok :: "string \<Rightarrow> bool"
  pk_written :: "string \<Rightarrow> nat \<Rightarrow> nat option"
  pk_close_ok :: "string \<Rightarrow> bool"
  pk_remove_ok :: bool

definition file_exists :: "('ip, 'cert, 'key) pki_env \<Rightarrow> string \<Rightarrow> files \<Rightarrow> bool" where
  "file_exists env path fs \<longleftrightarrow> pk_stat_ok env path \<and> fs path \<noteq> None"

definition open_output ::
  "('ip, 'cert, 'key) pki_env \<Rightarrow> string \<Rightarrow> bool \<Rightarrow> files \<Rightarrow> files option" where
  "open_output env path force fs =
     open_create (pk_open_ok env path) (if force then Open_Trunc else Open_Excl) path fs"

text \<open>One \<open>pem.Encode\<close> to an open file: what it leaves there and whether it succeeded.\<close>

definition encode_pem ::
  "('ip, 'cert, 'key) pki_env \<Rightarrow> string \<Rightarrow> nat \<Rightarrow> string \<Rightarrow> string \<Rightarrow> files \<Rightarrow> files \<times> bool" where
  "encode_pem env path k block_type der fs =
     (let text = pk_pem env block_type der in
      case pk_written env path k of
        None \<Rightarrow> (append_file path text fs, True)
      | Some n \<Rightarrow> (append_file path (take n text) fs, False))"

definition write_pem ::
  "('ip, 'cert, 'key) pki_env \<Rightarrow> string \<Rightarrow> string \<Rightarrow> string \<Rightarrow> bool \<Rightarrow> files \<Rightarrow> files \<times> bool" where
  "write_pem env path block_type der force fs =
     (if \<not> pk_mkdir_ok env path then (fs, False)
      else
        case open_output env path force fs of
          None \<Rightarrow> (fs, False)
        | Some fs \<Rightarrow>
            (case encode_pem env path 0 block_type der fs of
               (fs, False) \<Rightarrow> (fs, False)
             | (fs, True) \<Rightarrow> (fs, pk_close_ok env path)))"

text \<open>
  \<open>printFingerprint\<close>, the line it prints: the hexadecimal SHA-256 in capital letters, which
  are the codes below those of the small letters.
\<close>

definition upper_hex :: "string \<Rightarrow> string" where
  "upper_hex s =
     map (\<lambda>c. if 97 \<le> byte_val c \<and> byte_val c \<le> 122 then char_of (byte_val c - 32) else c) s"

definition fingerprint_line :: "('ip, 'cert, 'key) pki_env \<Rightarrow> string \<Rightarrow> string" where
  "fingerprint_line env der = upper_hex (hex_encode (pk_sha256 env der))"

subsection \<open>The commands\<close>

definition init_ca_flags :: "(string \<times> flag_kind) list" where
  "init_ca_flags =
     [(''cert'', String_Flag), (''key'', String_Flag), (''common-name'', String_Flag), (''force'', Bool_Flag)]"

definition init_ca ::
  "('ip, 'cert, 'key) pki_env \<Rightarrow> string list \<Rightarrow> files \<Rightarrow> files \<times> (pki_error + string)" where
  "init_ca env args fs =
     (case parse_flags init_ca_flags args [] of
        Inl e \<Rightarrow> (fs, Inl (Pki_Flags e))
      | Inr (vals, _) \<Rightarrow>
          let cert_path = string_flag vals ''cert'' ''ca.crt'';
              key_path = string_flag vals ''key'' ''ca.key'';
              common_name = string_flag vals ''common-name'' ''WindowsLLMManager Internal CA'';
              force = bool_flag vals ''force''
          in if \<not> force \<and> (file_exists env cert_path fs \<or> file_exists env key_path fs)
             then (fs, Inl Pki_Exists)
             else case pk_key env of
               None \<Rightarrow> (fs, Inl Pki_No_Key)
             | Some key \<Rightarrow>
                 (case pk_serial env of
                    None \<Rightarrow> (fs, Inl Pki_No_Serial)
                  | Some serial \<Rightarrow>
                      let tp = \<lparr>tp_serial = serial, tp_common_name = common_name,
                                tp_not_before = pk_now env - 300 * nanos_per_second,
                                tp_not_after = pk_add_years env 10 (pk_now env),
                                tp_is_ca = True, tp_dns = [], tp_ips = []\<rparr>
                      in case pk_create env tp None key key of
                        None \<Rightarrow> (fs, Inl Pki_No_Certificate)
                      | Some der \<Rightarrow>
                          (case pk_key_text env key of
                             None \<Rightarrow> (fs, Inl Pki_No_Key_Text)
                           | Some key_der \<Rightarrow>
                               (case write_pem env key_path ''PRIVATE KEY'' key_der force fs of
                                  (fs, False) \<Rightarrow> (fs, Inl (Pki_Write key_path))
                                | (fs, True) \<Rightarrow>
                                    (case write_pem env cert_path ''CERTIFICATE'' der force fs of
                                       (fs, False) \<Rightarrow>
                                         (remove_file (pk_remove_ok env) key_path fs, Inl (Pki_Write cert_path))
                                     | (fs, True) \<Rightarrow> (fs, Inr (fingerprint_line env der)))))))"

definition load_ca ::
  "('ip, 'cert, 'key) pki_env \<Rightarrow> string \<Rightarrow> string \<Rightarrow> files \<Rightarrow> ('cert \<times> 'key) option" where
  "load_ca env cert_path key_path fs =
     (case fs cert_path of
        None \<Rightarrow> None
      | Some cert_pem \<Rightarrow>
          (case pk_unpem env cert_pem of
             None \<Rightarrow> None
           | Some (_, cert_der) \<Rightarrow>
               (case pk_parse_cert env cert_der of
                  None \<Rightarrow> None
                | Some cert \<Rightarrow>
                    (case fs key_path of
                       None \<Rightarrow> None
                     | Some key_pem \<Rightarrow>
                         (case pk_unpem env key_pem of
                            None \<Rightarrow> None
                          | Some (_, key_der) \<Rightarrow>
                              (case pk_parse_key env key_der of
                                 None \<Rightarrow> None
                               | Some key \<Rightarrow>
                                   if pk_key_of_cert env cert key then Some (cert, key) else None))))))"

text \<open>
  The end of \<open>issue\<close>, which writes the chain of two certificates. The result of the second
  \<open>pem.Encode\<close>, and the failure of the first one, stay in the \<open>err\<close> of the \<open>if\<close> statement: the
  \<open>err\<close> tested after the close is the one of \<open>openOutput\<close>, which is nil there.
\<close>

definition write_chain ::
  "('ip, 'cert, 'key) pki_env \<Rightarrow> string \<Rightarrow> string \<Rightarrow> string \<Rightarrow> bool \<Rightarrow> files \<Rightarrow> files \<times> bool" where
  "write_chain env cert_path der ca_der force fs =
     (case open_output env cert_path force fs of
        None \<Rightarrow> (fs, False)
      | Some fs \<Rightarrow>
          let (fs, ok) = encode_pem env cert_path 0 ''CERTIFICATE'' der fs;
              (fs, _) = (if ok then encode_pem env cert_path 1 ''CERTIFICATE'' ca_der fs else (fs, False))
          in (fs, pk_close_ok env cert_path))"

definition issue_flags :: "(string \<times> flag_kind) list" where
  "issue_flags =
     [(''ca-cert'', String_Flag), (''ca-key'', String_Flag), (''cert'', String_Flag),
      (''key'', String_Flag), (''name'', String_Flag), (''dns'', String_Flag), (''ip'', String_Flag),
      (''force'', Bool_Flag)]"

definition issue ::
  "('ip, 'cert, 'key) pki_env \<Rightarrow> string list \<Rightarrow> files \<Rightarrow> files \<times> (pki_error + string)" where
  "issue env args fs =
     (case parse_flags issue_flags args [] of
        Inl e \<Rightarrow> (fs, Inl (Pki_Flags e))
      | Inr (vals, _) \<Rightarrow>
          let ca_cert_path = string_flag vals ''ca-cert'' ''ca.crt'';
              ca_key_path = string_flag vals ''ca-key'' ''ca.key'';
              cert_path = string_flag vals ''cert'' ''tls-cert.pem'';
              key_path = string_flag vals ''key'' ''tls-key.pem'';
              name = string_flag vals ''name'' [];
              force = bool_flag vals ''force''
          in if trim_space name = [] then (fs, Inl Pki_No_Name)
             else if \<not> force \<and> (file_exists env cert_path fs \<or> file_exists env key_path fs)
             then (fs, Inl Pki_Exists)
             else case load_ca env ca_cert_path ca_key_path fs of
               None \<Rightarrow> (fs, Inl Pki_Bad_CA)
             | Some (ca_cert, ca_key) \<Rightarrow>
                 (case pk_key env of
                    None \<Rightarrow> (fs, Inl Pki_No_Key)
                  | Some key \<Rightarrow>
                 (case pk_serial env of
                    None \<Rightarrow> (fs, Inl Pki_No_Serial)
                  | Some serial \<Rightarrow>
                 (case issue_names (pk_net env) name (string_flag vals ''dns'' [])
                         (string_flag vals ''ip'' []) of
                    Inl raw \<Rightarrow> (fs, Inl (Pki_Bad_IP raw))
                  | Inr (dns, ips) \<Rightarrow>
                 let tp = \<lparr>tp_serial = serial, tp_common_name = name,
                           tp_not_before = pk_now env - 300 * nanos_per_second,
                           tp_not_after = pk_add_years env 2 (pk_now env),
                           tp_is_ca = False, tp_dns = dns, tp_ips = ips\<rparr>
                 in case pk_create env tp (Some ca_cert) key ca_key of
                    None \<Rightarrow> (fs, Inl Pki_No_Certificate)
                  | Some der \<Rightarrow>
                 (case pk_key_text env key of
                    None \<Rightarrow> (fs, Inl Pki_No_Key_Text)
                  | Some key_der \<Rightarrow>
                 (case write_pem env key_path ''PRIVATE KEY'' key_der force fs of
                    (fs, False) \<Rightarrow> (fs, Inl (Pki_Write key_path))
                  | (fs, True) \<Rightarrow>
                      if \<not> pk_mkdir_ok env cert_path then (fs, Inl (Pki_Write cert_path))
                      else
                        (case write_chain env cert_path der (pk_raw env ca_cert) force fs of
                           (fs, False) \<Rightarrow> (fs, Inl (Pki_Write cert_path))
                         | (fs, True) \<Rightarrow> (fs, Inr (fingerprint_line env (pk_raw env ca_cert))))))))))"

definition fingerprint_cmd ::
  "('ip, 'cert, 'key) pki_env \<Rightarrow> string list \<Rightarrow> files \<Rightarrow> pki_error + string" where
  "fingerprint_cmd env args fs =
     (case parse_flags [(''cert'', String_Flag)] args [] of
        Inl e \<Rightarrow> Inl (Pki_Flags e)
      | Inr (vals, _) \<Rightarrow>
          (case fs (string_flag vals ''cert'' ''ca.crt'') of
             None \<Rightarrow> Inl Pki_Read
           | Some b \<Rightarrow>
               (case pk_unpem env b of
                  None \<Rightarrow> Inl Pki_Bad_PEM
                | Some (block_type, der) \<Rightarrow>
                    if block_type \<noteq> ''CERTIFICATE'' then Inl Pki_Bad_PEM
                    else Inr (fingerprint_line env der))))"

definition pki_main ::
  "('ip, 'cert, 'key) pki_env \<Rightarrow> string list \<Rightarrow> files \<Rightarrow> files \<times> (pki_error + string)" where
  "pki_main env args fs =
     (case args of
        [] \<Rightarrow> (fs, Inl Pki_Usage)
      | cmd # rest \<Rightarrow>
          if cmd = ''init-ca'' then init_ca env rest fs
          else if cmd = ''issue'' then issue env rest fs
          else if cmd = ''fingerprint'' then (fs, fingerprint_cmd env rest fs)
          else (fs, Inl (Pki_Unknown_Command cmd)))"

subsection \<open>Names\<close>

lemma unique_loop_set:
  "set (unique_loop seen vs) = {v \<in> trim_space ` set vs. v \<noteq> []} - seen"
  by (induction seen vs rule: unique_loop.induct) (auto simp: Let_def)

lemma unique_loop_distinct: "distinct (unique_loop seen vs)"
  by (induction seen vs rule: unique_loop.induct) (auto simp: Let_def unique_loop_set)

text \<open>A list without later repetitions, in the order of the first occurrences.\<close>

lemma unique_loop_first:
  "unique_loop seen vs =
     filter (\<lambda>v. v \<notin> seen) (rev (remdups (rev (filter (\<lambda>v. v \<noteq> []) (map trim_space vs)))))"
proof (induction seen vs rule: unique_loop.induct)
  case (2 seen v vs)
  have last: "remdups (ys @ [x]) = filter (\<lambda>y. y \<noteq> x) (remdups ys) @ [x]" for x :: string and ys
    by (induction ys) auto
  have first: "rev (remdups (rev xs @ [x])) = x # filter (\<lambda>y. y \<noteq> x) (rev (remdups (rev xs)))"
    for x :: string and xs
    by (simp add: last rev_filter)
  show ?case
    using 2 by (auto simp: Let_def first intro!: filter_cong)
qed simp

subsection \<open>No file is overwritten\<close>

text \<open>What one write without \<open>--force\<close> does: nothing, or it creates the file.\<close>

definition only_new :: "string \<Rightarrow> files \<Rightarrow> files \<Rightarrow> bool" where
  "only_new path fs fs' \<longleftrightarrow> fs' = fs \<or> (fs path = None \<and> (\<exists>t. fs' = fs(path := t)))"

lemma append_only_new:
  "fs path = None \<Longrightarrow> only_new path fs (append_file path t (fs(path := Some u)))"
  by (auto simp: only_new_def append_file_def)

lemma write_pem_only_new: "write_pem env path ty der False fs = (fs', ok) \<Longrightarrow> only_new path fs fs'"
proof (cases "open_output env path False fs")
  case None
  then show "write_pem env path ty der False fs = (fs', ok) \<Longrightarrow> only_new path fs fs'"
    by (auto simp: write_pem_def only_new_def split: if_splits)
next
  case (Some fs1)
  then have "fs path = None" "fs1 = fs(path := Some [])"
    by (auto simp: open_output_def dest: open_excl_new)
  with Some show "write_pem env path ty der False fs = (fs', ok) \<Longrightarrow> only_new path fs fs'"
    by (auto simp: write_pem_def encode_pem_def Let_def append_file_def only_new_def
        split: if_splits option.splits)
qed

lemma write_chain_only_new: "write_chain env path der ca False fs = (fs', ok) \<Longrightarrow> only_new path fs fs'"
proof (cases "open_output env path False fs")
  case None
  then show "write_chain env path der ca False fs = (fs', ok) \<Longrightarrow> only_new path fs fs'"
    by (auto simp: write_chain_def only_new_def)
next
  case (Some fs1)
  then have "fs path = None" "fs1 = fs(path := Some [])"
    by (auto simp: open_output_def dest: open_excl_new)
  with Some show "write_chain env path der ca False fs = (fs', ok) \<Longrightarrow> only_new path fs fs'"
    by (auto simp: write_chain_def encode_pem_def Let_def append_file_def only_new_def
        split: if_splits option.splits prod.splits)
qed

lemma only_new_kept: "only_new path fs fs' \<Longrightarrow> fs p = Some c \<Longrightarrow> fs' p = Some c"
  by (auto simp: only_new_def)

lemma write_pem_new:
  "write_pem env path ty der False fs = (fs', True) \<Longrightarrow> fs path = None"
  by (auto simp: write_pem_def open_output_def dest!: open_excl_new
      split: if_splits option.splits prod.splits bool.splits)

lemma write_pem_kept:
  "write_pem env path ty der False fs = (fs', ok) \<Longrightarrow> fs p = Some c \<Longrightarrow> fs' p = Some c"
  using write_pem_only_new only_new_kept by blast

lemma write_chain_kept:
  "write_chain env path der ca False fs = (fs', ok) \<Longrightarrow> fs p = Some c \<Longrightarrow> fs' p = Some c"
  using write_chain_only_new only_new_kept by blast

definition forced :: "(string \<times> flag_kind) list \<Rightarrow> string list \<Rightarrow> bool" where
  "forced defs args =
     (case parse_flags defs args [] of Inl _ \<Rightarrow> False | Inr (vals, _) \<Rightarrow> bool_flag vals ''force'')"

lemma init_ca_undo:
  assumes "write_pem env kp ty der False fs = (fs1, True)"
    and "write_pem env cp ty' der' False fs1 = (fs2, ok)" and "fs p = Some c"
  shows "remove_file b kp fs2 p = Some c"
proof -
  have "p \<noteq> kp"
    using write_pem_new [OF assms(1)] assms(3) by auto
  moreover have "fs2 p = Some c"
    by (rule write_pem_kept [OF assms(2) write_pem_kept [OF assms(1,3)]])
  ultimately show ?thesis
    by (simp add: remove_file_def)
qed

lemma init_ca_kept:
  assumes "init_ca env args fs = (fs', res)" and "\<not> forced init_ca_flags args" and "fs p = Some c"
  shows "fs' p = Some c"
  using assms
  by (auto simp: init_ca_def forced_def Let_def
      split: sum.splits prod.splits if_splits option.splits bool.splits
      intro: init_ca_undo dest: write_pem_kept)

lemma issue_kept:
  assumes "issue env args fs = (fs', res)" and "\<not> forced issue_flags args" and "fs p = Some c"
  shows "fs' p = Some c"
  using assms
  by (auto simp: issue_def forced_def Let_def
      split: sum.splits prod.splits if_splits option.splits bool.splits
      dest: write_pem_kept write_chain_kept)

subsection \<open>Properties\<close>

definition pki_forced :: "string list \<Rightarrow> bool" where
  "pki_forced args =
     (case args of
        [] \<Rightarrow> False
      | cmd # rest \<Rightarrow> forced (if cmd = ''init-ca'' then init_ca_flags else issue_flags) rest)"

text \<open>
  C34: without \<open>--force\<close> the tool never overwrites, empties or removes a file: whatever fails
  in whatever command, every file that was there keeps its content. The system answers to
  \<open>os.Stat\<close> play no role.
\<close>

theorem no_file_is_overwritten:
  assumes "pki_main env args fs = (fs', res)"
    and "\<not> pki_forced args"
    and "fs p = Some c"
  shows "fs' p = Some c"
  using assms
  by (cases args)
     (auto simp: pki_main_def pki_forced_def split: if_splits dest: init_ca_kept issue_kept)

text \<open>
  \<open>uniqueStrings\<close> keeps the first occurrence of every name that is not blank, trimmed, in
  the order given.
\<close>

theorem unique_strings_keeps_first:
  "unique_strings values =
     rev (remdups (rev (filter (\<lambda>v. v \<noteq> []) (map trim_space values))))"
  by (simp add: unique_strings_def unique_loop_first)

text \<open>
  \<open>splitCSV\<close> reads back a comma-separated list of names that hold no comma and no white
  space.
\<close>

theorem csv_roundtrip:
  assumes "\<forall>n \<in> set names. n \<noteq> [] \<and> CHR '','' \<notin> set n \<and> set n \<inter> space_bytes = {}"
  shows "split_csv (join_with '','' names) = names"
proof (cases "names = []")
  case True
  then show ?thesis by (simp add: split_csv_def)
next
  case False
  have "map trim_space names = names"
    using assms by (intro map_idI) (simp add: trim_space_plain)
  moreover have "split_byte (CHR '','') (join_with '','' names) = names"
    using False assms by (intro split_join_byte) (auto simp: list_all_iff)
  ultimately show ?thesis
    using assms by (simp add: split_csv_def)
qed

theorem csv_roundtrip_witness: "split_csv (join_with '','' [''host'', ''host.lan'']) = [''host'', ''host.lan'']"
  by (rule csv_roundtrip) (simp add: space_bytes_def space_runes_def)

text \<open>
  the names of an issued certificate: the DNS names are distinct, trimmed and not blank,
  they are the given ones and, unless it is an address, the primary name; an address given as
  primary name comes first among the addresses, followed by every \<open>--ip\<close> address in order.
\<close>

theorem issued_names_are_complete:
  assumes "issue_names net name dns_names ip_addresses = Inr (dns, ips)"
  shows "distinct dns \<and>
    set dns = {v. v \<noteq> [] \<and> v \<in> trim_space ` set (split_csv dns_names) \<or>
                 v \<noteq> [] \<and> parse_ip net name = None \<and> v = trim_space name} \<and>
    map Some ips =
      (case parse_ip net name of None \<Rightarrow> [] | Some ip \<Rightarrow> [Some ip]) @
      map (parse_ip net) (split_csv ip_addresses)"
proof -
  have ips: "map Some xs = map (parse_ip net) raws" if "parse_ips net raws = Inr xs" for xs raws
    using that by (induction raws arbitrary: xs) (auto split: option.splits sum.splits)
  show ?thesis
    using assms
    by (auto simp: issue_names_def Let_def unique_strings_def unique_loop_set unique_loop_distinct
        dest!: ips split: option.splits sum.splits simp del: unique_loop.simps)
qed

text \<open>A tool whose library calls succeed; keys and certificates are texts.\<close>

definition sample_pki :: "(string, string, string) pki_env" where
  "sample_pki = \<lparr>pk_net = \<lparr>parse_ip = (\<lambda>s. if s = ''10.0.0.1'' then Some s else None), ip_string = (\<lambda>s. s)\<rparr>,
     pk_now = 0, pk_add_years = (\<lambda>_ t. t), pk_key = Some ''k'', pk_serial = Some 1,
     pk_create = (\<lambda>_ _ _ _. Some ''c''), pk_key_text = Some, pk_parse_cert = Some, pk_parse_key = Some,
     pk_key_of_cert = (\<lambda>_ _. True), pk_raw = (\<lambda>c. c), pk_pem = (\<lambda>ty der. ty @ der),
     pk_unpem = (\<lambda>s. Some (''CERTIFICATE'', s)), pk_sha256 = (\<lambda>_. ''h''), pk_stat_ok = (\<lambda>_. True),
     pk_mkdir_ok = (\<lambda>_. True), pk_open_ok = (\<lambda>_. True), pk_written = (\<lambda>_ _. None),
     pk_close_ok = (\<lambda>_. True), pk_remove_ok = True\<rparr>"

theorem no_file_is_overwritten_witness:
  "fst (pki_main sample_pki [''init-ca''] [''ca.crt'' \<mapsto> ''old'']) ''ca.crt'' = Some ''old''"
  by (rule no_file_is_overwritten [where args = "[''init-ca'']" and env = sample_pki
        and fs = "[''ca.crt'' \<mapsto> ''old'']" and res = "Inl Pki_Exists"
        and fs' = "fst (pki_main sample_pki [''init-ca''] [''ca.crt'' \<mapsto> ''old''])"])
     (simp_all add: pki_main_def init_ca_def pki_forced_def forced_def bool_flag_def string_flag_def
       file_exists_def sample_pki_def Let_def)

theorem issued_names_are_complete_witness:
  "distinct [''host''] \<and>
   set [''host''] = {v. v \<noteq> [] \<and> v \<in> trim_space ` set (split_csv []) \<or>
     v \<noteq> [] \<and> parse_ip (pk_net sample_pki) ''host'' = None \<and> v = trim_space ''host''} \<and>
   map Some [''10.0.0.1''] =
     (case parse_ip (pk_net sample_pki) ''host'' of None \<Rightarrow> [] | Some ip \<Rightarrow> [Some ip]) @
     map (parse_ip (pk_net sample_pki)) (split_csv ''10.0.0.1'')"
proof (rule issued_names_are_complete)
  have plain: "trim_space ''host'' = ''host''" "trim_space ''10.0.0.1'' = ''10.0.0.1''"
    by (rule trim_space_plain, simp add: space_bytes_def space_runes_def)+
  show "issue_names (pk_net sample_pki) ''host'' [] ''10.0.0.1'' = Inr ([''host''], [''10.0.0.1''])"
    by (simp add: issue_names_def split_csv_def unique_strings_def plain sample_pki_def)
qed

text \<open>
  a certificate chain that was only partly written is reported as written: when the
  second \<open>pem.Encode\<close> of \<open>issue\<close> stops after \<open>n\<close> bytes, the file lacks the rest of the CA
  certificate, and the command goes on as if it were complete. The error stays in the \<open>err\<close>
  of the \<open>if\<close> statement.
\<close>

theorem partial_chain_is_reported_as_success:
  assumes "pk_open_ok env p" and "pk_close_ok env p" and "fs p = None"
    and "pk_written env p 0 = None" and "pk_written env p 1 = Some n"
  shows "write_chain env p der ca False fs =
     (fs(p := Some (pk_pem env ''CERTIFICATE'' der @ take n (pk_pem env ''CERTIFICATE'' ca))), True)"
  using assms
  by (simp add: write_chain_def open_output_def open_create_def encode_pem_def append_file_def Let_def)

theorem partial_chain_is_reported_as_success_witness:
  "write_chain (sample_pki\<lparr>pk_written := (\<lambda>_ k. if k = 0 then None else Some 0)\<rparr>) ''c'' ''leaf'' ''ca'' False
     Map.empty = ([''c'' \<mapsto> ''CERTIFICATEleaf''], True)"
  using partial_chain_is_reported_as_success
    [of "sample_pki\<lparr>pk_written := (\<lambda>_ k. if k = 0 then None else Some 0)\<rparr>" "''c''" Map.empty 0 "''leaf''" "''ca''"]
  by (simp add: sample_pki_def)

text \<open>
  with \<open>--force\<close>, a certificate that cannot be written costs the old key: the new key has
  already replaced it and is removed on the way out, so both keys of the authority are gone
  while its old certificate is still there.
\<close>

theorem forced_init_can_lose_the_key:
  "init_ca (sample_pki\<lparr>pk_open_ok := (\<lambda>p. p \<noteq> ''ca.crt'')\<rparr>) [''--force''] [''ca.crt'' \<mapsto> ''cert'', ''ca.key'' \<mapsto> ''key''] =
     ([''ca.crt'' \<mapsto> ''cert''], Inl (Pki_Write ''ca.crt''))"
proof -
  have flags: "parse_flags init_ca_flags [''--force''] [] = Inr ([(''force'', ''true'')], [])"
    using parse_bool_flag [of "''force''" init_ca_flags "[]" "[]"]
    by (simp add: init_ca_flags_def mget_Cons)
  show ?thesis
    by (simp add: init_ca_def flags string_flag_def bool_flag_def mget_Cons parse_bool_def Let_def
        write_pem_def open_output_def open_create_def encode_pem_def append_file_def sample_pki_def
        remove_file_def fun_eq_iff)
qed

end
