(* ===== verification/Audit_Log.thy ===== *)
theory Audit_Log
  imports Go_Json Go_Os Security Frame
begin

section \<open>Audit log: internal/audit/logger.go\<close>

text \<open>
  Every security event is appended to a file as one line of JSON; a file that has grown to
  its limit is first archived in a zip file beside it and emptied. The state is the disk;
  the failures of the system calls of one \<open>Write\<close> are a record chosen by the environment.
  The zip format is a parameter: \<open>zip name content\<close> are the bytes of an archive with one
  entry. \<open>Write\<close> holds the mutex throughout, so one call is one function on the disk.
\<close>

subsection \<open>Events and their JSON line\<close>

datatype detail = Int_Detail int | Bool_Detail bool | Text_Detail string

record audit_event =
  ev_timestamp :: string
  ev_type :: string
  ev_request_id :: string
  ev_source_ip :: string
  ev_fingerprint :: string
  ev_mode :: string
  ev_session_id :: string
  ev_command :: string
  ev_success :: "bool option"
  ev_exit_code :: "int option"
  ev_details :: "(string \<times> detail) list"

definition empty_event :: audit_event where
  "empty_event = \<lparr>ev_timestamp = [], ev_type = [], ev_request_id = [], ev_source_ip = [],
     ev_fingerprint = [], ev_mode = [], ev_session_id = [], ev_command = [], ev_success = None,
     ev_exit_code = None, ev_details = []\<rparr>"

definition json_int :: "int \<Rightarrow> string" where
  "json_int n = (if n < 0 then CHR ''-'' # decimal (nat (- n)) else decimal (nat n))"

definition json_bool :: "bool \<Rightarrow> string" where
  "json_bool b = (if b then ''true'' else ''false'')"

definition json_field :: "string \<Rightarrow> string \<Rightarrow> string" where
  "json_field key text = json_string key @ '':'' @ text"

fun json_detail :: "detail \<Rightarrow> string" where
  "json_detail (Int_Detail n) = json_int n"
| "json_detail (Bool_Detail b) = json_bool b"
| "json_detail (Text_Detail s) = json_string s"

definition json_object :: "string list \<Rightarrow> string" where
  "json_object members = ''{'' @ join_with '','' members @ ''}''"

text \<open>The keys of a Go map are written in increasing order.\<close>

definition json_details :: "(string \<times> detail) list \<Rightarrow> string" where
  "json_details ds =
     json_object (map (\<lambda>(k, d). json_field k (json_detail d)) (sort_key fst ds))"

definition omit_empty :: "string \<Rightarrow> string \<Rightarrow> string list" where
  "omit_empty key s = (if s = [] then [] else [json_field key (json_string s)])"

definition event_line :: "audit_event \<Rightarrow> string" where
  "event_line e =
     json_object
       (json_field ''timestamp'' (json_string (ev_timestamp e)) #
        json_field ''type'' (json_string (ev_type e)) #
        omit_empty ''request_id'' (ev_request_id e) @
        omit_empty ''source_ip'' (ev_source_ip e) @
        omit_empty ''token_fingerprint'' (ev_fingerprint e) @
        omit_empty ''mode'' (ev_mode e) @
        omit_empty ''session_id'' (ev_session_id e) @
        omit_empty ''command'' (ev_command e) @
        (case ev_success e of None \<Rightarrow> [] | Some b \<Rightarrow> [json_field ''success'' (json_bool b)]) @
        (case ev_exit_code e of None \<Rightarrow> [] | Some n \<Rightarrow> [json_field ''exit_code'' (json_int n)]) @
        (if ev_details e = [] then [] else [json_field ''details'' (json_details (ev_details e))]))"

subsection \<open>The logger\<close>

record audit_logger =
  audit_path :: string
  audit_limit :: int

datatype audit_error =
    Make_Directory | Stat_Log | Create_Archive | Archive_Log | Close_Archive | Truncate_Log
  | Open_Log | Write_Event | Sync_Log

text \<open>The answers of the environment during one call of \<open>Write\<close>.\<close>

record audit_env =
  au_now :: timestamp
  au_stat_ok :: bool
  au_zip_open_ok :: bool
  au_archive_ok :: bool
  au_zip_partial :: string
  au_zip_closed :: bool
  au_zip_removed :: bool
  au_truncated :: bool
  au_open_ok :: bool
  au_written :: "nat option"
  au_synced :: bool

text \<open>
  \<open>au_archive_ok\<close>: creating the entry, opening the log and copying it all succeeded;
  \<open>au_zip_closed\<close>: both closes did; \<open>au_zip_partial\<close>: what a failed archive left in the file;
  \<open>au_written\<close>: all of the line, or its first bytes before an error.
\<close>

definition new_audit :: "bool \<Rightarrow> string \<Rightarrow> int \<Rightarrow> audit_error + audit_logger" where
  "new_audit mkdir_ok path max_bytes =
     (if mkdir_ok then Inr \<lparr>audit_path = path, audit_limit = max_bytes\<rparr> else Inl Make_Directory)"

record archive_lib = path_lib +
  path_base :: "string \<Rightarrow> string"
  zip_one :: "string \<Rightarrow> string \<Rightarrow> string"

definition archive_path :: "archive_lib \<Rightarrow> audit_logger \<Rightarrow> timestamp \<Rightarrow> string" where
  "archive_path al l now =
     path_join al [path_dir al (audit_path l), ''audit-'' @ file_stamp now @ ''.zip'']"

definition rotate_if_needed ::
  "archive_lib \<Rightarrow> audit_env \<Rightarrow> audit_logger \<Rightarrow> files \<Rightarrow> files \<times> audit_error option" where
  "rotate_if_needed al env l fs =
     (if \<not> au_stat_ok env then (fs, Some Stat_Log)
      else
        case fs (audit_path l) of
          None \<Rightarrow> (fs, None)
        | Some content \<Rightarrow>
            if int (length content) < audit_limit l then (fs, None)
            else
              let zp = archive_path al l (au_now env) in
              case open_create (au_zip_open_ok env) Open_Excl zp fs of
                None \<Rightarrow> (fs, Some Create_Archive)
              | Some fs1 \<Rightarrow>
                  if \<not> au_archive_ok env then
                    (remove_file (au_zip_removed env) zp (append_file zp (au_zip_partial env) fs1),
                     Some Archive_Log)
                  else
                    let fs2 = append_file zp (zip_one al (path_base al (audit_path l)) content) fs1 in
                    if \<not> au_zip_closed env then
                      (remove_file (au_zip_removed env) zp (append_file zp (au_zip_partial env) fs1),
                       Some Close_Archive)
                    else if \<not> au_truncated env then (fs2, Some Truncate_Log)
                    else (fs2(audit_path l := Some []), None))"

definition stamp_event :: "timestamp \<Rightarrow> audit_event \<Rightarrow> audit_event" where
  "stamp_event now e =
     (if ev_timestamp e = [] then e\<lparr>ev_timestamp := rfc3339_nano now\<rparr> else e)"

definition audit_write ::
  "archive_lib \<Rightarrow> audit_env \<Rightarrow> audit_logger \<Rightarrow> audit_event \<Rightarrow> files \<Rightarrow> files \<times> audit_error option" where
  "audit_write al env l event fs =
     (let event = stamp_event (au_now env) event in
      case rotate_if_needed al env l fs of
        (fs, Some err) \<Rightarrow> (fs, Some err)
      | (fs, None) \<Rightarrow>
          (case open_create (au_open_ok env) Open_Keep (audit_path l) fs of
             None \<Rightarrow> (fs, Some Open_Log)
           | Some fs \<Rightarrow>
               let line = event_line event @ [CHR 0x0A] in
               case au_written env of
                 Some n \<Rightarrow> (append_file (audit_path l) (take n line) fs, Some Write_Event)
               | None \<Rightarrow>
                   (append_file (audit_path l) line fs,
                    if au_synced env then None else Some Sync_Log)))"

subsection \<open>One event is one line\<close>

lemma printable_decimal [simp]: "printable_text (decimal n)"
  using decimal_digits [of n] by (auto simp: printable_text_def subset_iff)

lemma printable_json_int [simp]: "printable_text (json_int n)"
  by (simp add: json_int_def)

lemma printable_json_bool [simp]: "printable_text (json_bool b)"
  by (simp add: json_bool_def)

lemma printable_json_field [simp]: "printable_text (json_field key text) \<longleftrightarrow> printable_text text"
  by (simp add: json_field_def printable_json_string)

lemma printable_json_object [simp]:
  "\<forall>f \<in> set members. printable_text f \<Longrightarrow> printable_text (json_object members)"
  by (simp add: json_object_def printable_text_join)

lemma printable_json_detail [simp]: "printable_text (json_detail d)"
  by (cases d) (simp_all add: printable_json_string)

lemma printable_json_details [simp]: "printable_text (json_details ds)"
  unfolding json_details_def by (rule printable_json_object) auto

lemma printable_omit_empty [simp]: "f \<in> set (omit_empty key s) \<Longrightarrow> printable_text f"
  by (auto simp: omit_empty_def printable_json_string split: if_splits)

lemma printable_event_line: "printable_text (event_line e)"
  unfolding event_line_def
  by (rule printable_json_object)
     (auto simp: printable_json_string split: option.splits if_splits)

lemma event_line_no_newline: "CHR 0x0A \<notin> set (event_line e)"
  by (rule newline_not_printable [OF printable_event_line])

subsection \<open>What the disk keeps\<close>

definition log_content :: "audit_logger \<Rightarrow> files \<Rightarrow> string" where
  "log_content l fs = (case fs (audit_path l) of None \<Rightarrow> [] | Some c \<Rightarrow> c)"

text \<open>A piece of text is kept when it is in the log or in the content of an archive.\<close>

definition kept :: "archive_lib \<Rightarrow> audit_logger \<Rightarrow> files \<Rightarrow> string \<Rightarrow> bool" where
  "kept al l fs t \<longleftrightarrow>
     sublist t (log_content l fs) \<or>
     (\<exists>z c. z \<noteq> audit_path l \<and> fs z = Some (zip_one al (path_base al (audit_path l)) c) \<and> sublist t c)"

text \<open>The ends of \<open>rotateIfNeeded\<close>: only files that did not exist are touched, or the log.\<close>

lemma rotate_cases:
  assumes "rotate_if_needed al env l fs = (fs', err)"
  obtains (Same) "fs' = fs"
  | (Junk) zp t where "fs zp = None" "zp \<noteq> audit_path l" "err \<noteq> None" "fs' = fs(zp := t)"
  | (Archived) zp where "fs zp = None" "zp \<noteq> audit_path l"
      "fs' = fs(zp := Some (zip_one al (path_base al (audit_path l)) (log_content l fs)))"
      "err \<noteq> None"
  | (Rotated) zp where "fs zp = None" "zp \<noteq> audit_path l" "err = None"
      "fs' = (fs(zp := Some (zip_one al (path_base al (audit_path l)) (log_content l fs))))
               (audit_path l := Some [])"
proof (cases "au_stat_ok env \<and> fs (audit_path l) \<noteq> None \<and>
              audit_limit l \<le> int (length (log_content l fs))")
  case False
  then have "fs' = fs"
    using assms by (auto simp: rotate_if_needed_def log_content_def split: option.splits if_splits)
  then show ?thesis by (rule Same)
next
  case True
  define zp where "zp = archive_path al l (au_now env)"
  obtain content where content: "fs (audit_path l) = Some content" "log_content l fs = content"
    using True by (auto simp: log_content_def)
  show ?thesis
  proof (cases "open_create (au_zip_open_ok env) Open_Excl zp fs")
    case None
    then have "fs' = fs"
      using assms True content by (simp add: rotate_if_needed_def zp_def Let_def)
    then show ?thesis by (rule Same)
  next
    case (Some fs1)
    then have new: "fs zp = None" "fs1 = fs(zp := Some [])"
      using open_excl_new by blast+
    then have neq: "zp \<noteq> audit_path l"
      using content by auto
    have eq: "(fs', err) =
       (if \<not> au_archive_ok env then
          (remove_file (au_zip_removed env) zp (append_file zp (au_zip_partial env) fs1), Some Archive_Log)
        else if \<not> au_zip_closed env then
          (remove_file (au_zip_removed env) zp (append_file zp (au_zip_partial env) fs1), Some Close_Archive)
        else let fs2 = append_file zp (zip_one al (path_base al (audit_path l)) content) fs1 in
          if \<not> au_truncated env then (fs2, Some Truncate_Log)
          else (fs2(audit_path l := Some []), None))"
      using assms True content Some
      by (auto simp: rotate_if_needed_def zp_def Let_def split: if_splits)
    have junk: "remove_file b zp (fs(zp := Some t)) = fs(zp := (if b then None else Some t))" for b t
      by (simp add: remove_file_def)
    show ?thesis
      using eq content(2)
      by (cases "au_archive_ok env"; cases "au_zip_closed env"; cases "au_truncated env")
         (auto simp: Let_def junk append_file_def new(2)
           intro: Junk [OF new(1) neq] Archived [OF new(1) neq] Rotated [OF new(1) neq])
  qed
qed

lemma kept_new_file:
  assumes "fs zp = None" and "zp \<noteq> audit_path l" and "kept al l fs t"
  shows "kept al l (fs(zp := c)) t"
proof -
  have "log_content l (fs(zp := c)) = log_content l fs"
    using assms(2) by (simp add: log_content_def)
  moreover have "z \<noteq> zp" if "fs z = Some d" for z d
    using assms(1) that by auto
  ultimately show ?thesis
    using assms(3) unfolding kept_def by (metis fun_upd_other)
qed

lemma kept_archived:
  assumes "fs zp = None" and "zp \<noteq> audit_path l" and "kept al l fs t"
  shows "kept al l ((fs(zp := Some (zip_one al (path_base al (audit_path l)) (log_content l fs))))
           (audit_path l := c)) t"
  using assms unfolding kept_def by (metis fun_upd_apply option.distinct(1))

lemma rotate_kept:
  assumes "rotate_if_needed al env l fs = (fs', err)" and "kept al l fs t"
  shows "kept al l fs' t"
  using assms(1)
proof (cases rule: rotate_cases)
  case Same
  with assms(2) show ?thesis by simp
next
  case (Junk zp c)
  with assms(2) show ?thesis by (simp add: kept_new_file)
next
  case (Archived zp)
  with assms(2) show ?thesis by (simp add: kept_new_file)
next
  case (Rotated zp)
  with assms(2) show ?thesis by (simp add: kept_archived)
qed

lemma kept_appended: "kept al l fs t \<Longrightarrow> kept al l (fs(audit_path l := Some (log_content l fs @ u))) t"
  unfolding kept_def log_content_def by (auto simp: sublist_append)

text \<open>The ends of \<open>Write\<close>: an error with nothing but the rotation done, or an append.\<close>

lemma audit_write_cases:
  assumes "audit_write al env l e fs = (fs', err)"
  obtains (Refused) "rotate_if_needed al env l fs = (fs', err)" "err \<noteq> None"
  | (Unopened) "rotate_if_needed al env l fs = (fs', None)" "err = Some Open_Log"
  | (Partial) fs1 n where "rotate_if_needed al env l fs = (fs1, None)" "err = Some Write_Event"
      "fs' = fs1(audit_path l := Some (log_content l fs1 @
               take n (event_line (stamp_event (au_now env) e) @ [CHR 0x0A])))"
  | (Written) fs1 where "rotate_if_needed al env l fs = (fs1, None)"
      "err = (if au_synced env then None else Some Sync_Log)"
      "fs' = fs1(audit_path l := Some (log_content l fs1 @
               event_line (stamp_event (au_now env) e) @ [CHR 0x0A]))"
proof -
  obtain fs1 rerr where r: "rotate_if_needed al env l fs = (fs1, rerr)"
    by fastforce
  show ?thesis
  proof (cases rerr)
    case (Some x)
    with assms r have "fs1 = fs'" "err = Some x"
      by (auto simp: audit_write_def)
    with r Some show ?thesis
      by (intro Refused) simp_all
  next
    case None
    have eq: "open_create (au_open_ok env) Open_Keep (audit_path l) fs1 = Some fs2 \<Longrightarrow>
        append_file (audit_path l) t fs2 = fs1(audit_path l := Some (log_content l fs1 @ t))" for fs2 t
      by (drule open_keep_content) (simp add: append_file_def log_content_def)
    show ?thesis
    proof (cases "open_create (au_open_ok env) Open_Keep (audit_path l) fs1")
      case n: None
      with assms r None show ?thesis
        by (intro Unopened) (auto simp: audit_write_def)
    next
      case (Some fs2)
      with assms r None show ?thesis
        by (cases "au_written env")
           (auto simp: audit_write_def Let_def eq intro: Partial Written)
    qed
  qed
qed

lemma audit_write_kept:
  assumes "audit_write al env l e fs = (fs', err)" and "kept al l fs t"
  shows "kept al l fs' t"
  using assms(1)
  by (cases rule: audit_write_cases) (auto dest: rotate_kept [OF _ assms(2)] simp: kept_appended)

text \<open>A write that returns nil has appended the line to a log below its limit.\<close>

lemma audit_write_ok:
  assumes "audit_write al env l e fs = (fs', None)"
  shows "\<exists>c. (c = log_content l fs \<or> c = []) \<and> (int (length c) < audit_limit l \<or> c = []) \<and>
    fs' (audit_path l) = Some (c @ event_line (stamp_event (au_now env) e) @ [CHR 0x0A])"
  using assms
proof (cases rule: audit_write_cases)
  case (Written fs1)
  have "log_content l fs1 = [] \<or> log_content l fs1 = log_content l fs \<and>
      int (length (log_content l fs)) < audit_limit l"
    using Written(1)
  proof (cases rule: rotate_cases)
    case Same
    with Written(1) show ?thesis
      by (auto simp: rotate_if_needed_def log_content_def Let_def split: option.splits if_splits)
  qed (auto simp: log_content_def)
  with Written(3) show ?thesis
    by (intro exI [of _ "log_content l fs1"]) auto
qed auto

fun audit_run ::
  "archive_lib \<Rightarrow> audit_logger \<Rightarrow> (audit_env \<times> audit_event) list \<Rightarrow> files \<Rightarrow>
   files \<times> audit_error option list" where
  "audit_run al l [] fs = (fs, [])"
| "audit_run al l ((env, e) # calls) fs =
     (let (fs1, r) = audit_write al env l e fs; (fs2, rs) = audit_run al l calls fs1
      in (fs2, r # rs))"

lemma audit_run_kept: "kept al l fs t \<Longrightarrow> kept al l (fst (audit_run al l calls fs)) t"
proof (induction al l calls fs rule: audit_run.induct)
  case (2 al l env e calls fs)
  show ?case
    using 2(2) 2(1) [OF refl prod.collapse] audit_write_kept [of al env l e fs _ _ t]
    by (simp add: case_prod_beta Let_def) (metis prod.collapse)
qed simp

subsection \<open>Properties\<close>

text \<open>The standard outcome of the system calls, and a concrete log.\<close>

definition calm_audit :: audit_env where
  "calm_audit = \<lparr>au_now = 0, au_stat_ok = True, au_zip_open_ok = True, au_archive_ok = True,
     au_zip_partial = [], au_zip_closed = True, au_zip_removed = True, au_truncated = True,
     au_open_ok = True, au_written = None, au_synced = True\<rparr>"

definition sample_archives :: archive_lib where
  "sample_archives = \<lparr>path_dir = (\<lambda>_. ''logs''), path_join = join_with ''/'',
     path_base = (\<lambda>_. ''audit.jsonl''), zip_one = (\<lambda>name content. ''PK'' @ name @ content)\<rparr>"

definition sample_logger :: audit_logger where
  "sample_logger = \<lparr>audit_path = ''logs/audit.jsonl'', audit_limit = 1048576\<rparr>"

lemma calm_write:
  "fs (audit_path l) = None \<Longrightarrow>
   audit_write al calm_audit l e fs =
     (fs(audit_path l := Some (event_line (stamp_event 0 e) @ [CHR 0x0A])), None)"
  by (simp add: audit_write_def rotate_if_needed_def calm_audit_def open_create_def
      append_file_def Let_def)

text \<open>
  C16: no acknowledged event is lost. Whatever fails in whatever calls of \<open>Write\<close>, once a call
  has returned nil the line of its event is in the log or in the content of an archive after
  every later call.
\<close>

theorem acknowledged_events_are_kept:
  assumes "audit_run al l calls fs = (fs', results)"
    and "i < length calls" and "calls ! i = (env, e)" and "results ! i = None"
  shows "kept al l fs' (event_line (stamp_event (au_now env) e) @ [CHR 0x0A])"
  using assms
proof (induction al l calls fs arbitrary: i fs' results rule: audit_run.induct)
  case (2 al l env' e' calls fs)
  obtain fs1 r where w: "audit_write al env' l e' fs = (fs1, r)"
    by fastforce
  obtain fs2 rs where run: "audit_run al l calls fs1 = (fs2, rs)"
    by fastforce
  have fs': "fs' = fs2" "results = r # rs"
    using 2(2) w run by simp_all
  show ?case
  proof (cases i)
    case 0
    with 2(4,5) fs' have *: "env' = env" "e' = e" "r = None" by simp_all
    have "kept al l fs1 (event_line (stamp_event (au_now env) e) @ [CHR 0x0A])"
      using audit_write_ok [of al env l e fs fs1] w * by (auto simp: kept_def log_content_def)
    from audit_run_kept [OF this, of calls] show ?thesis
      using run fs' by simp
  next
    case (Suc k)
    with 2(3-5) fs' show ?thesis
      using 2(1) [OF w [symmetric] refl run, of k] by simp
  qed
qed simp

theorem acknowledged_events_are_kept_witness:
  "kept sample_archives sample_logger
     (fst (audit_run sample_archives sample_logger [(calm_audit, empty_event)] Map.empty))
     (event_line (stamp_event 0 empty_event) @ [CHR 0x0A])"
  using acknowledged_events_are_kept
    [of sample_archives sample_logger "[(calm_audit, empty_event)]" Map.empty
        "fst (audit_run sample_archives sample_logger [(calm_audit, empty_event)] Map.empty)"
        "[None]" 0 calm_audit empty_event]
  by (simp add: calm_write) (simp add: calm_audit_def)

text \<open>
  C17: entries cannot be forged. If the log is a sequence of whole lines, then after a write
  that returns nil it is again one (the old lines, or none after a rotation) followed by
  exactly one new line, the JSON of the event, whatever bytes its fields hold: line breaks in
  a command or a header never start a line of their own.
\<close>

theorem audit_entries_cannot_be_forged:
  assumes "audit_write al env l e fs = (fs', None)"
    and "log_content l fs = concat (map (\<lambda>w. w @ [CHR 0x0A]) ws)"
    and "list_all (\<lambda>w. CHR 0x0A \<notin> set w) ws"
  shows "\<exists>old. (old = ws \<or> old = []) \<and>
    split_byte (CHR 0x0A) (log_content l fs') =
      old @ [event_line (stamp_event (au_now env) e), []]"
proof -
  let ?line = "event_line (stamp_event (au_now env) e)"
  obtain c where c: "c = log_content l fs \<or> c = []"
    and fs': "fs' (audit_path l) = Some (c @ ?line @ [CHR 0x0A])"
    using audit_write_ok [OF assms(1)] by blast
  define old where "old = (if c = [] then [] else ws)"
  have content: "log_content l fs' = concat (map (\<lambda>w. w @ [CHR 0x0A]) (old @ [?line]))"
    using c assms(2) fs' by (auto simp: log_content_def old_def)
  have clean: "list_all (\<lambda>w. CHR 0x0A \<notin> set w) (old @ [?line])"
    using assms(3) event_line_no_newline by (simp add: old_def)
  have "split_byte (CHR 0x0A) (concat (map (\<lambda>w. w @ [CHR 0x0A]) vs)) = vs @ [[]]"
    if "list_all (\<lambda>w. CHR 0x0A \<notin> set w) vs" for vs
    using that by (induction vs) (simp_all add: split_byte_append)
  from this [OF clean] have "split_byte (CHR 0x0A) (log_content l fs') = old @ [?line, []]"
    using content by simp
  then show ?thesis
    by (intro exI [of _ old]) (simp add: old_def)
qed

theorem audit_entries_cannot_be_forged_witness:
  "\<exists>old. (old = [] \<or> old = []) \<and>
    split_byte (CHR 0x0A) (log_content sample_logger
      (fst (audit_write sample_archives calm_audit sample_logger
         (empty_event\<lparr>ev_command := [CHR 0x0A]\<rparr>) Map.empty))) =
      old @ [event_line (stamp_event (au_now calm_audit) (empty_event\<lparr>ev_command := [CHR 0x0A]\<rparr>)), []]"
  by (rule audit_entries_cannot_be_forged [where fs = Map.empty and al = sample_archives])
     (simp_all add: calm_write log_content_def)

text \<open>
  the log file stays bounded: after a write that returns nil it holds less than the limit
  plus the one line just written.
\<close>

theorem audit_log_is_bounded:
  assumes "audit_write al env l e fs = (fs', None)" and "0 < audit_limit l"
  shows "int (length (log_content l fs')) <
    audit_limit l + int (length (event_line (stamp_event (au_now env) e))) + 1"
  using audit_write_ok [OF assms(1)] assms(2) by (auto simp: log_content_def)

theorem audit_log_is_bounded_witness:
  "int (length (log_content sample_logger
     (fst (audit_write sample_archives calm_audit sample_logger empty_event Map.empty)))) <
   audit_limit sample_logger + int (length (event_line (stamp_event (au_now calm_audit) empty_event))) + 1"
  by (rule audit_log_is_bounded [where fs = Map.empty and al = sample_archives])
     (simp_all add: calm_write sample_logger_def)

end
