(* ===== verification/Simulation.thy ===== *)
theory Simulation
  imports WLM_Prelude
begin

section \<open>Refinement of a specification by labelled steps\<close>

text \<open>
  The contract between a component and its specification: each labelled step of the component
  is a step of the specification with the same label, seen through an abstraction function, as
  long as the component's invariant holds. Labels carry the arguments and the answers of
  the operations, so the runs of the component are runs of the specification with the same
  answers.
\<close>

primrec runs_to :: "('s \<Rightarrow> 'e \<Rightarrow> 's \<Rightarrow> bool) \<Rightarrow> 's \<Rightarrow> 'e list \<Rightarrow> 's \<Rightarrow> bool" where
  "runs_to step s [] t = (s = t)"
| "runs_to step s (e # es) t = (\<exists>u. step s e u \<and> runs_to step u es t)"

lemma runs_to_append:
  "runs_to step s (es @ fs) t \<longleftrightarrow> (\<exists>u. runs_to step s es u \<and> runs_to step u fs t)"
  by (induction es arbitrary: s) auto

locale simulation =
  fixes cstep :: "'c \<Rightarrow> 'e \<Rightarrow> 'c \<Rightarrow> bool"
    and astep :: "'a \<Rightarrow> 'e \<Rightarrow> 'a \<Rightarrow> bool"
    and abst :: "'c \<Rightarrow> 'a"
    and inv :: "'c \<Rightarrow> bool"
  assumes inv_step: "inv c \<Longrightarrow> cstep c e d \<Longrightarrow> inv d"
    and sim_step: "inv c \<Longrightarrow> cstep c e d \<Longrightarrow> astep (abst c) e (abst d)"
begin

lemma inv_run: "runs_to cstep c es d \<Longrightarrow> inv c \<Longrightarrow> inv d"
  by (induction es arbitrary: c) (auto intro: inv_step)

lemma sim_run: "runs_to cstep c es d \<Longrightarrow> inv c \<Longrightarrow> runs_to astep (abst c) es (abst d)"
  by (induction es arbitrary: c) (auto intro: inv_step sim_step)

text \<open>What the specification promises of its runs holds of those of the component.\<close>

lemma promised:
  assumes "runs_to cstep c es d" and "inv c" and "\<And>a b. runs_to astep a es b \<Longrightarrow> P a es b"
  shows "P (abst c) es (abst d)"
  using assms sim_run by blast

end

end
