(* ===== verification/Jobs_Spec.thy ===== *)
theory Jobs_Spec
  imports Jobs Simulation
begin

section \<open>What the job manager promises: a book of jobs\<close>

text \<open>
  The specification of internal/jobs/manager.go for its clients: a book that maps the identifier of
  a job to its snapshot. There are no references, goroutines, contexts or iteration orders in
  it. The events are the calls of the manager with their answers, and the ends of jobs.
\<close>

subsection \<open>The book\<close>

record book =
  entries :: "string \<Rightarrow> snapshot option"
  book_blocked :: bool
  book_active :: int
  book_results :: int
  book_retention :: duration

datatype job_event =
    Ev_Submit string string duration bool timestamp snapshot "job_error option"
  | Ev_End string outcome timestamp
  | Ev_Get string timestamp snapshot "job_error option"
  | Ev_Cancel string string snapshot "job_error option"
  | Ev_Cancel_All string nat
  | Ev_Block string nat
  | Ev_Count nat
  | Ev_Report snapshot

definition ids_with :: "(snapshot \<Rightarrow> bool) \<Rightarrow> book \<Rightarrow> string set" where
  "ids_with P b = {jid. \<exists>s. entries b jid = Some s \<and> P s}"

text \<open>A job that ended at least the retention ago is forgotten when a job is submitted or asked for.\<close>

definition expired_entry :: "duration \<Rightarrow> timestamp \<Rightarrow> snapshot \<Rightarrow> bool" where
  "expired_entry ret now s \<longleftrightarrow> \<not> is_active s \<and> ret \<le> time_sub now (completed_at s)"

definition forget_expired :: "timestamp \<Rightarrow> book \<Rightarrow> book" where
  "forget_expired now b = b\<lparr>entries := (\<lambda>jid.
     case entries b jid of
       None \<Rightarrow> None
     | Some s \<Rightarrow> if expired_entry (book_retention b) now s then None else Some s)\<rparr>"

text \<open>
  Making room for one more job: nothing is dropped while there is room, and otherwise exactly as
  many ended jobs as needed, none of them ended later than an ended job that is kept.
\<close>

definition makes_room :: "book \<Rightarrow> book \<Rightarrow> bool" where
  "makes_room b b' \<longleftrightarrow> (\<exists>K. b' = b\<lparr>entries := entries b |` K\<rparr> \<and> K \<subseteq> dom (entries b) \<and>
     (if int (card (dom (entries b))) < book_results b then K = dom (entries b)
      else int (card K) = book_results b - 1) \<and>
     (\<forall>jid s. entries b jid = Some s \<longrightarrow> jid \<notin> K \<longrightarrow> \<not> is_active s \<and>
        (\<forall>k \<in> K. \<forall>t. entries b k = Some t \<longrightarrow> is_active t \<or> completed_at s \<le> completed_at t)))"

definition cancelling_entry :: "string \<Rightarrow> snapshot \<Rightarrow> snapshot" where
  "cancelling_entry reason s =
     (if status s = Running then s\<lparr>status := Cancelling, cancel_reason := reason\<rparr> else s)"

definition cancel_entries :: "string \<Rightarrow> book \<Rightarrow> book" where
  "cancel_entries reason b =
     b\<lparr>entries := (\<lambda>jid. map_option (cancelling_entry reason) (entries b jid))\<rparr>"

definition submitted_entry :: "string \<Rightarrow> duration \<Rightarrow> timestamp \<Rightarrow> snapshot" where
  "submitted_entry jid timeout now =
     empty_snapshot\<lparr>sn_job_id := jid, status := Running, created_at := now, started_at := now,
       sn_timeout := timeout\<rparr>"

subsection \<open>The steps of the book\<close>

definition book_submit ::
  "duration \<Rightarrow> timestamp \<Rightarrow> snapshot \<Rightarrow> job_error option \<Rightarrow> book \<Rightarrow> book \<Rightarrow> bool" where
  "book_submit timeout now sn err b b' \<longleftrightarrow>
     (let c = forget_expired now b; active = int (card (ids_with is_active c)) in
      case err of
        Some Job_No_Id \<Rightarrow> b' = b \<and> sn = empty_snapshot
      | Some Job_Blocked \<Rightarrow> b' = c \<and> sn = empty_snapshot \<and> book_blocked b
      | Some Job_Limit \<Rightarrow> b' = c \<and> sn = empty_snapshot \<and> \<not> book_blocked b \<and> book_active b \<le> active
      | Some e \<Rightarrow> False
      | None \<Rightarrow> \<not> book_blocked b \<and> active < book_active b \<and>
          (\<exists>jid d. length jid = 32 \<and> entries b jid = None \<and> sn = submitted_entry jid timeout now \<and>
             makes_room c d \<and> b' = d\<lparr>entries := (entries d)(jid \<mapsto> sn)\<rparr>))"

fun book_step :: "book \<Rightarrow> job_event \<Rightarrow> book \<Rightarrow> bool" where
  "book_step b (Ev_Submit command fmt timeout cb now sn err) b' = book_submit timeout now sn err b b'"
| "book_step b (Ev_End jid out now) b' =
     (\<exists>s. entries b jid = Some s \<and> is_active s \<and>
        b' = b\<lparr>entries := (entries b)(jid \<mapsto> finished_snapshot out now s)\<rparr>)"
| "book_step b (Ev_Get jid now sn err) b' =
     (b' = forget_expired now b \<and>
      (case entries b' jid of
         None \<Rightarrow> sn = empty_snapshot \<and> err = Some Job_Not_Found
       | Some s \<Rightarrow> sn = s \<and> err = None))"
| "book_step b (Ev_Cancel jid reason sn err) b' =
     (case entries b jid of
        None \<Rightarrow> b' = b \<and> sn = empty_snapshot \<and> err = Some Job_Not_Found
      | Some s \<Rightarrow>
          if status s \<noteq> Running then b' = b \<and> sn = s \<and> err = Some Job_Not_Running
          else sn = cancelling_entry reason s \<and> err = None \<and>
               b' = b\<lparr>entries := (entries b)(jid \<mapsto> sn)\<rparr>)"
| "book_step b (Ev_Cancel_All reason n) b' =
     (n = card (ids_with (\<lambda>s. status s = Running) b) \<and> b' = cancel_entries reason b)"
| "book_step b (Ev_Block reason n) b' =
     (n = card (ids_with (\<lambda>s. status s = Running) b) \<and>
      b' = (cancel_entries reason b)\<lparr>book_blocked := True\<rparr>)"
| "book_step b (Ev_Count n) b' = (b' = b \<and> n = card (ids_with is_active b))"
| "book_step b (Ev_Report sn) b' = (b' = b)"

subsection \<open>The manager's calls as events\<close>

text \<open>
  \<open>Close\<close> is \<open>Ev_Block\<close> with its own reason. \<open>Ev_Report\<close> is the call of \<open>onDone\<close> after the
  end of a job, which the book does not see.
\<close>

fun job_takes :: "entropy \<Rightarrow> manager \<Rightarrow> job_event \<Rightarrow> manager \<Rightarrow> bool" where
  "job_takes entropy m (Ev_Submit command fmt timeout cb now sn err) m' =
     (submit entropy command fmt timeout cb now m = (m', sn, err))"
| "job_takes entropy m (Ev_End jid out now) m' =
     (now \<noteq> 0 \<and> (\<exists>r \<in> live_refs m. sn_job_id (job_of m r) = jid \<and> m' = finish_run r out now m))"
| "job_takes entropy m (Ev_Get jid now sn err) m' = (get_job jid now m = (m', sn, err))"
| "job_takes entropy m (Ev_Cancel jid reason sn err) m' = (cancel_job jid reason m = (m', sn, err))"
| "job_takes entropy m (Ev_Cancel_All reason n) m' = (cancel_all reason m = (m', n))"
| "job_takes entropy m (Ev_Block reason n) m' = (block_and_cancel_all reason m = (m', n))"
| "job_takes entropy m (Ev_Count n) m' = (m' = m \<and> n = active_count m)"
| "job_takes entropy m (Ev_Report sn) m' = (\<exists>r. mget (unreported m) r = Some sn \<and> m' = call_done r m)"

definition book_of :: "manager \<Rightarrow> book" where
  "book_of m = \<lparr>entries = (\<lambda>jid. map_option (job_of m) (mget (job_map m) jid)),
     book_blocked = jobs_blocked m, book_active = max_active m, book_results = max_results m,
     book_retention = retention m\<rparr>"

subsection \<open>The abstraction of each operation\<close>

lemma book_of_simps [simp]:
  "entries (book_of m) jid = map_option (job_of m) (mget (job_map m) jid)"
  "book_blocked (book_of m) = jobs_blocked m" "book_active (book_of m) = max_active m"
  "book_results (book_of m) = max_results m" "book_retention (book_of m) = retention m"
  by (simp_all add: book_of_def)

lemma job_of_update [simp]:
  "job_of (m\<lparr>draws := n\<rparr>) = job_of m" "job_of (m\<lparr>jobs_blocked := v\<rparr>) = job_of m"
  by (simp_all add: job_of_def fun_eq_iff)

lemma book_of_update [simp]:
  "book_of (m\<lparr>draws := n\<rparr>) = book_of m"
  "book_of (m\<lparr>jobs_blocked := v\<rparr>) = (book_of m)\<lparr>book_blocked := v\<rparr>"
  by (simp_all add: book_of_def)

lemma book_eqI:
  "entries b = entries c \<Longrightarrow> book_blocked b = book_blocked c \<Longrightarrow> book_active b = book_active c \<Longrightarrow>
   book_results b = book_results c \<Longrightarrow> book_retention b = book_retention c \<Longrightarrow> (b :: book) = c"
  by (cases b; cases c) simp

text \<open>Counting the entries of a map by their keys.\<close>

lemma card_keys:
  assumes "mok jm"
  shows "card {k. \<exists>r. mget jm k = Some r \<and> P r} = length (filter (\<lambda>e. P (snd e)) jm)"
proof -
  have "{k. \<exists>r. mget jm k = Some r \<and> P r} = fst ` set (filter (\<lambda>e. P (snd e)) jm)"
    using mget_eq_Some [OF assms] by force
  moreover have "distinct (map fst (filter (\<lambda>e. P (snd e)) jm))"
    using assms by (simp add: mok_def distinct_map_filter)
  ultimately show ?thesis
    by (metis distinct_card length_map set_map)
qed

lemma card_ids:
  assumes "mok (job_map m)"
  shows "card (ids_with P (book_of m)) = length (filter (\<lambda>e. P (job_of m (snd e))) (job_map m))"
proof -
  have "ids_with P (book_of m) = {k. \<exists>r. mget (job_map m) k = Some r \<and> P (job_of m r)}"
    by (auto simp: ids_with_def)
  then show ?thesis
    using card_keys [OF assms, of "\<lambda>r. P (job_of m r)"] by simp
qed

lemma card_book:
  assumes "mok (job_map m)"
  shows "card (dom (entries (book_of m))) = length (job_map m)"
proof -
  have "dom (entries (book_of m)) = {k. \<exists>r. mget (job_map m) k = Some r \<and> True}"
    by auto
  then show ?thesis
    using card_keys [OF assms, of "\<lambda>r. True"] by simp
qed

text \<open>A reference stands under one identifier only.\<close>

lemma mget_id: "job_map_wf m \<Longrightarrow> mget (job_map m) jid = Some r \<Longrightarrow> sn_job_id (job_of m r) = jid"
  by (auto simp: job_map_wf_def dest!: mget_SomeD)

lemma live_entry:
  "job_map_wf m \<Longrightarrow> job_live_wf m \<Longrightarrow> r \<in> live_refs m \<Longrightarrow> mget (job_map m) (sn_job_id (job_of m r)) = Some r"
  using job_liveD(2) [of m r] by (simp add: job_map_wf_def mget_eq_Some)

lemma expired_job_entry:
  "job_map_wf m \<Longrightarrow> job_live_wf m \<Longrightarrow> mget (job_map m) jid = Some r \<Longrightarrow>
   job_expired m now r \<longleftrightarrow> expired_entry (retention m) now (job_of m r)"
  using job_map_status [of m "(jid, r)"] by (auto simp: job_expired_def expired_entry_def dest: mget_SomeD)

lemma book_prune_expired:
  assumes "job_map_wf m" and "job_live_wf m"
  shows "book_of (prune_expired now m) = forget_expired now (book_of m)"
proof (rule book_eqI)
  have "mok (job_map m)"
    using assms(1) by (simp add: job_map_wf_def)
  then show "entries (book_of (prune_expired now m)) = entries (forget_expired now (book_of m))"
    using expired_job_entry [OF assms]
    by (auto simp: forget_expired_def prune_expired_def mget_filter job_of_def fun_eq_iff split: option.split)
qed (simp_all add: forget_expired_def prune_expired_def)
text \<open>The loop stops as soon as there is room for one more.\<close>

lemma length_mdel:
  assumes "mok jm" and "mget jm i = Some r"
  shows "length jm = Suc (length (mdel i jm))"
proof -
  have "fst ` set (mdel i jm) = fst ` set jm - {i}" "i \<in> fst ` set jm"
    using assms(2) by (simp_all add: keys_mdel) (metis mget_eq_None option.distinct(1))
  moreover have "card (fst ` set x) = length x" if "mok x" for x :: "('a \<times> 'b) list"
    using that by (metis distinct_card length_map mok_def set_map)
  ultimately show ?thesis
    using assms(1) mok_mdel [OF assms(1), of i]
    by (metis List.finite_set card_Suc_Diff1 finite_imageI)
qed

lemma prune_capacity_map_length:
  assumes "mok jm" and "\<forall>e \<in> set jm. fst e \<noteq> []"
  shows "if limit \<le> int (length jm) then limit - 1 \<le> int (length (prune_capacity_map h limit jm))
    else prune_capacity_map h limit jm = jm"
  using assms
proof (induction h limit jm rule: prune_capacity_map.induct)
  case (1 h limit jm)
  obtain i c where ic: "oldest_job h jm ([], 0) = (i, c)"
    by fastforce
  show ?case
  proof (cases "limit \<le> int (length jm) \<and> i \<noteq> []")
    case False
    then have "prune_capacity_map h limit jm = jm"
      using ic by (subst prune_capacity_map.simps) auto
    then show ?thesis by simp
  next
    case True
    obtain r where r: "mget jm i = Some r"
      using oldest_job_found [OF 1(3) ic] True mget_eq_Some [OF 1(2)] by auto
    have rec: "prune_capacity_map h limit jm = prune_capacity_map h limit (mdel i jm)"
      using True ic by (subst prune_capacity_map.simps) (simp add: Let_def)
    have del: "mok (mdel i jm)" "\<forall>e \<in> set (mdel i jm). fst e \<noteq> []"
      using 1(2,3) by (simp_all add: go_map_simps) (simp add: mdel_def)
    have "limit \<le> int (length jm)" "i = fst (oldest_job h jm ([], 0))" "i \<noteq> []"
      using True ic by simp_all
    from 1(1) [OF this del] show ?thesis
      using True length_mdel [OF 1(2) r] unfolding rec by (auto split: if_splits)
  qed
qed

lemma book_prune_capacity:
  assumes inv: "job_inv entropy m" and free: "int (active_locked m) < max_active m"
  shows "makes_room (book_of m) (book_of (prune_capacity m))"
proof -
  have wf: "job_map_wf m" "job_live_wf m" "mok (job_map m)" "\<forall>e \<in> set (job_map m). fst e \<noteq> []"
    using inv by (auto simp: job_inv_def job_map_wf_def)
  obtain P where P: "prune_capacity m = m\<lparr>job_map := filter P (job_map m)\<rparr>" "keeps_active m P"
    using prune_capacity_filter [OF inv] .
  let ?K = "dom (entries (book_of (prune_capacity m)))"
  have kept: "(jid, r) \<in> set (job_map (prune_capacity m)) \<longleftrightarrow> mget (job_map m) jid = Some r \<and> jid \<in> ?K" for jid r
  proof -
    have "(jid, r) \<in> set (job_map (prune_capacity m)) \<longleftrightarrow> mget (job_map (prune_capacity m)) jid = Some r"
      using wf(3) by (simp add: P(1) mget_eq_Some mok_filter)
    then show ?thesis
      using wf(3) by (auto simp: P(1) mget_filter split: option.splits if_splits)
  qed
  have len: "card ?K = length (job_map (prune_capacity m))"
    by (rule card_book) (simp add: P(1) mok_filter wf(3))
  have ents: "entries (book_of (prune_capacity m)) = entries (book_of m) |` ?K"
    using wf(3) by (auto simp: P(1) mget_filter restrict_map_def fun_eq_iff job_of_def split: option.splits)
  have sub: "?K \<subseteq> dom (entries (book_of m))"
    using wf(3) by (auto simp: P(1) mget_filter split: option.splits)
  have count: "if int (card (dom (entries (book_of m)))) < max_results m then ?K = dom (entries (book_of m))
      else int (card ?K) = max_results m - 1"
    using prune_capacity_map_length [OF wf(3,4), of "max_results m" "job_heap m"] submit_room(2) [OF inv free]
      card_book [OF wf(3)] len
    by (auto simp: prune_capacity_def split: if_splits)
  have old: "\<not> is_active (job_of m r) \<and> (\<forall>k \<in> ?K. \<forall>q. mget (job_map m) k = Some q \<longrightarrow>
      is_active (job_of m q) \<or> completed_at (job_of m r) \<le> completed_at (job_of m q))"
    if "mget (job_map m) jid = Some r" "jid \<notin> ?K" for jid r
  proof -
    have gone: "(jid, r) \<in> set (job_map m)" "(jid, r) \<notin> set (job_map (prune_capacity m))"
      using that kept by (auto dest: mget_SomeD)
    note oldest = prune_capacity_map_oldest [OF wf(3,4) gone(1), of "job_heap m" "max_results m"]
    have "(k, q) \<in> set (job_map (prune_capacity m))" if "k \<in> ?K" "mget (job_map m) k = Some q" for k q
      using that kept by blast
    then show ?thesis
      using oldest gone(2) job_map_status [OF wf(1,2) gone(1)] job_map_status [OF wf(1,2) mget_SomeD]
      by (fastforce simp: prune_capacity_def job_of_def)
  qed
  show ?thesis
    unfolding makes_room_def
  proof (intro exI [of _ ?K] conjI)
    show "book_of (prune_capacity m) = (book_of m)\<lparr>entries := entries (book_of m) |` ?K\<rparr>"
      using ents by (intro book_eqI) (simp_all add: P(1))
    show "if int (card (dom (entries (book_of m)))) < book_results (book_of m) then ?K = dom (entries (book_of m))
      else int (card ?K) = book_results (book_of m) - 1"
      using count by simp
  qed (use old sub in fastforce)+
qed

text \<open>A change of one job of the heap is a change of its entry.\<close>

lemma entries_update:
  assumes "job_map_wf m" and "mget (job_map m) jid = Some r"
    and "job_map m' = job_map m" and "\<And>q. job_of m' q = (if q = r then s else job_of m q)"
  shows "entries (book_of m') = (entries (book_of m))(jid \<mapsto> s)"
proof
  fix k
  have "mget (job_map m) k = Some r \<Longrightarrow> k = jid"
    using mget_id [OF assms(1)] assms(2) by metis
  then show "entries (book_of m') k = ((entries (book_of m))(jid \<mapsto> s)) k"
    using assms(2-4) by (cases "mget (job_map m) k") auto
qed

lemma cancel_all_limits [simp]:
  "max_active (fst (cancel_all reason m)) = max_active m"
  "max_results (fst (cancel_all reason m)) = max_results m"
  "retention (fst (cancel_all reason m)) = retention m"
  by (simp_all add: cancel_all_def split: prod.split)

lemma book_cancel_all:
  assumes "job_map_wf m"
  shows "book_of (fst (cancel_all reason m)) = cancel_entries reason (book_of m)"
    and "snd (cancel_all reason m) = card (ids_with (\<lambda>s. status s = Running) (book_of m))"
proof -
  have mok: "mok (job_map m)"
    using assms by (simp add: job_map_wf_def)
  have "r \<in> snd ` set (job_map m)" if "mget (job_map m) jid = Some r" for jid r
    using mget_SomeD [OF that] by force
  then show "book_of (fst (cancel_all reason m)) = cancel_entries reason (book_of m)"
    by (intro book_eqI)
       (auto simp: cancel_entries_def cancelling_entry_def job_of_cancel_all fun_eq_iff
          option.map_comp intro!: map_option_cong)
  have "distinct (map snd (job_map m))"
  proof -
    have "fst e = sn_job_id (job_of m (snd e))" if "e \<in> set (job_map m)" for e
      using assms that by (simp add: job_map_wf_def)
    then have "inj_on snd (set (job_map m))"
      by (intro inj_onI prod_eqI) simp_all
    then show ?thesis
      using mok by (simp add: mok_def distinct_map)
  qed
  then show "snd (cancel_all reason m) = card (ids_with (\<lambda>s. status s = Running) (book_of m))"
    using cancel_running_count [of "job_map m" reason "job_heap m"] card_ids [OF mok]
    by (simp add: cancel_all_def job_of_def split_beta)
qed

lemma book_submit_sim:
  assumes inv: "job_inv entropy m" and ent: "good_entropy entropy"
    and sub: "submit entropy command fmt timeout cb now m = (m', sn, err)"
  shows "book_submit timeout now sn err (book_of m) (book_of m')"
proof (cases "random_id entropy (draws m)")
  case None
  then show ?thesis
    using sub by (auto simp: submit_def book_submit_def)
next
  case (Some jid)
  let ?m1 = "prune_expired now (m\<lparr>draws := Suc (draws m)\<rparr>)"
  have m1: "job_inv entropy ?m1"
    by (intro prune_expired_inv draws_inv inv)
  have "book_of ?m1 = forget_expired now (book_of (m\<lparr>draws := Suc (draws m)\<rparr>))"
    using draws_inv [OF inv] by (intro book_prune_expired) (simp_all add: job_inv_def)
  then have b1: "book_of ?m1 = forget_expired now (book_of m)"
    by simp
  have "mok (job_map ?m1)"
    using m1 by (simp add: job_inv_def job_map_wf_def)
  then have active: "card (ids_with is_active (forget_expired now (book_of m))) = active_locked ?m1"
    using card_ids [of ?m1 is_active] by (simp add: b1 active_locked_def)
  show ?thesis
  proof (cases "jobs_blocked m \<or> max_active m \<le> int (active_locked ?m1)")
    case True
    then have "book_of m' = forget_expired now (book_of m) \<and> sn = empty_snapshot \<and>
        err = Some (if jobs_blocked m then Job_Blocked else Job_Limit)"
      using sub b1 by (auto simp: submit_def Some Let_def)
    then show ?thesis
      using True active by (auto simp: book_submit_def)
  next
    case False
    let ?m2 = "prune_capacity ?m1"
    have free: "int (active_locked ?m1) < max_active ?m1"
      using False by simp
    have fresh: "mget (job_map m) jid = None"
      using inv random_id_inject [OF ent Some] by (fastforce simp: job_inv_def job_ids_wf_def mget_eq_None)
    have below: "mget (job_map ?m2) k = Some r \<Longrightarrow> r < next_job m" for k r
      using submit_room(1) [OF m1 free] by (auto simp: job_inv_def job_map_wf_def dest!: mget_SomeD)
    have m': "m' = ?m2\<lparr>job_heap := (job_heap ?m2)(next_job m := \<lparr>snap = submitted_entry jid timeout now,
          ctx_cancelled = False, on_done = cb\<rparr>), next_job := Suc (next_job m),
        job_map := mput jid (next_job m) (job_map ?m2),
        goroutines := goroutines m @ [(next_job m, command, fmt)]\<rparr>"
      and answer: "sn = submitted_entry jid timeout now" "err = None"
      using sub False by (auto simp: submit_def Some Let_def submitted_entry_def)
    have "book_of m' = (book_of ?m2)\<lparr>entries := (entries (book_of ?m2))(jid \<mapsto> sn)\<rparr>"
    proof (rule book_eqI)
      show "entries (book_of m') = entries ((book_of ?m2)\<lparr>entries := (entries (book_of ?m2))(jid \<mapsto> sn)\<rparr>)"
      proof
        fix k
        have "mget (job_map ?m2) k = Some r \<Longrightarrow> r \<noteq> next_job m" for r
          using below [of k r] by blast
        then show "entries (book_of m') k = entries ((book_of ?m2)\<lparr>entries := (entries (book_of ?m2))(jid \<mapsto> sn)\<rparr>) k"
          by (cases "mget (job_map ?m2) k") (simp_all add: m' answer mget_mput job_of_def)
      qed
    qed (simp_all add: m')
    moreover have "length jid = 32"
      by (rule random_id_length [OF ent Some])
    moreover have "makes_room (forget_expired now (book_of m)) (book_of ?m2)"
      using book_prune_capacity [OF m1 free] by (simp add: b1)
    ultimately show ?thesis
      using False active fresh answer by (auto simp: book_submit_def)
  qed
qed

lemma book_finish_sim:
  assumes "job_map_wf m" and "job_live_wf m" and "r \<in> live_refs m"
  shows "book_of (finish_run r out now m) =
    (book_of m)\<lparr>entries := (entries (book_of m))(sn_job_id (job_of m r) \<mapsto> finished_snapshot out now (job_of m r))\<rparr>"
proof (rule book_eqI)
  show "entries (book_of (finish_run r out now m)) = entries ((book_of m)\<lparr>entries :=
      (entries (book_of m))(sn_job_id (job_of m r) \<mapsto> finished_snapshot out now (job_of m r))\<rparr>)"
    using entries_update [OF assms(1) live_entry [OF assms], of "finish_run r out now m"
        "finished_snapshot out now (job_of m r)"] assms(3)
    by (simp add: finish_run_def job_of_def Let_def)
qed (simp_all add: finish_run_def Let_def)

lemma book_cancel_sim:
  assumes "job_map_wf m" and "cancel_job jid reason m = (m', sn, err)"
  shows "book_step (book_of m) (Ev_Cancel jid reason sn err) (book_of m')"
proof (cases "mget (job_map m) jid")
  case None
  then show ?thesis
    using assms(2) by (auto simp: cancel_job_def)
next
  case (Some r)
  show ?thesis
  proof (cases "status (job_of m r) = Running")
    case False
    then show ?thesis
      using assms(2) Some by (auto simp: cancel_job_def)
  next
    case True
    have m': "m' = fst (cancel_job jid reason m)"
      using assms(2) by simp
    have same: "job_map m' = job_map m" "jobs_blocked m' = jobs_blocked m" "max_active m' = max_active m"
        "max_results m' = max_results m" "retention m' = retention m"
      by (auto simp: m' cancel_job_def Let_def split: option.split)
    have "entries (book_of m') = (entries (book_of m))(jid \<mapsto> cancelling_entry reason (job_of m r))"
      by (rule entries_update [OF assms(1) Some same(1)])
         (auto simp: m' cancel_job_heap Some True cancelling_entry_def)
    then have "book_of m' = (book_of m)\<lparr>entries := (entries (book_of m))(jid \<mapsto> cancelling_entry reason (job_of m r))\<rparr>"
      by (intro book_eqI) (simp_all add: same)
    then show ?thesis
      using assms(2) Some True by (auto simp: cancel_job_def cancelling_entry_def Let_def job_of_def)
  qed
qed

lemma job_takes_sim:
  assumes inv: "job_inv entropy m" and ent: "good_entropy entropy" and "job_takes entropy m e m'"
  shows "book_step (book_of m) e (book_of m')"
proof -
  have wf: "job_map_wf m" "job_live_wf m" "mok (job_map m)"
    using inv by (simp_all add: job_inv_def job_map_wf_def)
  show ?thesis
  proof (cases e)
    case (Ev_Submit command fmt timeout cb now sn err)
    then show ?thesis
      using assms(3) book_submit_sim [OF inv ent] by simp
  next
    case (Ev_End jid out now)
    then obtain r where r: "r \<in> live_refs m" "sn_job_id (job_of m r) = jid" "m' = finish_run r out now m"
      using assms(3) by auto
    show ?thesis
      using live_entry [OF wf(1,2) r(1)] book_finish_sim [OF wf(1,2) r(1), of out now]
        job_liveD(4) [OF wf(2) r(1)] r by (simp add: Ev_End)
  next
    case (Ev_Get jid now sn err)
    then show ?thesis
      using assms(3) book_prune_expired [OF wf(1,2), of now, symmetric]
      by (auto simp: get_job_def Let_def split: option.splits)
  next
    case (Ev_Cancel jid reason sn err)
    then show ?thesis
      using assms(3) book_cancel_sim [OF wf(1)] by (simp only: job_takes.simps)
  next
    case (Ev_Cancel_All reason n)
    then show ?thesis
      using assms(3) book_cancel_all [OF wf(1), of reason] by simp
  next
    case (Ev_Block reason n)
    then show ?thesis
      using assms(3) Ev_Block book_cancel_all [OF wf(1), of reason] block_and_cancel_all_eq [of reason m] by auto
  next
    case (Ev_Count n)
    then show ?thesis
      using assms(3) card_ids [OF wf(3), of is_active] by (simp add: active_count_def active_locked_def)
  next
    case (Ev_Report sn)
    then show ?thesis
      using assms(3) by (auto simp: book_of_def)
  qed
qed

lemma job_takes_inv:
  assumes inv: "job_inv entropy m" and ent: "good_entropy entropy" and "job_takes entropy m e m'"
  shows "job_inv entropy m'"
proof (cases e)
  case (Ev_Submit command fmt timeout cb now sn err)
  then show ?thesis
    using assms(3) submit_inv [OF inv ent, of command fmt timeout cb now] by simp
next
  case (Ev_Get jid now sn err)
  then show ?thesis
    using assms(3) get_job_inv [OF inv, of jid now] by simp
next
  case (Ev_Cancel jid reason sn err)
  then show ?thesis
    using assms(3) cancel_job_inv [OF inv, of jid reason] by simp
next
  case (Ev_Cancel_All reason n)
  then show ?thesis
    using assms(3) cancel_all_inv [OF inv, of reason] by simp
next
  case (Ev_Block reason n)
  then show ?thesis
    using assms(3) block_inv_weak [OF inv, of reason] by simp
qed (use assms finish_inv [OF inv] call_done_inv in auto)

interpretation book: simulation "job_takes entropy" book_step book_of
  "\<lambda>m. good_entropy entropy \<and> job_inv entropy m" for entropy
  by unfold_locales (auto intro: job_takes_inv job_takes_sim)

definition empty_book :: "int \<Rightarrow> int \<Rightarrow> duration \<Rightarrow> book" where
  "empty_book ma mr ret =
     \<lparr>entries = Map.empty, book_blocked = False, book_active = ma, book_results = mr, book_retention = ret\<rparr>"

lemma book_of_new: "book_of (new_manager ma mr ret) = empty_book ma mr ret"
  by (simp add: book_of_def new_manager_def empty_book_def)

subsection \<open>Property\<close>

text \<open>
  C7: (refinement) for its clients the job manager is a book of snapshots: every sequence of calls,
  with the answers they get, and of ends of jobs is a run of the specification. In it a
  submission is refused only when blocked or when the limit of active jobs is reached, a job
  is forgotten only after the retention or, oldest first and no more than needed, to make
  room, and every answer and every count is that of the book.
\<close>

theorem job_manager_refines_book:
  assumes "good_entropy entropy" and "0 \<le> ma" and "ma \<le> mr"
    and "runs_to (job_takes entropy) (new_manager ma mr ret) es m"
  shows "runs_to book_step (empty_book ma mr ret) es (book_of m)"
  using book.sim_run [OF assms(4)] new_manager_inv [OF assms(2,3), of entropy ret] assms(1)
  by (simp add: book_of_new)

definition sample_events :: "job_event list" where
  "sample_events =
     [Ev_Submit ''x'' format_lines 9 True 2 (submitted_entry zero_id 9 2) None,
      Ev_Submit ''y'' format_lines 9 True 2 empty_snapshot (Some Job_Limit), Ev_Count 1]"

lemma random_one_id: "random_id counting_entropy (Suc 0) = Some (hex_encode (char_of (1::nat) # replicate 15 (CHR 0x00)))"
  by (simp add: random_id_def counting_entropy_def)

lemma sample_events_run: "\<exists>m. runs_to (job_takes counting_entropy) (new_manager 1 2 5) sample_events m"
  by (simp add: sample_events_def submit_def new_manager_def random_zero_id random_one_id
      prune_expired_def prune_capacity_def prune_capacity_map.simps active_locked_def active_count_def
      job_expired_def submitted_entry_def job_of_def is_active_def Let_def empty_snapshot_def
      del: hex_encode.simps)

theorem job_manager_refines_book_witness:
  "\<exists>m. runs_to book_step (empty_book 1 2 5) sample_events (book_of m)"
proof -
  obtain m where "runs_to (job_takes counting_entropy) (new_manager 1 2 5) sample_events m"
    using sample_events_run by blast
  then show ?thesis
    using job_manager_refines_book [OF counting_entropy_good, of 1 2] by auto
qed

end
