(* ===== verification/Http.thy ===== *)
theory Http
  imports Sessions Config Audit_Log
begin

section \<open>Requests and responses of the HTTPS server: internal/server, internal/api\<close>

text \<open>
  What the handlers of \<open>server.go\<close> read and write: a request with its cleaned path, the
  routes of the \<open>ServeMux\<close>, the decoding of the two JSON bodies with their limits, and the
  responses as data, before \<open>encoding/json\<close> writes them.
\<close>

subsection \<open>Requests and routes\<close>

record request =
  rq_method :: string
  rq_path :: "string list"
  rq_remote :: string
  rq_authorization :: string
  rq_forwarded :: string
  rq_body :: string

text \<open>
  The patterns registered in \<open>New\<close>, on the segments of the cleaned path. A pattern with method
  GET also takes HEAD. A path that has a pattern, but not for the method, is 405, any other
  404; a wildcard takes one segment that is not empty.
\<close>

datatype route =
    To_Exec | To_Job_Create | To_Job_Get string | To_Job_Cancel string | To_Session_Create
  | To_Session_Exec string | To_Session_Restart string | To_Session_Info string
  | To_Session_Delete string | To_Health | To_Blocklist_Get | To_Blocklist_Delete string
  | To_Kill_Switch | To_No_Method | To_Nothing

definition mux_routes :: "string list \<Rightarrow> (string \<times> route) list" where
  "mux_routes path =
     (case path of
        [a] \<Rightarrow>
          if a = ''exec'' then [(''POST'', To_Exec)]
          else if a = ''jobs'' then [(''POST'', To_Job_Create)]
          else if a = ''session'' then [(''POST'', To_Session_Create)]
          else if a = ''health'' then [(''GET'', To_Health)]
          else if a = ''blocklist'' then [(''GET'', To_Blocklist_Get)]
          else if a = ''killswitch'' then [(''POST'', To_Kill_Switch)]
          else []
      | [a, x] \<Rightarrow>
          if x = [] then []
          else if a = ''jobs'' then [(''GET'', To_Job_Get x), (''DELETE'', To_Job_Cancel x)]
          else if a = ''session'' then [(''DELETE'', To_Session_Delete x)]
          else if a = ''blocklist'' then [(''DELETE'', To_Blocklist_Delete x)]
          else []
      | [a, x, b] \<Rightarrow>
          if x = [] \<or> a \<noteq> ''session'' then []
          else if b = ''exec'' then [(''POST'', To_Session_Exec x)]
          else if b = ''restart'' then [(''POST'', To_Session_Restart x)]
          else if b = ''info'' then [(''GET'', To_Session_Info x)]
          else []
      | _ \<Rightarrow> [])"

definition route_of :: "request \<Rightarrow> route" where
  "route_of rq =
     (let routes = mux_routes (rq_path rq);
          m = (if rq_method rq = ''HEAD'' then ''GET'' else rq_method rq)
      in case mget routes m of
           Some rt \<Rightarrow> rt
         | None \<Rightarrow> if routes = [] then To_Nothing else To_No_Method)"

text \<open>The handlers that begin with \<open>rejectIfKilled\<close>.\<close>

definition guarded_route :: "route \<Rightarrow> bool" where
  "guarded_route rt =
     (case rt of
        To_Exec \<Rightarrow> True | To_Job_Create \<Rightarrow> True | To_Session_Create \<Rightarrow> True
      | To_Session_Exec _ \<Rightarrow> True | To_Session_Restart _ \<Rightarrow> True | _ \<Rightarrow> False)"

subsection \<open>Responses\<close>

record api_job_response =
  jr_job_id :: string
  jr_status :: string
  jr_created_at :: string
  jr_started_at :: string
  jr_completed_at :: string
  jr_timeout_sec :: int
  jr_execution :: "exec_result option"
  jr_error :: string
  jr_cancel_reason :: string

record api_session_info =
  si_session_id :: string
  si_created_at :: string
  si_last_used_at :: string
  si_uptime_sec :: int
  si_busy :: bool

record health_response =
  hr_status :: string
  hr_version :: string
  hr_uptime_sec :: int
  hr_open_sessions :: nat
  hr_active_jobs :: nat
  hr_update_check_interval :: int
  hr_kill_switch_armed :: bool

record blocked_ip =
  bi_ip :: string
  bi_blocked_at :: string
  bi_failed_attempts :: int

datatype error_details =
    No_Details | Attempts_Left int | Limit_Value string int | With_Execution exec_result
  | With_Job api_job_response

record api_error =
  er_code :: string
  er_message :: string
  er_retryable :: bool
  er_details :: error_details

datatype payload =
    No_Payload | Mux_Text
  | Error_Body api_error
  | Exec_Response string exec_result
  | Job_Response api_job_response
  | Session_Response string string
  | Info_Response api_session_info
  | Health_Response health_response
  | Blocklist_Response "blocked_ip list"
  | Armed_Response nat

record response =
  rs_status :: nat
  rs_payload :: payload

definition write_json :: "nat \<Rightarrow> payload \<Rightarrow> response" where
  "write_json st p = \<lparr>rs_status = st, rs_payload = p\<rparr>"

definition write_error :: "nat \<Rightarrow> string \<Rightarrow> string \<Rightarrow> bool \<Rightarrow> error_details \<Rightarrow> response" where
  "write_error st code message retryable details =
     write_json st (Error_Body \<lparr>er_code = code, er_message = message, er_retryable = retryable,
       er_details = details\<rparr>)"

definition job_response :: "snapshot \<Rightarrow> api_job_response" where
  "job_response sn =
     \<lparr>jr_job_id = sn_job_id sn, jr_status = status_text (status sn),
      jr_created_at = rfc3339_nano (created_at sn), jr_started_at = rfc3339_nano (started_at sn),
      jr_completed_at = (if completed_at sn = 0 then [] else rfc3339_nano (completed_at sn)),
      jr_timeout_sec = whole_seconds (sn_timeout sn), jr_execution = execution sn,
      jr_error = sn_error sn, jr_cancel_reason = cancel_reason sn\<rparr>"

text \<open>\<open>int64(d.Seconds())\<close>, which truncates the \<open>float64\<close> towards zero.\<close>

definition uptime_seconds :: "(rat \<Rightarrow> rat) \<Rightarrow> duration \<Rightarrow> int" where
  "uptime_seconds fl d = (let x = duration_seconds fl d in if x < 0 then \<lceil>x\<rceil> else \<lfloor>x\<rfloor>)"

text \<open>\<open>Session.Info\<close>.\<close>

definition session_info :: "(rat \<Rightarrow> rat) \<Rightarrow> timestamp \<Rightarrow> session \<Rightarrow> api_session_info" where
  "session_info fl now s =
     \<lparr>si_session_id = sess_id s, si_created_at = rfc3339_nano (sess_created s),
      si_last_used_at = rfc3339_nano (last_used s),
      si_uptime_sec = uptime_seconds fl (time_sub now (sess_created s)), si_busy = busy s\<rparr>"

subsection \<open>Request bodies\<close>

text \<open>
  The body behind \<open>http.MaxBytesReader\<close>: the decoder sees the first \<open>max\<close> bytes, then the end
  of the body or, when there are more, an error that is not \<open>io.EOF\<close>. A value that is complete
  within the limit is decoded even if the body is longer; the second \<open>Decode\<close> then fails.
\<close>

datatype body_error = Body_Malformed string | Body_Too_Large | Body_Trailing

definition decode_body :: "'a json_decoder \<Rightarrow> 'a \<Rightarrow> int \<Rightarrow> string \<Rightarrow> body_error + 'a" where
  "decode_body dec init max_bytes body =
     (let over = max_bytes < int (length body); part = take (nat max_bytes) body in
      case dec init part of
        Json_Bad msg \<Rightarrow> Inl (Body_Malformed msg)
      | Json_More \<Rightarrow>
          Inl (if over then Body_Too_Large
               else Body_Malformed (if json_at_eof part then ''EOF'' else ''unexpected EOF''))
      | Json_Value v rest \<Rightarrow> if over \<or> \<not> json_at_eof rest then Inl Body_Trailing else Inr v)"

definition body_response :: "body_error \<Rightarrow> response" where
  "body_response e =
     (case e of
        Body_Malformed msg \<Rightarrow> write_error 400 ''invalid_json'' msg False No_Details
      | Body_Too_Large \<Rightarrow>
          write_error 413 ''request_too_large'' ''http: request body too large'' False No_Details
      | Body_Trailing \<Rightarrow>
          write_error 400 ''invalid_json'' ''request body contains trailing JSON data'' False No_Details)"

text \<open>The checks the two decoders share.\<close>

definition check_command :: "string \<Rightarrow> string \<Rightarrow> response option" where
  "check_command command fmt =
     (if trim_space command = [] then
        Some (write_error 400 ''empty_command'' ''command must not be empty'' False No_Details)
      else if fmt \<noteq> format_json \<and> fmt \<noteq> format_lines then
        Some (write_error 400 ''invalid_format'' ''format must be json_object or lines'' False No_Details)
      else None)"

definition decode_exec_request ::
  "exec_request json_decoder \<Rightarrow> config \<Rightarrow> string \<Rightarrow> response + exec_request" where
  "decode_exec_request dec cfg body =
     (case decode_body dec empty_exec_request (max_request_bytes cfg) body of
        Inl e \<Rightarrow> Inl (body_response e)
      | Inr q \<Rightarrow>
          (case check_command (req_command q) (req_format q) of
             Some resp \<Rightarrow> Inl resp
           | None \<Rightarrow> Inr q))"

definition decode_job_request ::
  "job_request json_decoder \<Rightarrow> config \<Rightarrow> string \<Rightarrow> response + job_request" where
  "decode_job_request dec cfg body =
     (case decode_body dec empty_job_request (max_request_bytes cfg) body of
        Inl e \<Rightarrow> Inl (body_response e)
      | Inr q \<Rightarrow>
          (case check_command (req_command q) (req_format q) of
             Some resp \<Rightarrow> Inl resp
           | None \<Rightarrow> Inr q))"

text \<open>\<open>newRequestID\<close>: twelve random bytes, or the clock when there are none.\<close>

definition unix_epoch :: timestamp where
  "unix_epoch = 719162 * nanos_per_day"

definition new_request_id :: "string option \<Rightarrow> timestamp \<Rightarrow> string" where
  "new_request_id random now =
     (case random of
        Some b \<Rightarrow> hex_encode b
      | None \<Rightarrow> ''fallback-'' @ json_int (int64 (now - unix_epoch)))"

subsection \<open>Properties\<close>

lemma decode_body_Inr:
  "decode_body dec init max_bytes body = Inr v \<Longrightarrow>
     int (length body) \<le> max_bytes \<and> (\<exists>rest. dec init body = Json_Value v rest \<and> json_at_eof rest)"
  by (auto simp: decode_body_def Let_def split: json_scan.splits if_splits)

lemma check_command_None:
  "check_command command fmt = None \<longleftrightarrow>
     trim_space command \<noteq> [] \<and> (fmt = format_json \<or> fmt = format_lines)"
  by (auto simp: check_command_def split: if_splits)

lemma decode_exec_ok:
  assumes "decode_exec_request dec cfg body = Inr q"
  shows "int (length body) \<le> max_request_bytes cfg \<and> trim_space (req_command q) \<noteq> [] \<and>
    (req_format q = format_json \<or> req_format q = format_lines) \<and>
    (\<exists>rest. dec empty_exec_request body = Json_Value q rest \<and> json_at_eof rest)"
  using assms
  by (auto simp: decode_exec_request_def check_command_None dest!: decode_body_Inr
      split: sum.splits option.splits)

lemma decode_job_ok:
  assumes "decode_job_request dec cfg body = Inr q"
  shows "int (length body) \<le> max_request_bytes cfg \<and> trim_space (req_command q) \<noteq> [] \<and>
    (req_format q = format_json \<or> req_format q = format_lines) \<and>
    (\<exists>rest. dec empty_job_request body = Json_Value q rest \<and> json_at_eof rest)"
  using assms
  by (auto simp: decode_job_request_def check_command_None dest!: decode_body_Inr
      split: sum.splits option.splits)

text \<open>A body within the limit is decoded in full.\<close>

lemma decode_body_iff:
  "decode_body dec init max_bytes body = Inr v \<longleftrightarrow>
     int (length body) \<le> max_bytes \<and> (\<exists>rest. dec init body = Json_Value v rest \<and> json_at_eof rest)"
proof (cases "int (length body) \<le> max_bytes")
  case True
  then have "take (nat max_bytes) body = body" by simp
  then show ?thesis
    using True by (auto simp: decode_body_def Let_def split: json_scan.splits)
next
  case False
  then show ?thesis
    by (auto simp: decode_body_def Let_def split: json_scan.splits)
qed

definition request_valid :: "config \<Rightarrow> string \<Rightarrow> 'a json_scan \<Rightarrow> string \<Rightarrow> string \<Rightarrow> 'a \<Rightarrow> bool" where
  "request_valid cfg body scan command fmt q \<longleftrightarrow>
     int (length body) \<le> max_request_bytes cfg \<and> (\<exists>rest. scan = Json_Value q rest \<and> json_at_eof rest) \<and>
     trim_space command \<noteq> [] \<and> fmt \<in> {format_json, format_lines}"

text \<open>The status of a rejection: 413 when the value was cut off by the limit, else 400.\<close>

definition rejection_status :: "config \<Rightarrow> string \<Rightarrow> 'a json_scan \<Rightarrow> nat" where
  "rejection_status cfg body scan =
     (if max_request_bytes cfg < int (length body) \<and> scan = Json_More then 413 else 400)"

lemma decode_body_status:
  "decode_body dec init (max_request_bytes cfg) body = Inl e \<Longrightarrow>
     rs_status (body_response e) =
       rejection_status cfg body (dec init (take (nat (max_request_bytes cfg)) body))"
  by (auto simp: decode_body_def body_response_def write_error_def write_json_def rejection_status_def
      Let_def split: json_scan.splits if_splits)

lemma check_command_status:
  "check_command command fmt = Some resp \<Longrightarrow> rs_status resp = 400"
  by (auto simp: check_command_def write_error_def write_json_def split: if_splits)

lemma decode_body_rest:
  "decode_body dec init max_bytes body = Inr q \<Longrightarrow> \<not> max_bytes < int (length body)"
  by (simp add: decode_body_iff)

text \<open>
  C31: A request body is accepted exactly when it is valid. Both decoders return a request \<open>q\<close>
  exactly when the body fits the limit, is one JSON value that decodes to \<open>q\<close>, followed by nothing
  but white space, its command is not blank and its format is one of the two; otherwise they
  answer 413 when the body exceeds the limit and no value was complete within it, and 400 in
  every other case.
\<close>

theorem accepted_bodies_are_valid:
  fixes cfg :: config and body :: string
  defines "part \<equiv> take (nat (max_request_bytes cfg)) body"
  shows "(decode_exec_request dec cfg body = Inr q) =
      request_valid cfg body (dec empty_exec_request body) (req_command q) (req_format q) q \<and>
    (decode_job_request dec' cfg body = Inr q') =
      request_valid cfg body (dec' empty_job_request body) (req_command q') (req_format q') q' \<and>
    (case decode_exec_request dec cfg body of
       Inl resp \<Rightarrow> rs_status resp = rejection_status cfg body (dec empty_exec_request part)
     | Inr _ \<Rightarrow> True) \<and>
    (case decode_job_request dec' cfg body of
       Inl resp \<Rightarrow> rs_status resp = rejection_status cfg body (dec' empty_job_request part)
     | Inr _ \<Rightarrow> True)"
proof (intro conjI)
  show "(decode_exec_request dec cfg body = Inr q) =
      request_valid cfg body (dec empty_exec_request body) (req_command q) (req_format q) q"
    using decode_body_iff [of dec empty_exec_request "max_request_bytes cfg" body q]
      check_command_None [of "req_command q" "req_format q"]
    by (auto simp: decode_exec_request_def request_valid_def split: sum.splits option.splits)
  show "(decode_job_request dec' cfg body = Inr q') =
      request_valid cfg body (dec' empty_job_request body) (req_command q') (req_format q') q'"
    using decode_body_iff [of dec' empty_job_request "max_request_bytes cfg" body q']
      check_command_None [of "req_command q'" "req_format q'"]
    by (auto simp: decode_job_request_def request_valid_def split: sum.splits option.splits)
  show "case decode_exec_request dec cfg body of
       Inl resp \<Rightarrow> rs_status resp = rejection_status cfg body (dec empty_exec_request part)
     | Inr _ \<Rightarrow> True"
    by (auto simp: decode_exec_request_def part_def decode_body_status
        dest: check_command_status decode_body_rest split: sum.splits option.splits)
       (simp add: rejection_status_def decode_body_rest check_command_status)
  show "case decode_job_request dec' cfg body of
       Inl resp \<Rightarrow> rs_status resp = rejection_status cfg body (dec' empty_job_request part)
     | Inr _ \<Rightarrow> True"
    by (auto simp: decode_job_request_def part_def decode_body_status
        dest: check_command_status decode_body_rest split: sum.splits option.splits)
       (simp add: rejection_status_def decode_body_rest check_command_status)
qed

text \<open>Every route of the server is found under the method and path it is registered for.\<close>

lemma route_examples:
  "route_of \<lparr>rq_method = ''POST'', rq_path = [''session'', x, ''exec''], rq_remote = r,
     rq_authorization = a, rq_forwarded = f, rq_body = b\<rparr> = (if x = [] then To_Nothing else To_Session_Exec x)"
  by (simp add: route_of_def mux_routes_def mget_Cons)

end
