(* ===== verification/Server.thy ===== *)
theory Server
  imports Http
begin

section \<open>The HTTPS server: internal/server/server.go\<close>

text \<open>
  The server as a concurrent system. Connections are numbered; each carries one request
  through the middleware and its handler, and its position is one of the constructors of
  \<open>conn\<close>. A step is one critical section: a call into the blocklist, the rate limiter, the job
  manager, the session manager or the runner, together with the local computation and the
  audit events around it. Between the steps of one connection every other connection, the
  goroutines of the jobs, the calls of \<open>Runner.Run\<close> and \<open>Session.Exec\<close> in progress, the reaper
  and the operators of the machine (who own the kill-switch file) may act. TLS, the listener
  and the writing of responses to the network are not modelled.
\<close>

subsection \<open>State\<close>

text \<open>The client address and the request identifier the middleware puts into the context.\<close>

record request_ctx =
  client_ip :: string
  request_id :: string

datatype conn =
    C_Idle
  | C_Blocklist request_ctx | C_Limit request_ctx | C_Auth request_ctx
  | C_Guard request_ctx | C_Body request_ctx
  | C_Running request_ctx string string
  | C_Exec request_ctx string sess_ref string string
  | C_Restart sess_ref
  | C_Kill_Jobs request_ctx | C_Kill_Runner request_ctx nat | C_Kill_Wait request_ctx nat "pid set"
  | C_Kill_Sessions request_ctx nat | C_Kill_End request_ctx nat "sess_ref set"
  | C_Done response
  | C_Dropped

text \<open>
  \<open>C_Running\<close>: in \<open>runner.Run\<close> with the command and format; \<open>C_Exec\<close>: in \<open>session.Exec\<close> with
  the path value, the session, the command and format; \<open>C_Kill_Wait\<close>, \<open>C_Kill_End\<close>: in
  \<open>BlockAndKillAll\<close> and \<open>KillAll\<close> until what they collected has been killed.
\<close>

datatype shutdown_pc = Sd_Off | Sd_Sessions | Sd_Runner | Sd_Http

record 'ip server =
  s_cfg :: config
  s_version :: string
  s_started :: timestamp
  s_auth :: token_auth
  s_resolver :: "'ip resolver"
  s_blocklist :: blocklist
  s_limiter :: rate_limiter
  s_audit :: audit_logger
  s_disk :: files
  s_events :: "(audit_event \<times> timestamp \<times> audit_error option) list"
  s_runner :: runner
  s_jobs :: manager
  s_job_conn :: "job_ref \<Rightarrow> nat"
  s_sessions :: pool
  s_reaper_stopped :: bool
  s_kill :: stat_answer
  s_conns :: "nat \<Rightarrow> conn"
  s_shutdown :: shutdown_pc

text \<open>
  \<open>s_job_conn\<close> is what the callback of a job captures: the connection that submitted it.
  \<open>s_events\<close> are the calls of \<open>writeAudit\<close> so far with their result, \<open>s_disk\<close> what they left.

  The parameters: the libraries, the n-th answers of the random source, the failures of the
  n-th audit write, the request of every connection, and the format each call of the runner
  and of the sessions is going to be made with.
\<close>

record 'ip server_env =
  e_net :: "'ip net_lib"
  e_sha256 :: "string \<Rightarrow> string"
  e_float :: "rat \<Rightarrow> rat"
  e_exec_json :: "exec_request json_decoder"
  e_job_json :: "job_request json_decoder"
  e_json :: json_lib
  e_archives :: archive_lib
  e_audit :: "nat \<Rightarrow> audit_env"
  e_job_ids :: entropy
  e_session_ids :: entropy
  e_request :: "nat \<Rightarrow> request"
  e_run_format :: "nat \<Rightarrow> string"
  e_session_format :: "nat \<Rightarrow> string"

text \<open>The calls of the runner: one per connection and one per job.\<close>

definition exec_call :: "nat \<Rightarrow> nat" where
  "exec_call k = 2 * k"

definition job_call :: "job_ref \<Rightarrow> nat" where
  "job_call r = 2 * r + 1"

abbreviation goto_conn :: "nat \<Rightarrow> conn \<Rightarrow> 'ip server \<Rightarrow> 'ip server" where
  "goto_conn k c s \<equiv> s\<lparr>s_conns := (s_conns s)(k := c)\<rparr>"

abbreviation respond :: "nat \<Rightarrow> response \<Rightarrow> 'ip server \<Rightarrow> 'ip server" where
  "respond k resp s \<equiv> goto_conn k (C_Done resp) s"

subsection \<open>The error responses, the audit modes and the reasons\<close>

definition exec_mode :: string where "exec_mode = ''exec''"
definition session_mode :: string where "session_mode = ''session''"
definition operator_reason :: string where "operator_reason = ''operator''"
definition kill_reason :: string where "kill_reason = ''kill_switch''"

definition rate_limited :: response where
  "rate_limited = write_error 429 ''rate_limited'' ''request rate limit exceeded'' True No_Details"

definition auth_failed :: "int \<Rightarrow> int \<Rightarrow> response" where
  "auth_failed limit count = write_error 401 ''auth_failed'' ''invalid or missing bearer token'' False
     (Attempts_Left (max 0 (limit - count)))"

definition killswitch_response :: response where
  "killswitch_response = write_error 423 ''killswitch_active''
     ''execution is disabled; disarm requires local administrator intervention'' False No_Details"

definition exec_timed_out :: "exec_result \<Rightarrow> response" where
  "exec_timed_out result = write_error 504 ''command_timeout''
     ''command timed out; target state is unknown and must be verified'' False (With_Execution result)"

definition shell_failure :: "run_error \<Rightarrow> response" where
  "shell_failure e = write_error 500 ''shell_failure'' (error_text e) True No_Details"

definition invalid_timeout :: "int \<Rightarrow> response" where
  "invalid_timeout limit = write_error 400 ''invalid_timeout''
     (''timeout_sec must be between 1 and '' @ json_int limit) False No_Details"

definition job_limit :: "int \<Rightarrow> response" where
  "job_limit n = write_error 409 ''job_limit'' ''maximum number of asynchronous jobs reached'' True
     (Limit_Value ''max_async_jobs'' n)"

definition job_start_failed :: response where
  "job_start_failed = write_error 500 ''job_start_failed'' ''random source'' True No_Details"

definition job_not_found :: response where
  "job_not_found = write_error 404 ''job_not_found''
     ''job does not exist or its retained result expired'' False No_Details"

definition job_status_failed :: response where
  "job_status_failed = write_error 500 ''job_status_failed'' [] True No_Details"

definition job_not_running :: "snapshot \<Rightarrow> response" where
  "job_not_running sn = write_error 409 ''job_not_running''
     ''job has already reached a terminal state'' False (With_Job (job_response sn))"

definition job_cancel_failed :: response where
  "job_cancel_failed = write_error 500 ''job_cancel_failed'' [] True No_Details"

definition session_not_found :: response where
  "session_not_found = write_error 404 ''session_not_found''
     ''session does not exist or was reaped'' False No_Details"

definition session_limit :: "int \<Rightarrow> response" where
  "session_limit n = write_error 409 ''session_limit'' ''maximum number of sessions reached'' False
     (Limit_Value ''max_sessions'' n)"

definition session_start_failed :: "run_error \<Rightarrow> response" where
  "session_start_failed e = write_error 500 ''session_start_failed'' (error_text e) True No_Details"

definition session_timed_out :: "exec_result \<Rightarrow> response" where
  "session_timed_out result = write_error 504 ''command_timeout''
     ''command timed out; session was restarted and target state is unknown'' False
     (With_Execution result)"

definition session_process_exited :: "exec_result \<Rightarrow> response" where
  "session_process_exited result = write_error 409 ''session_process_exited''
     ''command terminated the PowerShell process; session was restarted if possible and its state was lost''
     False (With_Execution result)"

definition session_exec_failed :: "run_error \<Rightarrow> response" where
  "session_exec_failed e = write_error 500 ''session_exec_failed'' (error_text e) True No_Details"

definition session_restart_failed :: response where
  "session_restart_failed = write_error 500 ''session_restart_failed''
     ''failed to restart PowerShell session'' True No_Details"

definition invalid_ip :: response where
  "invalid_ip = write_error 400 ''invalid_ip'' ''path value is not an IP address'' False No_Details"

definition ip_not_blocked :: response where
  "ip_not_blocked = write_error 404 ''ip_not_blocked'' ''IP address is not blocklisted'' False No_Details"

definition killswitch_write_failed :: response where
  "killswitch_write_failed = write_error 500 ''killswitch_write_failed'' [] False No_Details"

subsection \<open>Construction\<close>

datatype server_error = Server_Token token_error | Server_Audit audit_error

text \<open>\<open>isKilled\<close>: any answer of \<open>os.Stat\<close> but "does not exist" counts as armed.\<close>

definition kill_file_armed :: "stat_answer \<Rightarrow> bool" where
  "kill_file_armed a \<longleftrightarrow> a = Stat_Exists \<or> a \<noteq> Stat_Missing"

definition block_runner :: "runner \<Rightarrow> runner" where
  "block_runner rn = rn\<lparr>run_blocked := True, to_kill := to_kill rn \<union> active rn\<rparr>"

definition new_server ::
  "'ip server_env \<Rightarrow> config \<Rightarrow> string \<Rightarrow> timestamp \<Rightarrow> string + string \<Rightarrow> bool \<Rightarrow> files \<Rightarrow> stat_answer \<Rightarrow>
   server_error + 'ip server" where
  "new_server env cfg version now token_file mkdir_ok fs kill =
     (case load_token (e_sha256 env) token_file of
        Inl e \<Rightarrow> Inl (Server_Token e)
      | Inr auth \<Rightarrow>
          (case new_audit mkdir_ok (audit_log_path cfg) (audit_max_bytes cfg) of
             Inl e \<Rightarrow> Inl (Server_Audit e)
           | Inr logger \<Rightarrow>
               let jobs = new_manager (max_async_jobs cfg) (max_job_results cfg) (job_retention cfg);
                   s = \<lparr>s_cfg = cfg, s_version = version, s_started = now, s_auth = auth,
                        s_resolver = new_resolver (e_net env) (trusted_proxy_ip cfg),
                        s_blocklist = new_blocklist (auth_failures_before_block cfg),
                        s_limiter = new_rate_limiter (e_float env) (rate_limit_per_sec cfg)
                                      (rate_limit_burst cfg),
                        s_audit = logger, s_disk = fs, s_events = [], s_runner = new_runner,
                        s_jobs = jobs, s_job_conn = (\<lambda>_. 0),
                        s_sessions = new_session_manager (max_sessions cfg) (idle_timeout cfg),
                        s_reaper_stopped = False, s_kill = kill, s_conns = (\<lambda>_. C_Idle),
                        s_shutdown = Sd_Off\<rparr>
               in Inr (if kill_file_armed kill
                       then s\<lparr>s_jobs := fst (block_and_cancel_all kill_reason jobs),
                              s_runner := block_runner new_runner\<rparr>
                       else s)))"

subsection \<open>Audit events\<close>

text \<open>\<open>writeAudit\<close>: a failed write is only logged, so the caller never sees it.\<close>

definition put_audit :: "'ip server_env \<Rightarrow> audit_event \<Rightarrow> 'ip server \<Rightarrow> 'ip server" where
  "put_audit env e s =
     (let au = e_audit env (length (s_events s));
          (fs, err) = audit_write (e_archives env) au (s_audit s) e (s_disk s)
      in s\<lparr>s_disk := fs, s_events := s_events s @ [(e, au_now au, err)]\<rparr>)"

definition request_event :: "string \<Rightarrow> request_ctx \<Rightarrow> audit_event" where
  "request_event ty cx = empty_event\<lparr>ev_type := ty, ev_request_id := request_id cx, ev_source_ip := client_ip cx\<rparr>"

definition operator_event :: "string \<Rightarrow> request_ctx \<Rightarrow> string \<Rightarrow> audit_event" where
  "operator_event ty cx token = (request_event ty cx)\<lparr>ev_fingerprint := token\<rparr>"

definition dropped_event :: "request_ctx \<Rightarrow> audit_event" where
  "dropped_event cx = request_event ''blocked_request_dropped'' cx"

definition auth_failed_event :: "request_ctx \<Rightarrow> int \<Rightarrow> bool \<Rightarrow> audit_event" where
  "auth_failed_event cx count now_blocked = (request_event ''auth_failed'' cx)
     \<lparr>ev_details := [(''failed_attempts'', Int_Detail count), (''blocked'', Bool_Detail now_blocked)]\<rparr>"

definition auto_blocked_event :: "request_ctx \<Rightarrow> int \<Rightarrow> audit_event" where
  "auto_blocked_event cx count = (request_event ''ip_auto_blocked'' cx)
     \<lparr>ev_details := [(''failed_attempts'', Int_Detail count)]\<rparr>"

definition command_event ::
  "request_ctx \<Rightarrow> string \<Rightarrow> string \<Rightarrow> string \<Rightarrow> string \<Rightarrow> exec_result \<Rightarrow> audit_event" where
  "command_event cx token mode sid command result = (operator_event ''command_executed'' cx token)
     \<lparr>ev_mode := mode, ev_session_id := sid, ev_command := command,
      ev_success := Some (success result), ev_exit_code := Some (exit_code result),
      ev_details := [(''timed_out'', Bool_Detail (timed_out result)),
                     (''truncated'', Bool_Detail (truncated result)),
                     (''duration_ms'', Int_Detail (duration_ms result)),
                     (''session_restarted'', Bool_Detail (session_restarted result))]\<rparr>"

definition job_submitted_event :: "request_ctx \<Rightarrow> string \<Rightarrow> string \<Rightarrow> string \<Rightarrow> int \<Rightarrow> audit_event" where
  "job_submitted_event cx token command jid timeout_sec = (operator_event ''job_submitted'' cx token)
     \<lparr>ev_mode := ''job'', ev_command := command,
      ev_details := [(''job_id'', Text_Detail jid), (''timeout_sec'', Int_Detail timeout_sec)]\<rparr>"

definition job_cancel_event :: "request_ctx \<Rightarrow> string \<Rightarrow> string \<Rightarrow> audit_event" where
  "job_cancel_event cx token jid = (operator_event ''job_cancel_requested'' cx token)
     \<lparr>ev_mode := ''job'', ev_details := [(''job_id'', Text_Detail jid)]\<rparr>"

definition armed_event :: "request_ctx \<Rightarrow> string \<Rightarrow> audit_event" where
  "armed_event cx token = operator_event ''killswitch_armed'' cx token"

definition audit_command ::
  "'ip server_env \<Rightarrow> request_ctx \<Rightarrow> string \<Rightarrow> string \<Rightarrow> string \<Rightarrow> exec_result \<Rightarrow> 'ip server \<Rightarrow> 'ip server" where
  "audit_command env cx mode sid command result s =
     put_audit env (command_event cx (fingerprint (s_auth s)) mode sid command result) s"

subsection \<open>The middleware\<close>

definition arrive :: "'ip server_env \<Rightarrow> string option \<Rightarrow> timestamp \<Rightarrow> nat \<Rightarrow> 'ip server \<Rightarrow> 'ip server" where
  "arrive env random now k s =
     (let rq = e_request env k;
          ip = resolve_ip (e_net env) (s_resolver s) (rq_remote rq) (rq_forwarded rq)
      in goto_conn k (C_Blocklist \<lparr>client_ip = ip, request_id = new_request_id random now\<rparr>) s)"

definition check_blocklist :: "'ip server_env \<Rightarrow> nat \<Rightarrow> request_ctx \<Rightarrow> 'ip server \<Rightarrow> 'ip server" where
  "check_blocklist env k cx s =
     (if is_blocked (s_blocklist s) (client_ip cx)
      then goto_conn k C_Dropped (put_audit env (dropped_event cx) s)
      else goto_conn k (C_Limit cx) s)"

definition check_rate :: "'ip server_env \<Rightarrow> timestamp \<Rightarrow> nat \<Rightarrow> request_ctx \<Rightarrow> 'ip server \<Rightarrow> 'ip server" where
  "check_rate env now k cx s =
     (let (lim, ok) = allow (e_float env) (s_limiter s) (client_ip cx) now;
          s = s\<lparr>s_limiter := lim\<rparr>
      in if ok then goto_conn k (C_Auth cx) s
         else respond k rate_limited s)"

definition check_token :: "'ip server_env \<Rightarrow> timestamp \<Rightarrow> nat \<Rightarrow> request_ctx \<Rightarrow> 'ip server \<Rightarrow> 'ip server" where
  "check_token env now k cx s =
     (if \<not> authenticate (e_sha256 env) (s_auth s) (rq_authorization (e_request env k))
      then
        let (bl, count, now_blocked) = record_failure (s_blocklist s) (client_ip cx) now;
            s = s\<lparr>s_blocklist := bl\<rparr>;
            s = put_audit env (auth_failed_event cx count now_blocked) s;
            s = (if now_blocked
                 then put_audit env (auto_blocked_event cx count) s
                 else s)
        in respond k (auth_failed (auth_failures_before_block (s_cfg s)) count) s
      else goto_conn k (C_Guard cx) (s\<lparr>s_blocklist := record_success (s_blocklist s) (client_ip cx)\<rparr>))"

text \<open>\<open>rejectIfKilled\<close> at the start of the handlers that execute something.\<close>

definition check_killed :: "'ip server_env \<Rightarrow> nat \<Rightarrow> request_ctx \<Rightarrow> 'ip server \<Rightarrow> 'ip server" where
  "check_killed env k cx s =
     (if guarded_route (route_of (e_request env k)) \<and> kill_file_armed (s_kill s)
      then respond k killswitch_response s
      else goto_conn k (C_Body cx) s)"

subsection \<open>Execution in a fresh process\<close>

definition handle_exec :: "'ip server_env \<Rightarrow> nat \<Rightarrow> request_ctx \<Rightarrow> 'ip server \<Rightarrow> 'ip server" where
  "handle_exec env k cx s =
     (case decode_exec_request (e_exec_json env) (s_cfg s) (rq_body (e_request env k)) of
        Inl resp \<Rightarrow> respond k resp s
      | Inr q \<Rightarrow> goto_conn k (C_Running cx (req_command q) (req_format q)) s)"

text \<open>The rest of \<open>handleExec\<close>, after \<open>runner.Run\<close> returned.\<close>

definition handle_exec_end ::
  "'ip server_env \<Rightarrow> nat \<Rightarrow> request_ctx \<Rightarrow> string \<Rightarrow> outcome \<Rightarrow> 'ip server \<Rightarrow> 'ip server" where
  "handle_exec_end env k cx command out s =
     (let (result, err) = out;
          s = audit_command env cx exec_mode [] command result s
      in respond k
           (if err = Some Run_Blocked then killswitch_response
            else if err = Some Timed_Out then
              exec_timed_out result
            else case err of
                   Some e \<Rightarrow> shell_failure e
                 | None \<Rightarrow> write_json 200 (Exec_Response (request_id cx) result)) s)"

subsection \<open>Jobs\<close>

definition handle_job_create ::
  "'ip server_env \<Rightarrow> timestamp \<Rightarrow> nat \<Rightarrow> request_ctx \<Rightarrow> 'ip server \<Rightarrow> 'ip server" where
  "handle_job_create env now k cx s =
     (case decode_job_request (e_job_json env) (s_cfg s) (rq_body (e_request env k)) of
        Inl resp \<Rightarrow> respond k resp s
      | Inr q \<Rightarrow>
          let limit = long_command_timeout_sec (s_cfg s);
              timeout_sec = (if req_timeout_sec q = 0 then limit else req_timeout_sec q)
          in if timeout_sec < 1 \<or> limit < timeout_sec then
               respond k (invalid_timeout limit) s
             else
               case submit (e_job_ids env) (req_command q) (req_format q) (seconds timeout_sec) True now
                      (s_jobs s) of
                 (m, sn, err) \<Rightarrow>
                   (let s1 = s\<lparr>s_jobs := m\<rparr> in
                    if err = Some Job_Limit then
                      respond k (job_limit (max_async_jobs (s_cfg s))) s1
                    else if err = Some Job_Blocked then respond k killswitch_response s1
                    else if err \<noteq> None then
                      respond k job_start_failed s1
                    else
                      let s1 = s1\<lparr>s_job_conn := (s_job_conn s)(next_job (s_jobs s) := k)\<rparr>;
                          s1 = put_audit env (job_submitted_event cx (fingerprint (s_auth s)) (req_command q)
                                            (sn_job_id sn) timeout_sec) s1
                      in respond k (write_json 202 (Job_Response (job_response sn))) s1))"

text \<open>The callback of a job, which knows the address of the connection that submitted it.\<close>

definition job_done_event :: "'ip server_env \<Rightarrow> nat \<Rightarrow> snapshot \<Rightarrow> 'ip server \<Rightarrow> audit_event" where
  "job_done_event env k sn s = empty_event
     \<lparr>ev_type := ''job_finished'',
      ev_source_ip := resolve_ip (e_net env) (s_resolver s) (rq_remote (e_request env k))
                        (rq_forwarded (e_request env k)),
      ev_fingerprint := fingerprint (s_auth s), ev_mode := ''job'',
      ev_success := map_option success (execution sn), ev_exit_code := map_option exit_code (execution sn),
      ev_details := [(''job_id'', Text_Detail (sn_job_id sn)), (''status'', Text_Detail (status_text (status sn)))]\<rparr>"

definition handle_job_get :: "timestamp \<Rightarrow> nat \<Rightarrow> string \<Rightarrow> 'ip server \<Rightarrow> 'ip server" where
  "handle_job_get now k jid s =
     (case get_job jid now (s_jobs s) of
        (m, sn, err) \<Rightarrow>
          respond k
            (if err = Some Job_Not_Found then job_not_found
             else if err \<noteq> None then job_status_failed
             else write_json 200 (Job_Response (job_response sn))) (s\<lparr>s_jobs := m\<rparr>))"

definition handle_job_cancel ::
  "'ip server_env \<Rightarrow> nat \<Rightarrow> request_ctx \<Rightarrow> string \<Rightarrow> 'ip server \<Rightarrow> 'ip server" where
  "handle_job_cancel env k cx jid s =
     (case cancel_job jid operator_reason (s_jobs s) of
        (m, sn, err) \<Rightarrow>
          (let s1 = s\<lparr>s_jobs := m\<rparr> in
           if err = Some Job_Not_Found then respond k job_not_found s1
           else if err = Some Job_Not_Running then
             respond k (job_not_running sn) s1
           else if err \<noteq> None then respond k job_cancel_failed s1
           else
             let s1 = put_audit env (job_cancel_event cx (fingerprint (s_auth s)) (sn_job_id sn)) s1
             in respond k (write_json 202 (Job_Response (job_response sn))) s1))"

subsection \<open>Sessions\<close>

definition handle_session_create ::
  "'ip server_env \<Rightarrow> bool \<Rightarrow> timestamp \<Rightarrow> nat \<Rightarrow> 'ip server \<Rightarrow> 'ip server" where
  "handle_session_create env started now k s =
     (case create_session (e_session_ids env) started now (s_sessions s) of
        (pl, res) \<Rightarrow>
          respond k
            (case res of
               Inl Session_Limit \<Rightarrow>
                 session_limit (max_sessions (s_cfg s))
             | Inl e \<Rightarrow> session_start_failed e
             | Inr r \<Rightarrow>
                 let info = session_info (e_float env) now (sess_heap pl r)
                 in write_json 201 (Session_Response (si_session_id info) (si_created_at info)))
            (s\<lparr>s_sessions := pl\<rparr>))"

definition handle_session_exec ::
  "'ip server_env \<Rightarrow> nat \<Rightarrow> request_ctx \<Rightarrow> string \<Rightarrow> 'ip server \<Rightarrow> 'ip server" where
  "handle_session_exec env k cx sid s =
     (case get_session sid (s_sessions s) of
        Inl e \<Rightarrow> respond k session_not_found s
      | Inr r \<Rightarrow>
          (case decode_exec_request (e_exec_json env) (s_cfg s) (rq_body (e_request env k)) of
             Inl resp \<Rightarrow> respond k resp s
           | Inr q \<Rightarrow> goto_conn k (C_Exec cx sid r (req_command q) (req_format q)) s))"

definition handle_session_exec_end ::
  "'ip server_env \<Rightarrow> nat \<Rightarrow> request_ctx \<Rightarrow> string \<Rightarrow> string \<Rightarrow> outcome \<Rightarrow> 'ip server \<Rightarrow> 'ip server" where
  "handle_session_exec_end env k cx sid command out s =
     (let (result, err) = out;
          s = audit_command env cx session_mode sid command result s
      in respond k
           (case err of
              Some Timed_Out \<Rightarrow>
                session_timed_out result
            | Some (Shell_Exited _) \<Rightarrow> session_process_exited result
            | Some e \<Rightarrow> session_exec_failed e
            | None \<Rightarrow> write_json 200 (Exec_Response (request_id cx) result)) s)"

definition handle_session_restart :: "nat \<Rightarrow> string \<Rightarrow> 'ip server \<Rightarrow> 'ip server" where
  "handle_session_restart k sid s =
     (case get_session sid (s_sessions s) of
        Inl e \<Rightarrow> respond k session_not_found s
      | Inr r \<Rightarrow> goto_conn k (C_Restart r) s)"

definition handle_session_restart_end ::
  "'ip server_env \<Rightarrow> timestamp \<Rightarrow> nat \<Rightarrow> sess_ref \<Rightarrow> bool \<Rightarrow> 'ip server \<Rightarrow> 'ip server" where
  "handle_session_restart_end env now k r restarted s =
     respond k
       (if \<not> restarted
        then session_restart_failed
        else write_json 200 (Info_Response (session_info (e_float env) now (sess_heap (s_sessions s) r)))) s"

definition handle_session_info ::
  "'ip server_env \<Rightarrow> timestamp \<Rightarrow> nat \<Rightarrow> string \<Rightarrow> 'ip server \<Rightarrow> 'ip server" where
  "handle_session_info env now k sid s =
     respond k
       (case get_session sid (s_sessions s) of
          Inl e \<Rightarrow> session_not_found
        | Inr r \<Rightarrow>
            write_json 200 (Info_Response (session_info (e_float env) now (sess_heap (s_sessions s) r)))) s"

definition handle_session_delete :: "nat \<Rightarrow> string \<Rightarrow> 'ip server \<Rightarrow> 'ip server" where
  "handle_session_delete k sid s =
     (case delete_session sid (s_sessions s) of
        (pl, found) \<Rightarrow>
          respond k (if found then write_json 204 No_Payload else session_not_found)
            (s\<lparr>s_sessions := pl\<rparr>))"

subsection \<open>Health, blocklist, kill switch\<close>

definition health_report :: "'ip server_env \<Rightarrow> timestamp \<Rightarrow> 'ip server \<Rightarrow> health_response" where
  "health_report env now s =
     (let killed = kill_file_armed (s_kill s)
      in \<lparr>hr_status = (if killed then ''braked'' else ''ok''), hr_version = s_version s,
          hr_uptime_sec = uptime_seconds (e_float env) (time_sub now (s_started s)),
          hr_open_sessions = session_count (s_sessions s), hr_active_jobs = active_count (s_jobs s),
          hr_update_check_interval = update_check_interval_min (s_cfg s),
          hr_kill_switch_armed = killed\<rparr>)"

definition handle_health :: "'ip server_env \<Rightarrow> timestamp \<Rightarrow> nat \<Rightarrow> 'ip server \<Rightarrow> 'ip server" where
  "handle_health env now k s = respond k (write_json 200 (Health_Response (health_report env now s))) s"

definition blocked_view :: "block_entry \<Rightarrow> blocked_ip" where
  "blocked_view e =
     \<lparr>bi_ip = entry_ip e, bi_blocked_at = rfc3339_nano (blocked_at e),
      bi_failed_attempts = failed_attempts e\<rparr>"

definition handle_blocklist_get :: "nat \<Rightarrow> 'ip server \<Rightarrow> 'ip server" where
  "handle_blocklist_get k s =
     respond k (write_json 200 (Blocklist_Response (map blocked_view (list_blocked (s_blocklist s))))) s"

definition handle_blocklist_delete :: "'ip server_env \<Rightarrow> nat \<Rightarrow> string \<Rightarrow> 'ip server \<Rightarrow> 'ip server" where
  "handle_blocklist_delete env k x s =
     (case parse_ip (e_net env) x of
        None \<Rightarrow> respond k invalid_ip s
      | Some ip \<Rightarrow>
          (case remove_ip (s_blocklist s) (ip_string (e_net env) ip) of
             (bl, existed) \<Rightarrow>
               respond k
                 (if existed then write_json 204 No_Payload
                  else ip_not_blocked)
                 (s\<lparr>s_blocklist := bl\<rparr>)))"

text \<open>\<open>handleKillSwitch\<close>: the file first, then the managers one after the other.\<close>

definition handle_kill_switch :: "bool \<Rightarrow> nat \<Rightarrow> request_ctx \<Rightarrow> 'ip server \<Rightarrow> 'ip server" where
  "handle_kill_switch opened k cx s =
     (if \<not> opened then respond k killswitch_write_failed s
      else goto_conn k (C_Kill_Jobs cx) (s\<lparr>s_kill := Stat_Exists\<rparr>))"

definition kill_jobs :: "nat \<Rightarrow> request_ctx \<Rightarrow> 'ip server \<Rightarrow> 'ip server" where
  "kill_jobs k cx s =
     (case block_and_cancel_all kill_reason (s_jobs s) of
        (m, n) \<Rightarrow> goto_conn k (C_Kill_Runner cx n) (s\<lparr>s_jobs := m\<rparr>))"

definition kill_runner :: "nat \<Rightarrow> request_ctx \<Rightarrow> nat \<Rightarrow> 'ip server \<Rightarrow> 'ip server" where
  "kill_runner k cx n s =
     goto_conn k (C_Kill_Wait cx n (active (s_runner s))) (s\<lparr>s_runner := block_runner (s_runner s)\<rparr>)"

definition kill_sessions :: "nat \<Rightarrow> request_ctx \<Rightarrow> nat \<Rightarrow> 'ip server \<Rightarrow> 'ip server" where
  "kill_sessions k cx n s =
     goto_conn k (C_Kill_End cx n (snd ` set (sess_map (s_sessions s))))
       (s\<lparr>s_sessions := kill_all_sessions (s_sessions s)\<rparr>)"

definition kill_finish :: "'ip server_env \<Rightarrow> nat \<Rightarrow> request_ctx \<Rightarrow> nat \<Rightarrow> 'ip server \<Rightarrow> 'ip server" where
  "kill_finish env k cx n s =
     respond k (write_json 200 (Armed_Response n)) (put_audit env (armed_event cx (fingerprint (s_auth s))) s)"

subsection \<open>Dispatch\<close>

definition handle_body ::
  "'ip server_env \<Rightarrow> bool \<Rightarrow> timestamp \<Rightarrow> nat \<Rightarrow> request_ctx \<Rightarrow> 'ip server \<Rightarrow> 'ip server" where
  "handle_body env ok now k cx s =
     (case route_of (e_request env k) of
        To_Exec \<Rightarrow> handle_exec env k cx s
      | To_Job_Create \<Rightarrow> handle_job_create env now k cx s
      | To_Job_Get jid \<Rightarrow> handle_job_get now k jid s
      | To_Job_Cancel jid \<Rightarrow> handle_job_cancel env k cx jid s
      | To_Session_Create \<Rightarrow> handle_session_create env ok now k s
      | To_Session_Exec sid \<Rightarrow> handle_session_exec env k cx sid s
      | To_Session_Restart sid \<Rightarrow> handle_session_restart k sid s
      | To_Session_Info sid \<Rightarrow> handle_session_info env now k sid s
      | To_Session_Delete sid \<Rightarrow> handle_session_delete k sid s
      | To_Health \<Rightarrow> handle_health env now k s
      | To_Blocklist_Get \<Rightarrow> handle_blocklist_get k s
      | To_Blocklist_Delete x \<Rightarrow> handle_blocklist_delete env k x s
      | To_Kill_Switch \<Rightarrow> handle_kill_switch ok k cx s
      | To_No_Method \<Rightarrow> respond k \<lparr>rs_status = 405, rs_payload = Mux_Text\<rparr> s
      | To_Nothing \<Rightarrow> respond k \<lparr>rs_status = 404, rs_payload = Mux_Text\<rparr> s)"

text \<open>The parts of \<open>Shutdown\<close> before it waits for the HTTP server.\<close>

definition close_sessions :: "'ip server \<Rightarrow> 'ip server" where
  "close_sessions s = s\<lparr>s_reaper_stopped := True, s_sessions := kill_all_sessions (s_sessions s)\<rparr>"

subsection \<open>Steps\<close>

text \<open>The calls of the runner and of the sessions that may begin now.\<close>

definition may_run :: "'ip server_env \<Rightarrow> 'ip server \<Rightarrow> nat \<Rightarrow> bool" where
  "may_run env s c \<longleftrightarrow>
     (\<exists>k cx command. c = exec_call k \<and> s_conns s k = C_Running cx command (e_run_format env c)) \<or>
     (\<exists>r command. c = job_call r \<and> (r, command, e_run_format env c) \<in> set (goroutines (s_jobs s)))"

definition may_use :: "'ip server_env \<Rightarrow> 'ip server \<Rightarrow> nat \<Rightarrow> call_pc \<Rightarrow> bool" where
  "may_use env s c pc \<longleftrightarrow>
     (\<exists>cx sid r command. s_conns s c = C_Exec cx sid r command (e_session_format env c) \<and> pc = X_Lock r) \<or>
     (\<exists>r. s_conns s c = C_Restart r \<and> pc = R_Lock r)"

text \<open>
  A step of the runner that some call makes: it neither blocks the runner nor collects
  processes to kill, and begins a call only for a connection or a job.
\<close>

definition runner_moves :: "'ip server_env \<Rightarrow> 'ip server \<Rightarrow> runner \<Rightarrow> bool" where
  "runner_moves env s rn \<longleftrightarrow>
     run_step (e_json env) (e_run_format env) (s_runner s) rn \<and>
     run_blocked rn = run_blocked (s_runner s) \<and> to_kill rn \<subseteq> to_kill (s_runner s) \<and>
     (\<forall>c. runs (s_runner s) c = Not_Called \<longrightarrow> runs rn c \<noteq> Not_Called \<longrightarrow> may_run env s c)"

text \<open>
  A step of the sessions that a call, the reaper or a pending abort makes: it creates no
  session, removes one only for the reaper, and begins a call only for a connection.
\<close>

definition pool_moves :: "'ip server_env \<Rightarrow> 'ip server \<Rightarrow> pool \<Rightarrow> bool" where
  "pool_moves env s pl \<longleftrightarrow>
     pool_step (e_session_ids env) (e_json env) (e_session_format env) (s_sessions s) pl \<and>
     next_sess pl = next_sess (s_sessions s) \<and> pdraws pl = pdraws (s_sessions s) \<and>
     (sess_map pl = sess_map (s_sessions s) \<or>
      (\<exists>sid \<in> reaping (s_sessions s). sess_map pl = mdel sid (sess_map (s_sessions s)) \<and>
         reaping pl = reaping (s_sessions s) - {sid})) \<and>
     (s_reaper_stopped s \<longrightarrow> reaping pl \<subseteq> reaping (s_sessions s)) \<and>
     (\<forall>c. calls (s_sessions s) c = No_Call \<longrightarrow> calls pl c \<noteq> No_Call \<longrightarrow> may_use env s c (calls pl c))"

inductive server_step :: "'ip server_env \<Rightarrow> 'ip server \<Rightarrow> 'ip server \<Rightarrow> bool" for env where
  v_arrive: "s_conns s k = C_Idle \<Longrightarrow> server_step env s (arrive env random now k s)"
| v_blocklist: "s_conns s k = C_Blocklist cx \<Longrightarrow> server_step env s (check_blocklist env k cx s)"
| v_rate: "s_conns s k = C_Limit cx \<Longrightarrow> server_step env s (check_rate env now k cx s)"
| v_token: "s_conns s k = C_Auth cx \<Longrightarrow> server_step env s (check_token env now k cx s)"
| v_guard: "s_conns s k = C_Guard cx \<Longrightarrow> server_step env s (check_killed env k cx s)"
| v_body: "s_conns s k = C_Body cx \<Longrightarrow> server_step env s (handle_body env ok now k cx s)"
| v_run_end: "s_conns s k = C_Running cx command fmt \<Longrightarrow>
    runs (s_runner s) (exec_call k) = Returned out \<Longrightarrow>
    server_step env s (handle_exec_end env k cx command out s)"
| v_exec_end: "s_conns s k = C_Exec cx sid r command fmt \<Longrightarrow>
    calls (s_sessions s) k = X_Returned out \<Longrightarrow>
    server_step env s (handle_session_exec_end env k cx sid command out s)"
| v_restart_end: "s_conns s k = C_Restart r \<Longrightarrow> calls (s_sessions s) k = R_Returned restarted \<Longrightarrow>
    server_step env s (handle_session_restart_end env now k r restarted s)"
| v_kill_jobs: "s_conns s k = C_Kill_Jobs cx \<Longrightarrow> server_step env s (kill_jobs k cx s)"
| v_kill_runner: "s_conns s k = C_Kill_Runner cx n \<Longrightarrow> server_step env s (kill_runner k cx n s)"
| v_kill_wait: "s_conns s k = C_Kill_Wait cx n P \<Longrightarrow> \<forall>p \<in> P. procs (s_runner s) p \<noteq> Alive \<Longrightarrow>
    server_step env s (goto_conn k (C_Kill_Sessions cx n) s)"
| v_kill_sessions: "s_conns s k = C_Kill_Sessions cx n \<Longrightarrow> server_step env s (kill_sessions k cx n s)"
| v_kill_end: "s_conns s k = C_Kill_End cx n R \<Longrightarrow> R \<inter> aborting (s_sessions s) = {} \<Longrightarrow>
    server_step env s (kill_finish env k cx n s)"
| v_runner: "runner_moves env s rn \<Longrightarrow> server_step env s (s\<lparr>s_runner := rn\<rparr>)"
| v_pool: "pool_moves env s pl \<Longrightarrow> server_step env s (s\<lparr>s_sessions := pl\<rparr>)"
| v_job_end: "(r, command, fmt) \<in> set (goroutines (s_jobs s)) \<Longrightarrow>
    runs (s_runner s) (job_call r) = Returned out \<Longrightarrow> now \<noteq> 0 \<Longrightarrow>
    server_step env s (s\<lparr>s_jobs := finish_run r out now (s_jobs s)\<rparr>)"
| v_job_done: "mget (unreported (s_jobs s)) r = Some sn \<Longrightarrow>
    server_step env s (put_audit env (job_done_event env (s_job_conn s r) sn s)
      (s\<lparr>s_jobs := call_done r (s_jobs s)\<rparr>))"
| v_operator: "server_step env s (s\<lparr>s_kill := a\<rparr>)"
| v_shutdown_jobs: "s_shutdown s = Sd_Off \<Longrightarrow>
    server_step env s (s\<lparr>s_jobs := close_manager (s_jobs s), s_shutdown := Sd_Sessions\<rparr>)"
| v_shutdown_sessions: "s_shutdown s = Sd_Sessions \<Longrightarrow>
    server_step env s ((close_sessions s)\<lparr>s_shutdown := Sd_Runner\<rparr>)"
| v_shutdown_runner: "s_shutdown s = Sd_Runner \<Longrightarrow>
    server_step env s (s\<lparr>s_runner := (s_runner s)
        \<lparr>to_kill := to_kill (s_runner s) \<union> active (s_runner s)\<rparr>, s_shutdown := Sd_Http\<rparr>)"

inductive_cases server_stepE: "server_step env s t"

subsection \<open>What each stage leaves alone\<close>

text \<open>The parts of the state that nothing ever changes.\<close>

definition fixed_parts :: "'ip server \<Rightarrow> config \<times> string \<times> timestamp \<times> token_auth \<times> 'ip resolver \<times> audit_logger" where
  "fixed_parts s = (s_cfg s, s_version s, s_started s, s_auth s, s_resolver s, s_audit s)"

text \<open>
  A stage of connection \<open>k\<close>: it moves no other connection and does not touch the runner or the
  shutdown; the jobs and the sessions only where the two flags allow it.
\<close>

definition stage :: "nat \<Rightarrow> bool \<Rightarrow> bool \<Rightarrow> 'ip server \<Rightarrow> 'ip server \<Rightarrow> bool" where
  "stage k jm pm s t \<longleftrightarrow>
     fixed_parts t = fixed_parts s \<and> s_runner t = s_runner s \<and>
     s_shutdown t = s_shutdown s \<and> s_reaper_stopped t = s_reaper_stopped s \<and>
     (\<forall>j. j \<noteq> k \<longrightarrow> s_conns t j = s_conns s j) \<and>
     (jm \<or> s_jobs t = s_jobs s \<and> s_job_conn t = s_job_conn s) \<and>
     (pm \<or> s_sessions t = s_sessions s)"

named_theorems stage_rules \<open>how a stage is built up\<close>

lemma stage_refl [stage_rules]: "stage k jm pm s s"
  by (simp add: stage_def)

lemma stage_conns [stage_rules]:
  "stage k jm pm s t \<Longrightarrow> \<forall>j. j \<noteq> k \<longrightarrow> f j = s_conns s j \<Longrightarrow> stage k jm pm s (t\<lparr>s_conns := f\<rparr>)"
  by (simp add: stage_def fixed_parts_def)

lemma stage_jobs [stage_rules]: "stage k True pm s t \<Longrightarrow> stage k True pm s (t\<lparr>s_jobs := m\<rparr>)"
  by (simp add: stage_def fixed_parts_def)

lemma stage_job_conn [stage_rules]: "stage k True pm s t \<Longrightarrow> stage k True pm s (t\<lparr>s_job_conn := f\<rparr>)"
  by (simp add: stage_def fixed_parts_def)

lemma stage_sessions [stage_rules]: "stage k jm True s t \<Longrightarrow> stage k jm True s (t\<lparr>s_sessions := m\<rparr>)"
  by (simp add: stage_def fixed_parts_def)

lemma stage_blocklist [stage_rules]: "stage k jm pm s t \<Longrightarrow> stage k jm pm s (t\<lparr>s_blocklist := b\<rparr>)"
  by (simp add: stage_def fixed_parts_def)

lemma stage_limiter [stage_rules]: "stage k jm pm s t \<Longrightarrow> stage k jm pm s (t\<lparr>s_limiter := l\<rparr>)"
  by (simp add: stage_def fixed_parts_def)

lemma stage_kill [stage_rules]: "stage k jm pm s t \<Longrightarrow> stage k jm pm s (t\<lparr>s_kill := a\<rparr>)"
  by (simp add: stage_def fixed_parts_def)

lemma put_audit_frame [simp]:
  "s_cfg (put_audit env e s) = s_cfg s" "s_version (put_audit env e s) = s_version s"
  "s_started (put_audit env e s) = s_started s" "s_auth (put_audit env e s) = s_auth s"
  "s_resolver (put_audit env e s) = s_resolver s" "s_blocklist (put_audit env e s) = s_blocklist s"
  "s_limiter (put_audit env e s) = s_limiter s" "s_audit (put_audit env e s) = s_audit s"
  "s_runner (put_audit env e s) = s_runner s" "s_jobs (put_audit env e s) = s_jobs s"
  "s_job_conn (put_audit env e s) = s_job_conn s" "s_sessions (put_audit env e s) = s_sessions s"
  "s_reaper_stopped (put_audit env e s) = s_reaper_stopped s" "s_kill (put_audit env e s) = s_kill s"
  "s_conns (put_audit env e s) = s_conns s" "s_shutdown (put_audit env e s) = s_shutdown s"
  by (simp_all add: put_audit_def Let_def case_prod_beta)

lemma put_audit_events: "\<exists>now err. s_events (put_audit env e s) = s_events s @ [(e, now, err)]"
  by (simp add: put_audit_def Let_def case_prod_beta)

lemma stage_audit [stage_rules]: "stage k jm pm s t \<Longrightarrow> stage k jm pm s (put_audit env e t)"
  by (simp add: stage_def fixed_parts_def)

lemma stage_weaken: "stage k jm pm s t \<Longrightarrow> (jm \<longrightarrow> jm') \<Longrightarrow> (pm \<longrightarrow> pm') \<Longrightarrow> stage k jm' pm' s t"
  by (auto simp: stage_def)

text \<open>The stages of the middleware.\<close>

lemma arrive_stage: "stage k jm pm s (arrive env random now k s)"
  by (simp add: arrive_def stage_rules Let_def)

lemma check_blocklist_stage: "stage k jm pm s (check_blocklist env k cx s)"
  by (simp add: check_blocklist_def stage_rules)

lemma check_rate_stage: "stage k jm pm s (check_rate env now k cx s)"
  by (simp add: check_rate_def stage_rules Let_def split: prod.split)

lemma check_token_stage: "stage k jm pm s (check_token env now k cx s)"
  by (simp add: check_token_def stage_rules Let_def split: prod.split)

lemma check_killed_stage: "stage k jm pm s (check_killed env k cx s)"
  by (simp add: check_killed_def stage_rules)

text \<open>The handlers, by what they may change.\<close>

lemma handle_exec_stage: "stage k jm pm s (handle_exec env k cx s)"
  by (simp add: handle_exec_def stage_rules split: sum.split)

lemma audit_command_stage [stage_rules]:
  "stage k jm pm s t \<Longrightarrow> stage k jm pm s (audit_command env cx mode sid command result t)"
  by (simp add: audit_command_def stage_rules)

lemma audit_command_frame [simp]: "s_conns (audit_command env cx mode sid command result s) = s_conns s"
  by (simp add: audit_command_def)

lemma handle_exec_end_stage: "stage k jm pm s (handle_exec_end env k cx command out s)"
  by (simp only: handle_exec_end_def Let_def split: prod.split) (simp add: stage_rules)

lemma handle_job_create_stage: "stage k True pm s (handle_job_create env now k cx s)"
  by (simp add: handle_job_create_def stage_rules Let_def split: sum.split prod.split)

lemma handle_job_get_stage: "stage k True pm s (handle_job_get now k jid s)"
  by (simp only: handle_job_get_def split: prod.split) (simp add: stage_rules)

lemma handle_job_cancel_stage: "stage k True pm s (handle_job_cancel env k cx jid s)"
  by (simp add: handle_job_cancel_def stage_rules Let_def split: prod.split)

lemma handle_session_create_stage: "stage k jm True s (handle_session_create env ok now k s)"
  by (simp only: handle_session_create_def split: prod.split) (simp add: stage_rules)

lemma handle_session_exec_stage: "stage k jm pm s (handle_session_exec env k cx sid s)"
  by (simp add: handle_session_exec_def stage_rules split: sum.split)

lemma handle_session_exec_end_stage: "stage k jm pm s (handle_session_exec_end env k cx sid command out s)"
  by (simp only: handle_session_exec_end_def Let_def split: prod.split) (simp add: stage_rules)

lemma handle_session_restart_stage: "stage k jm pm s (handle_session_restart k sid s)"
  by (simp add: handle_session_restart_def stage_rules split: sum.split)

lemma handle_session_restart_end_stage:
  "stage k jm pm s (handle_session_restart_end env now k r restarted s)"
  by (simp only: handle_session_restart_end_def) (simp add: stage_rules)

lemma handle_session_info_stage: "stage k jm pm s (handle_session_info env now k sid s)"
  by (simp only: handle_session_info_def) (simp add: stage_rules)

lemma handle_session_delete_stage: "stage k jm True s (handle_session_delete k sid s)"
  by (simp only: handle_session_delete_def split: prod.split) (simp add: stage_rules)

lemma handle_health_stage: "stage k jm pm s (handle_health env now k s)"
  by (simp add: handle_health_def stage_rules)

lemma handle_blocklist_get_stage: "stage k jm pm s (handle_blocklist_get k s)"
  by (simp add: handle_blocklist_get_def stage_rules)

lemma handle_blocklist_delete_stage: "stage k jm pm s (handle_blocklist_delete env k x s)"
  by (simp add: handle_blocklist_delete_def stage_rules split: option.split prod.split)

lemma handle_kill_switch_stage: "stage k jm pm s (handle_kill_switch opened k cx s)"
  by (simp add: handle_kill_switch_def stage_rules)

lemma kill_jobs_stage: "stage k True pm s (kill_jobs k cx s)"
  by (simp add: kill_jobs_def stage_rules split: prod.split)

lemma kill_sessions_stage: "stage k jm True s (kill_sessions k cx n s)"
  by (simp add: kill_sessions_def stage_rules)

lemma kill_finish_stage: "stage k jm pm s (kill_finish env k cx n s)"
  by (simp add: kill_finish_def stage_rules)

lemmas handler_stages = handle_exec_stage handle_job_create_stage handle_job_get_stage
  handle_job_cancel_stage handle_session_create_stage handle_session_exec_stage
  handle_session_restart_stage handle_session_info_stage handle_session_delete_stage
  handle_health_stage handle_blocklist_get_stage handle_blocklist_delete_stage
  handle_kill_switch_stage

definition job_route :: "route \<Rightarrow> bool" where
  "job_route rt \<longleftrightarrow> rt = To_Job_Create \<or> (\<exists>jid. rt = To_Job_Get jid \<or> rt = To_Job_Cancel jid)"

definition session_route :: "route \<Rightarrow> bool" where
  "session_route rt \<longleftrightarrow> rt = To_Session_Create \<or> (\<exists>sid. rt = To_Session_Delete sid)"

lemma handle_body_stage:
  "stage k (job_route (route_of (e_request env k))) (session_route (route_of (e_request env k))) s
     (handle_body env ok now k cx s)"
  unfolding handle_body_def
  by (cases "route_of (e_request env k)")
     (simp_all only: route.case job_route_def session_route_def,
      simp_all add: handler_stages stage_rules)

subsection \<open>Every step of the server is a step of each component, or leaves it alone\<close>

lemmas middleware_stages = arrive_stage check_blocklist_stage check_rate_stage check_token_stage
  check_killed_stage
lemmas end_stages = handle_exec_end_stage handle_session_exec_end_stage
  handle_session_restart_end_stage kill_finish_stage

lemma stage_fixed: "stage k jm pm s t \<Longrightarrow> fixed_parts t = fixed_parts s"
  and stage_runner: "stage k jm pm s t \<Longrightarrow> s_runner t = s_runner s"
  and stage_others: "stage k jm pm s t \<Longrightarrow> j \<noteq> k \<Longrightarrow> s_conns t j = s_conns s j"
  and stage_same_jobs: "stage k False pm s t \<Longrightarrow> s_jobs t = s_jobs s \<and> s_job_conn t = s_job_conn s"
  and stage_same_sessions: "stage k jm False s t \<Longrightarrow> s_sessions t = s_sessions s"
  and stage_shutdown: "stage k jm pm s t \<Longrightarrow>
    s_shutdown t = s_shutdown s \<and> s_reaper_stopped t = s_reaper_stopped s"
  by (auto simp: stage_def)

lemma block_runner_step: "run_step js fmt rn (block_runner rn)"
  unfolding block_runner_def by (rule block_and_kill_all)

text \<open>
  The steps sorted by what they are: a stage of one connection that leaves the components
  alone, the body of a handler, or one of the steps that act on a component.
\<close>

lemma server_step_cases [consumes 1, case_names Stage Body Kill_Jobs Kill_Runner Kill_Sessions
    Runner Pool Job_End Job_Done Operator Down_Jobs Down_Sessions Down_Runner]:
  assumes "server_step env s t"
  obtains (Stage) k where "stage k False False s t"
  | (Body) k cx ok now where "s_conns s k = C_Body cx" "t = handle_body env ok now k cx s"
  | (Kill_Jobs) k cx where "s_conns s k = C_Kill_Jobs cx" "t = kill_jobs k cx s"
  | (Kill_Runner) k cx n where "s_conns s k = C_Kill_Runner cx n" "t = kill_runner k cx n s"
  | (Kill_Sessions) k cx n where "s_conns s k = C_Kill_Sessions cx n" "t = kill_sessions k cx n s"
  | (Runner) rn where "runner_moves env s rn" "t = s\<lparr>s_runner := rn\<rparr>"
  | (Pool) pl where "pool_moves env s pl" "t = s\<lparr>s_sessions := pl\<rparr>"
  | (Job_End) r command fmt out now where "(r, command, fmt) \<in> set (goroutines (s_jobs s))"
      "runs (s_runner s) (job_call r) = Returned out" "now \<noteq> 0"
      "t = s\<lparr>s_jobs := finish_run r out now (s_jobs s)\<rparr>"
  | (Job_Done) r sn where "mget (unreported (s_jobs s)) r = Some sn"
      "t = put_audit env (job_done_event env (s_job_conn s r) sn s) (s\<lparr>s_jobs := call_done r (s_jobs s)\<rparr>)"
  | (Operator) a where "t = s\<lparr>s_kill := a\<rparr>"
  | (Down_Jobs) "s_shutdown s = Sd_Off"
      "t = s\<lparr>s_jobs := close_manager (s_jobs s), s_shutdown := Sd_Sessions\<rparr>"
  | (Down_Sessions) "s_shutdown s = Sd_Sessions" "t = (close_sessions s)\<lparr>s_shutdown := Sd_Runner\<rparr>"
  | (Down_Runner) "s_shutdown s = Sd_Runner"
      "t = s\<lparr>s_runner := (s_runner s)\<lparr>to_kill := to_kill (s_runner s) \<union> active (s_runner s)\<rparr>,
             s_shutdown := Sd_Http\<rparr>"
  using assms
proof cases
  case (v_kill_wait k cx n P)
  then show ?thesis
    by (intro Stage [of k]) (simp add: stage_rules)
qed (blast intro: that middleware_stages end_stages)+

lemmas body_frame = stage_fixed [OF handle_body_stage] stage_runner [OF handle_body_stage]
  stage_shutdown [OF handle_body_stage]
lemmas kill_frame = stage_fixed [OF kill_jobs_stage] stage_fixed [OF kill_sessions_stage]
  stage_runner [OF kill_jobs_stage] stage_runner [OF kill_sessions_stage]
  stage_shutdown [OF kill_jobs_stage] stage_shutdown [OF kill_sessions_stage]
  stage_same_sessions [OF kill_jobs_stage] stage_same_jobs [OF kill_sessions_stage]

lemma server_step_fixed: "server_step env s t \<Longrightarrow> fixed_parts t = fixed_parts s"
  by (induction rule: server_step_cases)
     (simp_all add: stage_fixed body_frame kill_frame,
      simp_all add: fixed_parts_def kill_runner_def close_sessions_def)

lemma server_step_runner:
  "server_step env s t \<Longrightarrow>
    s_runner t = s_runner s \<or> run_step (e_json env) (e_run_format env) (s_runner s) (s_runner t)"
  by (induction rule: server_step_cases)
     (simp_all add: stage_runner body_frame kill_frame runner_moves_def kill_runner_def
       block_runner_step kill_all close_sessions_def)

text \<open>The three ends of \<open>handleJobCreate\<close>.\<close>

definition job_timeout :: "config \<Rightarrow> job_request \<Rightarrow> int" where
  "job_timeout cfg q = (if req_timeout_sec q = 0 then long_command_timeout_sec cfg else req_timeout_sec q)"

definition submit_request ::
  "'ip server_env \<Rightarrow> timestamp \<Rightarrow> 'ip server \<Rightarrow> job_request \<Rightarrow> manager \<times> snapshot \<times> job_error option" where
  "submit_request env now s q =
     submit (e_job_ids env) (req_command q) (req_format q) (seconds (job_timeout (s_cfg s) q)) True now (s_jobs s)"

lemma handle_job_create_cases:
  obtains (Rejected) resp where "handle_job_create env now k cx s = respond k resp s"
  | (Refused) q m sn err resp where "submit_request env now s q = (m, sn, Some err)"
      "handle_job_create env now k cx s = respond k resp (s\<lparr>s_jobs := m\<rparr>)"
  | (Accepted) q m sn where
      "decode_job_request (e_job_json env) (s_cfg s) (rq_body (e_request env k)) = Inr q"
      "1 \<le> job_timeout (s_cfg s) q" "job_timeout (s_cfg s) q \<le> long_command_timeout_sec (s_cfg s)"
      "submit_request env now s q = (m, sn, None)"
      "handle_job_create env now k cx s =
         respond k (write_json 202 (Job_Response (job_response sn)))
           (put_audit env (job_submitted_event cx (fingerprint (s_auth s)) (req_command q) (sn_job_id sn)
                             (job_timeout (s_cfg s) q))
              (s\<lparr>s_jobs := m, s_job_conn := (s_job_conn s)(next_job (s_jobs s) := k)\<rparr>))"
proof (cases "decode_job_request (e_job_json env) (s_cfg s) (rq_body (e_request env k))")
  case (Inl resp)
  then show ?thesis
    by (intro Rejected) (simp add: handle_job_create_def)
next
  case (Inr q)
  let ?limit = "long_command_timeout_sec (s_cfg s)"
  obtain m sn err where sub: "submit_request env now s q = (m, sn, err)"
    by (cases "submit_request env now s q")
  have eq: "handle_job_create env now k cx s =
    (if job_timeout (s_cfg s) q < 1 \<or> ?limit < job_timeout (s_cfg s) q
     then respond k (invalid_timeout ?limit) s
     else let s1 = s\<lparr>s_jobs := m\<rparr> in
       if err = Some Job_Limit then respond k (job_limit (max_async_jobs (s_cfg s))) s1
       else if err = Some Job_Blocked then respond k killswitch_response s1
       else if err \<noteq> None then respond k job_start_failed s1
       else
         let s1 = s1\<lparr>s_job_conn := (s_job_conn s)(next_job (s_jobs s) := k)\<rparr>;
             s1 = put_audit env (job_submitted_event cx (fingerprint (s_auth s)) (req_command q)
                                   (sn_job_id sn) (job_timeout (s_cfg s) q)) s1
         in respond k (write_json 202 (Job_Response (job_response sn))) s1)"
    unfolding handle_job_create_def Inr sum.case Let_def
    by (simp only: job_timeout_def [symmetric] submit_request_def [symmetric] sub prod.case)
  show ?thesis
  proof (cases "job_timeout (s_cfg s) q < 1 \<or> ?limit < job_timeout (s_cfg s) q")
    case True
    then show ?thesis
      using eq by (intro Rejected [of "invalid_timeout ?limit"]) simp
  next
    case in_range: False
    show ?thesis
    proof (cases err)
      case None
      then show ?thesis
        using eq in_range sub Inr by (intro Accepted [of q m sn]) (simp_all only: Let_def, simp_all)
    next
      case (Some e)
      then show ?thesis
        using eq in_range sub
        by (cases "e = Job_Limit"; cases "e = Job_Blocked")
           (rule Refused [of q m sn e], simp, simp add: Let_def)+
    qed
  qed
qed

lemma handle_body_jobs:
  "s_jobs (handle_body env ok now k cx s) = s_jobs s \<or>
   (\<exists>x. job_op_ok x \<and> s_jobs (handle_body env ok now k cx s) = job_step (e_job_ids env) (s_jobs s) x)"
proof (cases "job_route (route_of (e_request env k))")
  case False
  then show ?thesis
    using handle_body_stage [of k env s ok now cx] by (simp add: stage_same_jobs)
next
  case True
  then consider "route_of (e_request env k) = To_Job_Create"
    | jid where "route_of (e_request env k) = To_Job_Get jid"
    | jid where "route_of (e_request env k) = To_Job_Cancel jid"
    by (auto simp: job_route_def)
  then show ?thesis
  proof cases
    case 1
    have "s_jobs (handle_job_create env now k cx s) = s_jobs s \<or>
      (\<exists>q. s_jobs (handle_job_create env now k cx s) = fst (submit_request env now s q))"
      by (cases rule: handle_job_create_cases [of env now k cx s]) (simp_all, metis fst_conv, metis fst_conv)
    moreover have "fst (submit_request env now s q) = job_step (e_job_ids env) (s_jobs s)
        (Submit_Job (req_command q) (req_format q) (seconds (job_timeout (s_cfg s) q)) True now)" for q
      by (simp add: submit_request_def job_step_def)
    ultimately show ?thesis
      using 1 by (simp add: handle_body_def) (metis job_op_ok.simps(2))
  next
    case (2 jid)
    then show ?thesis
      by (intro disjI2 exI [of _ "Get_Job jid now"])
         (simp add: handle_body_def handle_job_get_def job_step_def split: prod.split)
  next
    case (3 jid)
    then show ?thesis
      by (intro disjI2 exI [of _ "Cancel_Job jid operator_reason"])
         (simp add: handle_body_def handle_job_cancel_def job_step_def Let_def split: prod.split)
  qed
qed

lemma server_step_jobs:
  assumes "server_step env s t"
  shows "s_jobs t = s_jobs s \<or>
    (\<exists>x. job_op_ok x \<and> s_jobs t = job_step (e_job_ids env) (s_jobs s) x)"
  using assms
proof (cases rule: server_step_cases)
  case (Body k cx ok now)
  then show ?thesis using handle_body_jobs by blast
next
  case (Kill_Jobs k cx)
  then show ?thesis
    by (intro disjI2 exI [of _ "Block_And_Cancel_All kill_reason"])
       (simp add: kill_jobs_def job_step_def split: prod.split)
next
  case (Job_End r command fmt out now)
  then show ?thesis
    by (intro disjI2 exI [of _ "Finish_Job r out now"]) (simp add: job_step_def)
next
  case (Job_Done r sn)
  then show ?thesis
    by (intro disjI2 exI [of _ "Call_Done r"]) (simp add: job_step_def)
next
  case Down_Jobs
  then show ?thesis
    by (intro disjI2 exI [of _ Close_Manager]) (simp add: job_step_def)
qed (simp_all add: stage_same_jobs kill_frame kill_runner_def close_sessions_def)

lemma handle_body_sessions:
  "s_sessions (handle_body env ok now k cx s) = s_sessions s \<or>
   pool_step (e_session_ids env) js fmt (s_sessions s) (s_sessions (handle_body env ok now k cx s))"
proof (cases "session_route (route_of (e_request env k))")
  case False
  then show ?thesis
    using handle_body_stage [of k env s ok now cx] by (simp add: stage_same_sessions)
next
  case True
  then consider "route_of (e_request env k) = To_Session_Create"
    | sid where "route_of (e_request env k) = To_Session_Delete sid"
    by (auto simp: session_route_def)
  then show ?thesis
  proof cases
    case 1
    moreover have "pool_step (e_session_ids env) js fmt (s_sessions s)
        (fst (create_session (e_session_ids env) ok now (s_sessions s)))"
      by (rule s_create)
    ultimately show ?thesis
      by (simp add: handle_body_def handle_session_create_def case_prod_beta)
  next
    case (2 sid)
    moreover have "pool_step (e_session_ids env) js fmt (s_sessions s) (fst (delete_session sid (s_sessions s)))"
      by (rule s_delete)
    ultimately show ?thesis
      by (simp add: handle_body_def handle_session_delete_def case_prod_beta)
  qed
qed

lemma server_step_sessions:
  assumes "server_step env s t"
  shows "s_sessions t = s_sessions s \<or>
    pool_step (e_session_ids env) (e_json env) (e_session_format env) (s_sessions s) (s_sessions t)"
  using assms
proof (cases rule: server_step_cases)
  case (Body k cx ok now)
  then show ?thesis using handle_body_sessions by blast
qed (simp_all add: stage_same_sessions kill_frame kill_runner_def kill_sessions_def close_sessions_def
      pool_moves_def s_kill_all)

end
