(* ===== verification/Server_Inv.thy ===== *)
theory Server_Inv
  imports Server
begin

section \<open>What every reachable state of the server satisfies\<close>

text \<open>
  The invariants of the server and the properties that span its components: the invariants of
  the runner, the job manager and the sessions, lifted along the projections of a step; that
  whatever runs was asked for by a request with the token; that what runs is audited; that
  the kill switch stops everything; and that the configured limits hold.
\<close>

subsection \<open>The components inside the server\<close>

definition components_inv :: "'ip server_env \<Rightarrow> 'ip server \<Rightarrow> bool" where
  "components_inv env s \<longleftrightarrow>
     runner_inv (e_json env) (e_run_format env) (s_runner s) \<and>
     (good_entropy (e_job_ids env) \<and> job_inv (e_job_ids env) (s_jobs s)) \<and>
     pool_inv (e_session_ids env) (s_sessions s)"

lemma components_step:
  assumes "server_step env s t" and "components_inv env s"
  shows "components_inv env t"
proof -
  have "runner_inv (e_json env) (e_run_format env) (s_runner t)"
    using server_step_runner [OF assms(1)] assms(2) rn.step_inv
    by (auto simp: components_inv_def)
  moreover have "good_entropy (e_job_ids env) \<and> job_inv (e_job_ids env) (s_jobs t)"
    using server_step_jobs [OF assms(1)] assms(2) jb.guarded_step
    unfolding components_inv_def by metis
  moreover have "pool_inv (e_session_ids env) (s_sessions t)"
    using server_step_sessions [OF assms(1)] assms(2) sp.step_inv
    by (auto simp: components_inv_def)
  ultimately show ?thesis
    by (simp add: components_inv_def)
qed

interpretation sv: rel_invariant "server_step env" "components_inv env" for env
  by unfold_locales (rule components_step)

text \<open>The limits and the block flags: fixed, or set for good.\<close>

lemma server_step_limits:
  assumes "server_step env s t"
  shows "max_active (s_jobs t) = max_active (s_jobs s) \<and> max_results (s_jobs t) = max_results (s_jobs s) \<and>
    max_open (s_sessions t) = max_open (s_sessions s)"
  using server_step_jobs [OF assms] server_step_sessions [OF assms] pool_step_limits by fastforce

lemma run_step_blocked: "run_step js fmt s t \<Longrightarrow> run_blocked s \<Longrightarrow> run_blocked t"
  by (erule run_stepE) (simp_all add: kill_proc_def)

lemma server_step_blocked:
  assumes "server_step env s t"
  shows "jobs_blocked (s_jobs s) \<Longrightarrow> jobs_blocked (s_jobs t)"
    and "run_blocked (s_runner s) \<Longrightarrow> run_blocked (s_runner t)"
  using server_step_jobs [OF assms] job_step_blocked server_step_runner [OF assms] run_step_blocked
  by metis+

subsection \<open>A server that has just been built\<close>

lemma new_server_Inr:
  assumes "new_server env cfg version now tok mk fs kill = Inr s"
  shows "s_cfg s = cfg" "s_events s = []" "s_disk s = fs" "s_conns s = (\<lambda>_. C_Idle)"
    "load_token (e_sha256 env) tok = Inr (s_auth s)"
    "s_jobs s = (let m = new_manager (max_async_jobs cfg) (max_job_results cfg) (job_retention cfg)
       in if kill_file_armed kill then fst (block_and_cancel_all kill_reason m) else m)"
    "s_runner s = (if kill_file_armed kill then block_runner new_runner else new_runner)"
    "s_sessions s = new_session_manager (max_sessions cfg) (idle_timeout cfg)"
  using assms by (auto simp: new_server_def Let_def split: sum.splits if_splits)

lemma new_server_components:
  assumes new: "new_server env cfg version now tok mk fs kill = Inr s"
    and ids: "good_entropy (e_job_ids env)" "good_entropy (e_session_ids env)"
    and limits: "0 \<le> max_async_jobs cfg" "max_async_jobs cfg \<le> max_job_results cfg"
  shows "components_inv env s"
proof -
  have "runner_inv (e_json env) (e_run_format env) (s_runner s)"
    using rn.step_inv [OF block_runner_step runner_inv_init] runner_inv_init
    by (simp add: new_server_Inr(7) [OF new])
  moreover have "job_inv (e_job_ids env) (s_jobs s)"
    using new_manager_inv [OF limits] block_inv_weak
    by (simp add: new_server_Inr(6) [OF new] Let_def)
  moreover have "pool_inv (e_session_ids env) (s_sessions s)"
    using ids(2) by (simp add: new_server_Inr(8) [OF new] pool_inv_init)
  ultimately show ?thesis
    using ids(1) by (simp add: components_inv_def)
qed

text \<open>
  The runs of the server the properties are about: a configuration the agent accepts, a
  server built from it, any number of steps.
\<close>

definition server_run ::
  "'ip server_env \<Rightarrow> config \<Rightarrow> 'ip server \<Rightarrow> 'ip server \<Rightarrow> bool" where
  "server_run env cfg s0 s \<longleftrightarrow>
     good_entropy (e_job_ids env) \<and> good_entropy (e_session_ids env) \<and> validate (e_net env) cfg = None \<and>
     (\<exists>version now tok mk fs kill. new_server env cfg version now tok mk fs kill = Inr s0) \<and>
     (server_step env)\<^sup>*\<^sup>* s0 s"

lemma server_run_limits: "server_run env cfg s0 s \<Longrightarrow> 1 \<le> max_async_jobs cfg \<and>
    max_async_jobs cfg \<le> max_job_results cfg \<and> 1 \<le> max_sessions cfg"
  by (auto simp: server_run_def validate_def split: if_splits)

lemma server_run_start:
  assumes "server_run env cfg s0 s"
  shows "components_inv env s0"
proof -
  obtain version now tok mk fs kill where "new_server env cfg version now tok mk fs kill = Inr s0"
    using assms by (auto simp: server_run_def)
  then show ?thesis
    using assms server_run_limits [OF assms]
    by (intro new_server_components) (auto simp: server_run_def)
qed

lemma server_run_inv:
  assumes "server_run env cfg s0 s"
  shows "components_inv env s"
  using assms by (intro sv.steps_inv [OF _ server_run_start [OF assms]]) (simp add: server_run_def)

lemma server_run_step: "server_run env cfg s0 s \<Longrightarrow> server_step env s t \<Longrightarrow> server_run env cfg s0 t"
  by (auto simp: server_run_def intro: rtranclp.rtrancl_into_rtrancl)

lemma server_run_steps:
  "server_run env cfg s0 s \<Longrightarrow> (server_step env)\<^sup>*\<^sup>* s t \<Longrightarrow> server_run env cfg s0 t"
  by (auto simp: server_run_def intro: rtranclp_trans)

text \<open>An invariant of the server beside those of its components.\<close>

lemma server_run_induct [consumes 1, case_names new step]:
  assumes "server_run env cfg s0 s"
    and "\<And>version now tok mk fs kill. new_server env cfg version now tok mk fs kill = Inr s0 \<Longrightarrow> Q s0"
    and "\<And>s t. server_step env s t \<Longrightarrow> components_inv env s \<Longrightarrow> Q s \<Longrightarrow> Q t"
  shows "Q s"
proof -
  have "Q s0"
    using assms(1,2) by (auto simp: server_run_def)
  moreover have "(server_step env)\<^sup>*\<^sup>* s0 s"
    using assms(1) by (simp add: server_run_def)
  ultimately show ?thesis
    using sv.steps_stable [where Q = Q] server_run_start [OF assms(1)] assms(3) by blast
qed

subsection \<open>Where a connection goes\<close>

definition authentic :: "'ip server_env \<Rightarrow> 'ip server \<Rightarrow> nat \<Rightarrow> bool" where
  "authentic env s k \<longleftrightarrow>
     authenticate (e_sha256 env) (s_auth s) (rq_authorization (e_request env k))"

text \<open>The stages behind the middleware.\<close>

fun past_auth :: "conn \<Rightarrow> bool" where
  "past_auth (C_Guard _) = True"
| "past_auth (C_Body _) = True"
| "past_auth (C_Running _ _ _) = True"
| "past_auth (C_Exec _ _ _ _ _) = True"
| "past_auth (C_Restart _) = True"
| "past_auth (C_Kill_Jobs _) = True"
| "past_auth (C_Kill_Runner _ _) = True"
| "past_auth (C_Kill_Wait _ _ _) = True"
| "past_auth (C_Kill_Sessions _ _) = True"
| "past_auth (C_Kill_End _ _ _) = True"
| "past_auth _ = False"

text \<open>The command a connection may have executed, with its format.\<close>

definition asks_exec :: "'ip server_env \<Rightarrow> 'ip server \<Rightarrow> nat \<Rightarrow> string \<Rightarrow> string \<Rightarrow> bool" where
  "asks_exec env s k command fmt \<longleftrightarrow>
     (\<exists>q. decode_exec_request (e_exec_json env) (s_cfg s) (rq_body (e_request env k)) = Inr q \<and>
        req_command q = command \<and> req_format q = fmt)"

definition asks_job :: "'ip server_env \<Rightarrow> 'ip server \<Rightarrow> nat \<Rightarrow> string \<Rightarrow> string \<Rightarrow> bool" where
  "asks_job env s k command fmt \<longleftrightarrow>
     route_of (e_request env k) = To_Job_Create \<and>
     (\<exists>q. decode_job_request (e_job_json env) (s_cfg s) (rq_body (e_request env k)) = Inr q \<and>
        req_command q = command \<and> req_format q = fmt)"

text \<open>What holds of a connection by the constructor it is at.\<close>

definition conn_wf :: "'ip server_env \<Rightarrow> 'ip server \<Rightarrow> nat \<Rightarrow> bool" where
  "conn_wf env s k \<longleftrightarrow>
     (past_auth (s_conns s k) \<longrightarrow> authentic env s k) \<and>
     (case s_conns s k of
        C_Running cx command fmt \<Rightarrow> route_of (e_request env k) = To_Exec \<and> asks_exec env s k command fmt
      | C_Exec cx sid r command fmt \<Rightarrow>
          route_of (e_request env k) = To_Session_Exec sid \<and> asks_exec env s k command fmt
      | C_Restart r \<Rightarrow> \<exists>sid. route_of (e_request env k) = To_Session_Restart sid
      | _ \<Rightarrow> True)"

lemma asks_fixed:
  assumes "fixed_parts t = fixed_parts s"
  shows "authentic env t k = authentic env s k" "asks_exec env t k = asks_exec env s k"
    "asks_job env t k = asks_job env s k" "s_cfg t = s_cfg s" "s_auth t = s_auth s"
proof -
  show cfg: "s_cfg t = s_cfg s" and auth: "s_auth t = s_auth s"
    using assms by (simp_all add: fixed_parts_def)
  show "authentic env t k = authentic env s k"
    by (simp only: authentic_def auth)
  show "asks_exec env t k = asks_exec env s k" "asks_job env t k = asks_job env s k"
    by (intro ext, simp only: asks_exec_def asks_job_def cfg)+
qed

lemma conn_wf_same:
  assumes "fixed_parts t = fixed_parts s" and "s_conns t k = s_conns s k" and "conn_wf env s k"
  shows "conn_wf env t k"
  using assms(3) by (cases "s_conns s k") (simp_all add: conn_wf_def assms(2) asks_fixed [OF assms(1)])

lemma conn_wf_before:
  "s_conns s k \<in> {C_Idle, C_Dropped} \<union> range C_Blocklist \<union> range C_Limit \<union> range C_Auth \<union> range C_Done \<Longrightarrow>
   conn_wf env s k"
  by (auto simp: conn_wf_def)

lemma conn_wf_after:
  "s_conns s k \<in> range C_Guard \<union> range C_Body \<union> range C_Kill_Jobs \<Longrightarrow>
   authentic env s k \<Longrightarrow> conn_wf env s k"
  by (auto simp: conn_wf_def)

text \<open>The next position of the connection a stage is run for.\<close>

lemma check_blocklist_conn:
  "s_conns (check_blocklist env k cx s) k = C_Dropped \<or> s_conns (check_blocklist env k cx s) k = C_Limit cx"
  by (simp add: check_blocklist_def)

lemma check_rate_conn:
  "s_conns (check_rate env now k cx s) k \<in> range C_Done \<union> {C_Auth cx}"
  by (simp add: check_rate_def Let_def split: prod.split)

lemma check_token_conn:
  "s_conns (check_token env now k cx s) k \<in> range C_Done \<or>
   authentic env s k \<and> s_conns (check_token env now k cx s) k = C_Guard cx"
  by (simp add: check_token_def authentic_def Let_def split: prod.split)

lemma check_killed_conn:
  "s_conns (check_killed env k cx s) k \<in> range C_Done \<union> {C_Body cx}"
  by (simp add: check_killed_def)

lemma handle_exec_conn:
  "s_conns (handle_exec env k cx s) k \<in> range C_Done \<or>
   (\<exists>command fmt. asks_exec env s k command fmt \<and>
      s_conns (handle_exec env k cx s) k = C_Running cx command fmt)"
  by (auto simp: handle_exec_def asks_exec_def split: sum.split)

lemma handle_session_exec_conn:
  "s_conns (handle_session_exec env k cx sid s) k \<in> range C_Done \<or>
   (\<exists>r command fmt. asks_exec env s k command fmt \<and>
      s_conns (handle_session_exec env k cx sid s) k = C_Exec cx sid r command fmt)"
  by (auto simp: handle_session_exec_def asks_exec_def split: sum.split)

lemma handle_session_restart_conn:
  "s_conns (handle_session_restart k sid s) k \<in> range C_Done \<union> range C_Restart"
  by (simp add: handle_session_restart_def split: sum.split)

text \<open>Where a handler leaves its connection when it does not wait for a session.\<close>

definition settled_conns :: "conn set" where
  "settled_conns = range C_Done \<union> range C_Kill_Jobs"

lemma settled_Done [simp]: "C_Done resp \<in> settled_conns"
  and settled_Kill [simp]: "C_Kill_Jobs cx \<in> settled_conns"
  by (simp_all add: settled_conns_def)

lemma handle_job_conn [simp]:
  "s_conns (handle_job_create env now k cx s) k \<in> settled_conns"
  "s_conns (handle_job_get now k jid s) k \<in> settled_conns"
  "s_conns (handle_job_cancel env k cx jid s) k \<in> settled_conns"
  by (cases rule: handle_job_create_cases [of env now k cx s], simp_all)
     (simp_all add: handle_job_get_def handle_job_cancel_def Let_def split: prod.split)

lemma handle_other_conn [simp]:
  "s_conns (handle_session_create env ok now k s) k \<in> settled_conns"
  "s_conns (handle_session_info env now k sid s) k \<in> settled_conns"
  "s_conns (handle_session_delete k sid s) k \<in> settled_conns"
  "s_conns (handle_health env now k s) k \<in> settled_conns"
  "s_conns (handle_blocklist_get k s) k \<in> settled_conns"
  "s_conns (handle_blocklist_delete env k x s) k \<in> settled_conns"
  "s_conns (handle_kill_switch ok k cx s) k \<in> settled_conns"
  by (simp_all only: handle_session_create_def handle_session_info_def handle_session_delete_def
        handle_health_def handle_blocklist_get_def case_prod_beta)
     (simp_all add: handle_blocklist_delete_def handle_kill_switch_def split: option.split prod.split)

lemma end_conns:
  "s_conns (handle_exec_end env k cx command out s) k \<in> range C_Done"
  "s_conns (handle_session_exec_end env k cx sid command out s) k \<in> range C_Done"
  "s_conns (handle_session_restart_end env now k r restarted s) k \<in> range C_Done"
  "s_conns (kill_finish env k cx n s) k \<in> range C_Done"
  by (simp_all only: handle_exec_end_def handle_session_exec_end_def handle_session_restart_end_def
        kill_finish_def Let_def case_prod_beta) simp_all

lemma handle_body_wf:
  assumes "authentic env s k"
  shows "conn_wf env (handle_body env ok now k cx s) k"
proof -
  let ?t = "handle_body env ok now k cx s"
  have fixed: "fixed_parts ?t = fixed_parts s"
    by (rule stage_fixed [OF handle_body_stage])
  note same = asks_fixed [OF fixed]
  have auth: "authentic env ?t k"
    using assms by (simp add: same)
  have settled: "conn_wf env ?t k" if "s_conns ?t k \<in> settled_conns"
    using that unfolding settled_conns_def
  proof (elim UnE)
    assume "s_conns ?t k \<in> range C_Done"
    then show ?thesis by (intro conn_wf_before) (elim rangeE, simp)
  qed (rule conn_wf_after [OF _ auth], elim rangeE, simp)+
  show ?thesis
  proof (cases "route_of (e_request env k)")
    case To_Exec
    then have t: "?t = handle_exec env k cx s"
      by (simp add: handle_body_def)
    from handle_exec_conn [of env k cx s] show ?thesis
    proof
      assume "s_conns (handle_exec env k cx s) k \<in> range C_Done"
      then show ?thesis by (intro settled) (auto simp: t)
    next
      assume "\<exists>command fmt. asks_exec env s k command fmt \<and>
        s_conns (handle_exec env k cx s) k = C_Running cx command fmt"
      then obtain command fmt where "asks_exec env s k command fmt" "s_conns ?t k = C_Running cx command fmt"
        unfolding t by blast
      then show ?thesis
        using auth To_Exec by (simp add: conn_wf_def same)
    qed
  next
    case (To_Session_Exec sid)
    then have t: "?t = handle_session_exec env k cx sid s"
      by (simp add: handle_body_def)
    from handle_session_exec_conn [of env k cx sid s] show ?thesis
    proof
      assume "s_conns (handle_session_exec env k cx sid s) k \<in> range C_Done"
      then show ?thesis by (intro settled) (auto simp: t)
    next
      assume "\<exists>r command fmt. asks_exec env s k command fmt \<and>
        s_conns (handle_session_exec env k cx sid s) k = C_Exec cx sid r command fmt"
      then obtain r command fmt where "asks_exec env s k command fmt" "s_conns ?t k = C_Exec cx sid r command fmt"
        unfolding t by blast
      then show ?thesis
        using auth To_Session_Exec by (simp add: conn_wf_def same)
    qed
  next
    case (To_Session_Restart sid)
    then have t: "?t = handle_session_restart k sid s"
      by (simp add: handle_body_def)
    from handle_session_restart_conn [of k sid s] show ?thesis
    proof
      assume "s_conns (handle_session_restart k sid s) k \<in> range C_Done"
      then show ?thesis by (intro settled) (auto simp: t)
    next
      assume "s_conns (handle_session_restart k sid s) k \<in> range C_Restart"
      then show ?thesis
        using auth To_Session_Restart by (auto simp: conn_wf_def t)
    qed
  qed (rule settled, simp add: handle_body_def)+
qed

subsection \<open>What runs was asked for\<close>

definition conns_wf :: "'ip server_env \<Rightarrow> 'ip server \<Rightarrow> bool" where
  "conns_wf env s \<longleftrightarrow> (\<forall>k. conn_wf env s k)"

lemma conns_wf_stage:
  assumes "stage k jm pm s t" and "conns_wf env s" and "conn_wf env t k"
  shows "conns_wf env t"
  unfolding conns_wf_def
proof
  fix j
  show "conn_wf env t j"
    using assms conn_wf_same [OF stage_fixed [OF assms(1)] stage_others [OF assms(1)]]
    by (cases "j = k") (auto simp: conns_wf_def)
qed

lemma conns_wf_frame:
  "fixed_parts t = fixed_parts s \<Longrightarrow> s_conns t = s_conns s \<Longrightarrow> conns_wf env s \<Longrightarrow> conns_wf env t"
  using conn_wf_same [of t s] by (auto simp: conns_wf_def)

lemma conn_wf_settled:
  "s_conns s k \<in> range C_Done \<Longrightarrow> conn_wf env s k"
  by (rule conn_wf_before) blast

lemma conn_wf_auth: "conns_wf env s \<Longrightarrow> past_auth (s_conns s k) \<Longrightarrow> authentic env s k"
  by (auto simp: conns_wf_def conn_wf_def)

text \<open>The stages of the kill switch.\<close>

fun kill_stage :: "conn \<Rightarrow> bool" where
  "kill_stage (C_Kill_Runner _ _) = True"
| "kill_stage (C_Kill_Wait _ _ _) = True"
| "kill_stage (C_Kill_Sessions _ _) = True"
| "kill_stage (C_Kill_End _ _ _) = True"
| "kill_stage _ = False"

lemma conn_wf_kill: "authentic env s k \<Longrightarrow> kill_stage (s_conns s k) \<Longrightarrow> conn_wf env s k"
  by (cases "s_conns s k") (simp_all add: conn_wf_def)

lemma conns_wf_step:
  assumes "server_step env s t" and wf: "conns_wf env s"
  shows "conns_wf env t"
  using assms(1)
proof cases
  case (v_arrive k random now)
  show ?thesis
    unfolding v_arrive(1) by (rule conns_wf_stage [OF arrive_stage wf], rule conn_wf_before)
      (simp add: arrive_def Let_def)
next
  case (v_blocklist k cx)
  show ?thesis
    unfolding v_blocklist(1) by (rule conns_wf_stage [OF check_blocklist_stage wf], rule conn_wf_before)
      (use check_blocklist_conn [of env k cx s] in auto)
next
  case (v_rate k cx now)
  show ?thesis
    unfolding v_rate(1) by (rule conns_wf_stage [OF check_rate_stage wf], rule conn_wf_before)
      (use check_rate_conn [of env now k cx s] in auto)
next
  case (v_token k cx now)
  have fixed: "fixed_parts t = fixed_parts s"
    unfolding v_token(1) by (rule stage_fixed [OF check_token_stage])
  from check_token_conn [of env now k cx s] have "conn_wf env t k"
    unfolding v_token(1) [symmetric]
  proof
    assume "authentic env s k \<and> s_conns t k = C_Guard cx"
    then show ?thesis
      by (intro conn_wf_after) (simp_all add: asks_fixed [OF fixed])
  qed (rule conn_wf_settled)
  then show ?thesis
    unfolding v_token(1) by (rule conns_wf_stage [OF check_token_stage wf])
next
  case (v_guard k cx)
  have fixed: "fixed_parts t = fixed_parts s"
    unfolding v_guard(1) by (rule stage_fixed [OF check_killed_stage])
  have "authentic env t k"
    using conn_wf_auth [OF wf, of k] v_guard(2) by (simp add: asks_fixed [OF fixed])
  then have "conn_wf env t k"
    using check_killed_conn [of env k cx s] unfolding v_guard(1) [symmetric]
    by (auto intro: conn_wf_settled conn_wf_after)
  then show ?thesis
    unfolding v_guard(1) by (rule conns_wf_stage [OF check_killed_stage wf])
next
  case (v_body k cx ok now)
  have "authentic env s k"
    using conn_wf_auth [OF wf, of k] v_body(2) by simp
  then show ?thesis
    unfolding v_body(1) by (intro conns_wf_stage [OF handle_body_stage wf] handle_body_wf)
next
  case (v_run_end k cx command fmt out)
  show ?thesis
    unfolding v_run_end(1)
    by (rule conns_wf_stage [OF handle_exec_end_stage wf]) (rule conn_wf_settled [OF end_conns(1)])
next
  case (v_exec_end k cx sid r command fmt out)
  show ?thesis
    unfolding v_exec_end(1)
    by (rule conns_wf_stage [OF handle_session_exec_end_stage wf]) (rule conn_wf_settled [OF end_conns(2)])
next
  case (v_restart_end k r restarted now)
  show ?thesis
    unfolding v_restart_end(1)
    by (rule conns_wf_stage [OF handle_session_restart_end_stage wf]) (rule conn_wf_settled [OF end_conns(3)])
next
  case (v_kill_jobs k cx)
  have fixed: "fixed_parts t = fixed_parts s"
    unfolding v_kill_jobs(1) by (rule stage_fixed [OF kill_jobs_stage])
  have "authentic env t k"
    using conn_wf_auth [OF wf, of k] v_kill_jobs(2) by (simp add: asks_fixed [OF fixed])
  then have "conn_wf env t k"
    by (rule conn_wf_kill) (simp add: v_kill_jobs(1) kill_jobs_def split: prod.split)
  then show ?thesis
    unfolding v_kill_jobs(1) by (rule conns_wf_stage [OF kill_jobs_stage wf])
next
  case (v_kill_runner k cx n)
  have fixed: "fixed_parts t = fixed_parts s"
    by (simp add: v_kill_runner(1) kill_runner_def fixed_parts_def)
  have auth: "authentic env t k"
    using conn_wf_auth [OF wf, of k] v_kill_runner(2) by (simp add: asks_fixed [OF fixed])
  have "conn_wf env t j" for j
  proof (cases "j = k")
    case True
    then show ?thesis
      using auth by (intro conn_wf_kill) (simp_all add: v_kill_runner(1) kill_runner_def)
  next
    case False
    then show ?thesis
      using wf by (intro conn_wf_same [OF fixed]) (simp_all add: v_kill_runner(1) kill_runner_def conns_wf_def)
  qed
  then show ?thesis by (simp add: conns_wf_def)
next
  case (v_kill_wait k cx n P)
  have "authentic env s k"
    using conn_wf_auth [OF wf, of k] v_kill_wait(2) by simp
  then have wf': "conn_wf env t k"
    by (intro conn_wf_kill) (simp_all add: v_kill_wait(1) authentic_def)
  have "stage k False False s t"
    by (simp add: v_kill_wait(1) stage_rules)
  then show ?thesis
    using wf wf' by (rule conns_wf_stage)
next
  case (v_kill_sessions k cx n)
  have fixed: "fixed_parts t = fixed_parts s"
    unfolding v_kill_sessions(1) by (rule stage_fixed [OF kill_sessions_stage])
  have "authentic env t k"
    using conn_wf_auth [OF wf, of k] v_kill_sessions(2) by (simp add: asks_fixed [OF fixed])
  then have "conn_wf env t k"
    by (rule conn_wf_kill) (simp add: v_kill_sessions(1) kill_sessions_def)
  then show ?thesis
    unfolding v_kill_sessions(1) by (rule conns_wf_stage [OF kill_sessions_stage wf])
next
  case (v_kill_end k cx n R)
  show ?thesis
    unfolding v_kill_end(1)
    by (rule conns_wf_stage [OF kill_finish_stage wf]) (rule conn_wf_settled [OF end_conns(4)])
qed (rule conns_wf_frame [OF _ _ wf], simp add: fixed_parts_def close_sessions_def, simp add: close_sessions_def)+

lemma conns_wf_new: "new_server env cfg version now tok mk fs kill = Inr s \<Longrightarrow> conns_wf env s"
  by (simp add: conns_wf_def conn_wf_before new_server_Inr)

text \<open>What a step does to the jobs that exist and to the calls that have begun.\<close>

lemma submit_frame:
  assumes "submit entropy command fmt timeout cb now m = (m', sn, err)"
  shows "err \<noteq> None \<Longrightarrow> next_job m' = next_job m \<and> goroutines m' = goroutines m"
    and "err = None \<Longrightarrow> next_job m' = Suc (next_job m) \<and>
      goroutines m' = goroutines m @ [(next_job m, command, fmt)]"
  using assms by (auto simp: submit_def Let_def split: option.splits if_splits)

definition same_jobs :: "'ip server \<Rightarrow> 'ip server \<Rightarrow> bool" where
  "same_jobs s t \<longleftrightarrow> next_job (s_jobs t) = next_job (s_jobs s) \<and>
     set (goroutines (s_jobs t)) \<subseteq> set (goroutines (s_jobs s)) \<and> s_job_conn t = s_job_conn s"

text \<open>Connection \<open>k\<close> adds a job.\<close>

definition adds_job :: "'ip server_env \<Rightarrow> nat \<Rightarrow> 'ip server \<Rightarrow> 'ip server \<Rightarrow> bool" where
  "adds_job env k s t \<longleftrightarrow> (\<exists>command fmt. asks_job env s k command fmt \<and>
     next_job (s_jobs t) = Suc (next_job (s_jobs s)) \<and>
     goroutines (s_jobs t) = goroutines (s_jobs s) @ [(next_job (s_jobs s), command, fmt)] \<and>
     s_job_conn t = (s_job_conn s)(next_job (s_jobs s) := k))"

lemma job_frames [simp]:
  "next_job (fst (get_job jid now m)) = next_job m" "goroutines (fst (get_job jid now m)) = goroutines m"
  "next_job (fst (cancel_job jid reason m)) = next_job m"
  "goroutines (fst (cancel_job jid reason m)) = goroutines m"
  "next_job (fst (block_and_cancel_all reason m)) = next_job m"
  "goroutines (fst (block_and_cancel_all reason m)) = goroutines m"
  "next_job (close_manager m) = next_job m" "goroutines (close_manager m) = goroutines m"
  "next_job (finish_run r out now m) = next_job m"
  by (simp_all add: get_job_def cancel_job_def block_and_cancel_all_eq close_manager_def finish_run_def
      Let_def split: option.split)

lemma finish_goroutines: "set (goroutines (finish_run r out now m)) \<subseteq> set (goroutines m)"
  by (auto simp: finish_run_def Let_def mdel_def)

lemma stage_same: "stage k False pm s t \<Longrightarrow> same_jobs s t"
  by (simp add: same_jobs_def stage_same_jobs)

lemma handle_body_adds:
  "same_jobs s (handle_body env ok now k cx s) \<or> adds_job env k s (handle_body env ok now k cx s)"
proof (cases "job_route (route_of (e_request env k))")
  case False
  then show ?thesis
    using stage_same [of k "session_route (route_of (e_request env k))" s] handle_body_stage [of k env s ok now cx]
    by simp
next
  case True
  then consider "route_of (e_request env k) = To_Job_Create"
    | jid where "route_of (e_request env k) = To_Job_Get jid"
    | jid where "route_of (e_request env k) = To_Job_Cancel jid"
    by (auto simp: job_route_def)
  then show ?thesis
  proof cases
    case 1
    then have body: "handle_body env ok now k cx s = handle_job_create env now k cx s"
      by (simp add: handle_body_def)
    show ?thesis
      unfolding body
    proof (cases rule: handle_job_create_cases [of env now k cx s])
      case (Rejected resp)
      then show "same_jobs s (handle_job_create env now k cx s) \<or> adds_job env k s (handle_job_create env now k cx s)"
        by (simp add: same_jobs_def)
    next
      case (Refused q m sn err resp)
      then show "same_jobs s (handle_job_create env now k cx s) \<or> adds_job env k s (handle_job_create env now k cx s)"
        using submit_frame(1) [OF Refused(1) [unfolded submit_request_def]] by (simp add: same_jobs_def)
    next
      case (Accepted q m sn)
      then show "same_jobs s (handle_job_create env now k cx s) \<or> adds_job env k s (handle_job_create env now k cx s)"
        using submit_frame(2) [OF Accepted(4) [unfolded submit_request_def]] 1
        by (auto simp: adds_job_def asks_job_def)
    qed
  next
    case (2 jid)
    then show ?thesis
      by (simp add: handle_body_def handle_job_get_def same_jobs_def case_prod_beta)
  next
    case (3 jid)
    then show ?thesis
      by (simp add: handle_body_def handle_job_cancel_def same_jobs_def case_prod_beta Let_def)
  qed
qed

lemma server_step_adds:
  assumes "server_step env s t" and "conns_wf env s"
  shows "same_jobs s t \<or> (\<exists>k. authentic env s k \<and> adds_job env k s t)"
  using assms(1)
proof (cases rule: server_step_cases)
  case (Body k cx ok now)
  then show ?thesis
    using handle_body_adds [of s env ok now k cx] conn_wf_auth [OF assms(2), of k] by auto
next
  case (Job_End r command fmt out now)
  then show ?thesis
    using finish_goroutines by (simp add: same_jobs_def)
qed (simp_all add: stage_same kill_frame, simp_all add: same_jobs_def kill_jobs_def kill_runner_def kill_sessions_def
       close_sessions_def case_prod_beta)

lemma server_step_calls:
  assumes "server_step env s t" and "runs (s_runner s) c = Not_Called" and "runs (s_runner t) c \<noteq> Not_Called"
  shows "may_run env s c"
  using assms
  by (cases rule: server_step_cases)
     (simp_all add: stage_runner body_frame kill_frame runner_moves_def kill_runner_def block_runner_def
        close_sessions_def)

lemma delete_frame [simp]:
  "calls (fst (delete_session sid m)) = calls m" "next_sess (fst (delete_session sid m)) = next_sess m"
  "pnext (fst (delete_session sid m)) = pnext m" "sess_heap (fst (delete_session sid m)) = sess_heap m"
  "calls (kill_all_sessions m) = calls m" "next_sess (kill_all_sessions m) = next_sess m"
  "pnext (kill_all_sessions m) = pnext m"
  by (cases rule: delete_session_cases [of sid m]; simp add: kill_all_sessions_def)+

lemma create_calls [simp]: "calls (fst (create_session entropy ok now m)) = calls m"
  by (cases rule: create_session_cases [of entropy ok now m]) simp_all

lemma body_sessions:
  "s_sessions (handle_body env ok now k cx s) = s_sessions s \<or>
   route_of (e_request env k) = To_Session_Create \<and>
     s_sessions (handle_body env ok now k cx s) = fst (create_session (e_session_ids env) ok now (s_sessions s)) \<or>
   (\<exists>sid. s_sessions (handle_body env ok now k cx s) = fst (delete_session sid (s_sessions s)))"
proof (cases "session_route (route_of (e_request env k))")
  case False
  then show ?thesis
    using stage_same_sessions [of k "job_route (route_of (e_request env k))" s] handle_body_stage [of k env s ok now cx]
    by simp
next
  case True
  then consider "route_of (e_request env k) = To_Session_Create"
    | sid where "route_of (e_request env k) = To_Session_Delete sid"
    by (auto simp: session_route_def)
  then show ?thesis
    by cases (simp_all add: handle_body_def handle_session_create_def handle_session_delete_def case_prod_beta,
      blast)
qed

lemma server_step_uses:
  assumes "server_step env s t" and "calls (s_sessions s) c = No_Call" and "calls (s_sessions t) c \<noteq> No_Call"
  shows "may_use env s c (calls (s_sessions t) c)"
  using assms
proof (cases rule: server_step_cases)
  case (Body k cx ok now)
  then have "calls (s_sessions t) = calls (s_sessions s)"
    using body_sessions [of env ok now k cx s] by auto
  then show ?thesis
    using assms(2,3) by simp
qed (simp_all add: stage_same_sessions kill_frame pool_moves_def kill_runner_def kill_sessions_def
        close_sessions_def)

text \<open>
  Every job, every goroutine, every call of the runner and every call of a session has a
  connection behind it that presented the token and asked for just that.
\<close>

definition jobs_traced :: "'ip server_env \<Rightarrow> 'ip server \<Rightarrow> bool" where
  "jobs_traced env s \<longleftrightarrow>
     (\<forall>r < next_job (s_jobs s). authentic env s (s_job_conn s r) \<and>
        route_of (e_request env (s_job_conn s r)) = To_Job_Create) \<and>
     (\<forall>(r, command, fmt) \<in> set (goroutines (s_jobs s)). r < next_job (s_jobs s) \<and>
        asks_job env s (s_job_conn s r) command fmt)"

definition run_traced :: "'ip server_env \<Rightarrow> 'ip server \<Rightarrow> nat \<Rightarrow> bool" where
  "run_traced env s c \<longleftrightarrow>
     (\<exists>k command. authentic env s k \<and>
        (c = exec_call k \<and> route_of (e_request env k) = To_Exec \<and> asks_exec env s k command (e_run_format env c) \<or>
         (\<exists>r < next_job (s_jobs s). c = job_call r \<and> k = s_job_conn s r \<and>
            asks_job env s k command (e_run_format env c))))"

definition use_traced :: "'ip server_env \<Rightarrow> 'ip server \<Rightarrow> nat \<Rightarrow> bool" where
  "use_traced env s c \<longleftrightarrow> authentic env s c \<and>
     ((\<exists>sid command. route_of (e_request env c) = To_Session_Exec sid \<and>
         asks_exec env s c command (e_session_format env c)) \<or>
      (\<exists>sid. route_of (e_request env c) = To_Session_Restart sid))"

definition all_traced :: "'ip server_env \<Rightarrow> 'ip server \<Rightarrow> bool" where
  "all_traced env s \<longleftrightarrow> conns_wf env s \<and> jobs_traced env s \<and>
     (\<forall>c. runs (s_runner s) c \<noteq> Not_Called \<longrightarrow> run_traced env s c) \<and>
     (\<forall>c. calls (s_sessions s) c \<noteq> No_Call \<longrightarrow> use_traced env s c)"

lemma jobs_traced_step:
  assumes step: "server_step env s t" and wf: "conns_wf env s" and traced: "jobs_traced env s"
  shows "jobs_traced env t"
proof -
  note same = asks_fixed [OF server_step_fixed [OF step]]
  from server_step_adds [OF step wf] show ?thesis
  proof (elim disjE exE conjE)
    assume "same_jobs s t"
    then show ?thesis
      using traced by (auto simp: jobs_traced_def same_jobs_def same)
  next
    fix k
    assume "authentic env s k" "adds_job env k s t"
    then show ?thesis
      using traced by (fastforce simp: jobs_traced_def adds_job_def same asks_job_def less_Suc_eq)
  qed
qed

text \<open>A job keeps its connection.\<close>

lemma job_conn_step:
  assumes "server_step env s t" and "conns_wf env s" and "r < next_job (s_jobs s)"
  shows "s_job_conn t r = s_job_conn s r \<and> r < next_job (s_jobs t)"
  using server_step_adds [OF assms(1,2)] assms(3) by (auto simp: same_jobs_def adds_job_def)

lemma run_traced_step:
  assumes "server_step env s t" and "conns_wf env s" and "run_traced env s c"
  shows "run_traced env t c"
  using assms(3) job_conn_step [OF assms(1,2)] unfolding run_traced_def
  by (simp only: asks_fixed [OF server_step_fixed [OF assms(1)]]) metis

lemma may_run_traced:
  assumes "conns_wf env s" and "jobs_traced env s" and "may_run env s c"
  shows "run_traced env s c"
  using assms(3) unfolding may_run_def
proof (elim disjE exE conjE)
  fix k cx command
  assume c: "c = exec_call k" "s_conns s k = C_Running cx command (e_run_format env c)"
  then have "conn_wf env s k"
    using assms(1) by (simp add: conns_wf_def)
  then show ?thesis
    using c by (auto simp: run_traced_def conn_wf_def)
next
  fix r command
  assume "c = job_call r" "(r, command, e_run_format env c) \<in> set (goroutines (s_jobs s))"
  then show ?thesis
    using assms(2) by (fastforce simp: run_traced_def jobs_traced_def)
qed

lemma may_use_traced:
  assumes "conns_wf env s" and "may_use env s c pc"
  shows "use_traced env s c"
proof -
  have "conn_wf env s c"
    using assms(1) by (simp add: conns_wf_def)
  then show ?thesis
    using assms(2) by (auto simp: may_use_def use_traced_def conn_wf_def)
qed

lemma all_traced_step:
  assumes step: "server_step env s t" and traced: "all_traced env s"
  shows "all_traced env t"
proof -
  have wf: "conns_wf env s" and jobs: "jobs_traced env s"
    using traced by (simp_all add: all_traced_def)
  have "run_traced env t c" if "runs (s_runner t) c \<noteq> Not_Called" for c
    using that traced server_step_calls [OF step _ that] may_run_traced [OF wf jobs]
    by (intro run_traced_step [OF step wf]) (auto simp: all_traced_def)
  moreover have "use_traced env t c" if "calls (s_sessions t) c \<noteq> No_Call" for c
    unfolding use_traced_def asks_fixed [OF server_step_fixed [OF step]]
    unfolding use_traced_def [symmetric]
    using that traced server_step_uses [OF step _ that] may_use_traced [OF wf]
    by (auto simp: all_traced_def)
  ultimately show ?thesis
    using conns_wf_step [OF step wf] jobs_traced_step [OF step wf jobs] by (simp add: all_traced_def)
qed

lemma all_traced_new:
  assumes "new_server env cfg version now tok mk fs kill = Inr s"
  shows "all_traced env s"
proof -
  have "goroutines (s_jobs s) = []" "next_job (s_jobs s) = 0"
    by (simp_all add: new_server_Inr(6) [OF assms] new_manager_def Let_def)
  moreover have "runs (s_runner s) = (\<lambda>_. Not_Called)"
    by (simp add: new_server_Inr(7) [OF assms] block_runner_def new_runner_def)
  moreover have "calls (s_sessions s) = (\<lambda>_. No_Call)"
    by (simp add: new_server_Inr(8) [OF assms] new_session_manager_def)
  ultimately show ?thesis
    using conns_wf_new [OF assms] by (simp add: all_traced_def jobs_traced_def)
qed

lemma server_run_traced: "server_run env cfg s0 s \<Longrightarrow> all_traced env s"
  by (induction rule: server_run_induct) (auto intro: all_traced_new all_traced_step)

lemma server_run_fixed: "server_run env cfg s0 s \<Longrightarrow> fixed_parts s = fixed_parts s0"
  by (induction rule: server_run_induct [where Q = "\<lambda>s. fixed_parts s = fixed_parts s0"])
     (simp_all add: server_step_fixed)

text \<open>Without a call there is no process, and without a session neither.\<close>

lemma all_updated: "(\<forall>c. (if c = r then x else f c) = y) \<longleftrightarrow> x = y \<and> (\<forall>c. c \<noteq> r \<longrightarrow> f c = y)"
  by auto

lemma run_step_idle:
  "run_step js fmt s t \<Longrightarrow> \<forall>c. runs t c = Not_Called \<Longrightarrow> next_pid t = next_pid s"
  by (erule run_stepE) (auto simp: kill_proc_def all_updated)

lemma pool_step_idle:
  assumes "pool_step entropy js fmt m m'" and "\<forall>c. calls m' c = No_Call"
    and "next_sess m = 0" "next_sess m' = 0" and "refs_wf m"
    and "to_end m = {}" "\<forall>p. pprocs m p = Absent"
  shows "to_end m' = {} \<and> (\<forall>p. pprocs m' p = Absent)"
  using assms
proof (induction rule: pool_step.induct)
  case (s_create m ok now)
  then show ?case
    by (cases rule: create_session_cases [of entropy ok now m]) simp_all
next
  case (s_delete m sid)
  then show ?case
    by (cases rule: delete_session_cases [of sid m]) simp_all
next
  case (s_reap sid m)
  then show ?case
    by (cases rule: delete_session_cases [of sid m]) simp_all
next
  case (s_abort r m)
  then show ?case by (simp add: refs_wf_def)
qed (simp_all add: kill_all_sessions_def all_updated)

text \<open>The limits of the managers are those of the configuration.\<close>

lemma server_run_bounds:
  assumes "server_run env cfg s0 s"
  shows "max_active (s_jobs s) = max_async_jobs cfg \<and> max_results (s_jobs s) = max_job_results cfg \<and>
    max_open (s_sessions s) = max_sessions cfg"
  using assms
proof (induction rule: server_run_induct)
  case (new version now tok mk fs kill)
  then have "max_active (s_jobs s0) = max_async_jobs cfg" "max_results (s_jobs s0) = max_job_results cfg"
    by (simp_all add: new_server_Inr(6) [OF new] Let_def new_manager_def block_and_cancel_all_eq cancel_all_def)
  then show ?case
    by (simp add: new_server_Inr(8) [OF new] new_session_manager_def)
next
  case (step s t)
  then show ?case
    using server_step_limits [OF step(1)] by simp
qed

end
