(* ===== verification/Server_Sample.thy ===== *)
theory Server_Sample
  imports Server_Inv
begin

section \<open>A server to try the properties on\<close>

text \<open>
  A request for every connection, SHA-256 replaced by the identity, decoders that always
  yield the command \<open>x\<close>.
\<close>

definition sample_token :: string where
  "sample_token = replicate 43 CHR ''a''"

definition post :: "string list \<Rightarrow> request" where
  "post path = \<lparr>rq_method = ''POST'', rq_path = path, rq_remote = ''1.1.1.1:5'',
     rq_authorization = bearer_prefix @ sample_token, rq_forwarded = [], rq_body = []\<rparr>"

definition sample_env :: "(nat \<Rightarrow> request) \<Rightarrow> string server_env" where
  "sample_env rq =
     \<lparr>e_net = dotted_net, e_sha256 = (\<lambda>x. x), e_float = (\<lambda>x. x),
      e_exec_json = (\<lambda>q b. Json_Value (q\<lparr>req_command := ''x'', req_format := format_lines\<rparr>) []),
      e_job_json = (\<lambda>q b. Json_Value (q\<lparr>req_command := ''x'', req_format := format_lines\<rparr>) []),
      e_json = any_json, e_archives = sample_archives, e_audit = (\<lambda>_. calm_audit),
      e_job_ids = counting_entropy, e_session_ids = counting_entropy, e_request = rq,
      e_run_format = (\<lambda>_. format_lines), e_session_format = (\<lambda>_. format_lines)\<rparr>"

definition sample_server :: "(nat \<Rightarrow> request) \<Rightarrow> string server" where
  "sample_server rq =
     projr (new_server (sample_env rq) agent_defaults [] 0 (Inr sample_token) True Map.empty Stat_Missing)"

lemma sample_token_trim [simp]: "trim_space sample_token = sample_token"
  unfolding sample_token_def by (rule trim_space_plain) (simp add: space_bytes_def space_runes_def)

lemma sample_loads:
  "load_token (\<lambda>x. x) (Inr sample_token) = Inr \<lparr>hash = sample_token, fingerprint = hex_encode (take 8 sample_token)\<rparr>"
  by (simp add: load_token_def Let_def) (simp add: sample_token_def)

lemma sample_audit_opens: "\<exists>logger. new_audit True (audit_log_path agent_defaults) (audit_max_bytes agent_defaults) = Inr logger"
  by (simp add: new_audit_def)

lemma sample_env_simps [simp]:
  "e_net (sample_env rq) = dotted_net" "e_sha256 (sample_env rq) = (\<lambda>x. x)" "e_float (sample_env rq) = (\<lambda>x. x)"
  "e_job_ids (sample_env rq) = counting_entropy" "e_session_ids (sample_env rq) = counting_entropy"
  "e_request (sample_env rq) = rq" "e_run_format (sample_env rq) c = format_lines"
  "e_session_format (sample_env rq) c = format_lines" "e_json (sample_env rq) = any_json"
  "e_audit (sample_env rq) n = calm_audit" "e_archives (sample_env rq) = sample_archives"
  by (simp_all add: sample_env_def)

lemma sample_new:
  "new_server (sample_env rq) agent_defaults [] 0 (Inr sample_token) True Map.empty Stat_Missing =
     Inr (sample_server rq)"
proof -
  have "\<exists>s. new_server (sample_env rq) agent_defaults [] 0 (Inr sample_token) True Map.empty Stat_Missing = Inr s"
    using sample_audit_opens by (auto simp: new_server_def sample_loads Let_def)
  then show ?thesis
    by (auto simp: sample_server_def)
qed

lemma sample_run: "server_run (sample_env rq) agent_defaults (sample_server rq) (sample_server rq)"
  unfolding server_run_def
proof (intro conjI)
  show "\<exists>version now tok mk fs kill.
    new_server (sample_env rq) agent_defaults version now tok mk fs kill = Inr (sample_server rq)"
    by (intro exI, rule sample_new)
qed (simp_all add: counting_entropy_good agent_defaults_valid)

lemma new_server_rest:
  assumes "new_server env cfg version now tok mk fs kill = Inr s"
  shows "s_blocklist s = new_blocklist (auth_failures_before_block cfg)"
    "s_limiter s = new_rate_limiter (e_float env) (rate_limit_per_sec cfg) (rate_limit_burst cfg)"
    "s_kill s = kill" "s_shutdown s = Sd_Off" "s_reaper_stopped s = False"
  using assms by (auto simp: new_server_def Let_def split: sum.splits if_splits)

lemmas sample_start = new_server_Inr [OF sample_new] new_server_rest [OF sample_new]

abbreviation sample_reaches :: "(nat \<Rightarrow> request) \<Rightarrow> string server \<Rightarrow> bool" where
  "sample_reaches rq \<equiv> server_run (sample_env rq) agent_defaults (sample_server rq)"

text \<open>Nothing is blocked, nothing is armed, and \<open>n\<close> requests have come so far, all at instant 0.\<close>

definition calm_server :: "nat \<Rightarrow> string server \<Rightarrow> bool" where
  "calm_server n s \<longleftrightarrow> blocked (s_blocklist s) = [] \<and> s_kill s = Stat_Missing \<and>
     rate (s_limiter s) = 10 \<and> capacity (s_limiter s) = 20 \<and>
     (\<forall>ip b. buckets (s_limiter s) ip = Some b \<longrightarrow> last_seen b = 0 \<and> 20 - of_nat n \<le> tokens b \<and> tokens b \<le> 20)"

lemma calm_sample: "calm_server 0 (sample_server rq)"
  by (simp add: calm_server_def sample_start new_blocklist_def new_rate_limiter_def agent_defaults_def
      default_config_def)

lemma calm_allow:
  assumes "calm_server n s" and "n < 19"
  shows "snd (allow (\<lambda>x. x) (s_limiter s) ip 0)"
    and "calm_server (Suc n) (s\<lparr>s_limiter := fst (allow (\<lambda>x. x) (s_limiter s) ip 0)\<rparr>)"
proof -
  have now: "duration_seconds (\<lambda>x. x) (time_sub 0 0) = 0"
    by (simp add: time_sub_def duration_seconds_def whole_seconds_def)
  have n: "(of_nat n :: rat) < 19"
    using assms(2) by simp
  show "snd (allow (\<lambda>x. x) (s_limiter s) ip 0)"
    "calm_server (Suc n) (s\<lparr>s_limiter := fst (allow (\<lambda>x. x) (s_limiter s) ip 0)\<rparr>)"
    using assms(1) n now by (cases "buckets (s_limiter s) ip"; fastforce simp: calm_server_def allow_def Let_def)+
qed

lemma sample_authentic: "authenticate (\<lambda>x. x) (s_auth (sample_server rq)) (rq_authorization (post path))"
proof -
  have "Inr (s_auth (sample_server rq)) = load_token (\<lambda>x. x) (Inr sample_token)"
    using sample_start(5) [of rq] by simp
  then show ?thesis
    by (simp add: sample_loads post_def authenticate_def Let_def constant_time_compare_def trim_prefix_def
        has_prefix_def)
qed

lemma sample_auth: "sample_reaches rq s \<Longrightarrow> s_auth s = s_auth (sample_server rq) \<and> s_cfg s = agent_defaults"
  using server_run_fixed [of "sample_env rq" agent_defaults "sample_server rq" s] sample_start(1) [of rq]
  by (simp add: fixed_parts_def)

text \<open>The parts of the state behind the middleware are the same.\<close>

definition same_parts :: "string server \<Rightarrow> string server \<Rightarrow> bool" where
  "same_parts s t \<longleftrightarrow> s_runner t = s_runner s \<and> s_jobs t = s_jobs s \<and> s_sessions t = s_sessions s"

lemma sample_reaches_body:
  assumes run: "sample_reaches rq s" and calm: "calm_server n s" "n < 19"
    and k: "s_conns s k = C_Idle" "rq k = post path"
  shows "\<exists>t cx. sample_reaches rq t \<and> calm_server (Suc n) t \<and> same_parts s t \<and>
    s_conns t = (s_conns s)(k := C_Body cx)"
proof -
  let ?e = "sample_env rq"
  obtain cx where 1: "arrive ?e None 0 k s = goto_conn k (C_Blocklist cx) s" (is "_ = ?s1")
    by (simp add: arrive_def Let_def)
  have r1: "sample_reaches rq ?s1"
    using server_run_step [OF run v_arrive [OF k(1), where random = None and now = 0]] unfolding 1 .
  have 2: "check_blocklist ?e k cx ?s1 = goto_conn k (C_Limit cx) ?s1" (is "_ = ?s2")
    using calm by (simp add: check_blocklist_def is_blocked_def mget_def calm_server_def)
  have r2: "sample_reaches rq ?s2"
    using server_run_step [OF r1 v_blocklist, of k cx] unfolding 2 by simp
  let ?l = "fst (allow (\<lambda>x. x) (s_limiter s) (client_ip cx) 0)"
  have 3: "check_rate ?e 0 k cx ?s2 = goto_conn k (C_Auth cx) (?s2\<lparr>s_limiter := ?l\<rparr>)" (is "_ = ?s3")
    using calm_allow(1) [OF calm, of "client_ip cx"] by (simp add: check_rate_def Let_def case_prod_beta)
  have r3: "sample_reaches rq ?s3"
    using server_run_step [OF r2 v_rate, of k cx 0] unfolding 3 by simp
  let ?b = "record_success (s_blocklist s) (client_ip cx)"
  have 4: "check_token ?e 0 k cx ?s3 = goto_conn k (C_Guard cx) (?s3\<lparr>s_blocklist := ?b\<rparr>)" (is "_ = ?s4")
    using sample_authentic [of rq path] sample_auth [OF run] by (simp add: check_token_def k(2))
  have r4: "sample_reaches rq ?s4"
    using server_run_step [OF r3 v_token, of k cx 0] unfolding 4 by simp
  have 5: "check_killed ?e k cx ?s4 = goto_conn k (C_Body cx) ?s4" (is "_ = ?s5")
    using calm by (simp add: check_killed_def kill_file_armed_def calm_server_def)
  have r5: "sample_reaches rq ?s5"
    using server_run_step [OF r4 v_guard, of k cx] unfolding 5 by simp
  have "calm_server (Suc n) ?s5"
    using calm_allow(2) [OF calm, of "client_ip cx"] by (simp add: calm_server_def record_success_def)
  then show ?thesis
    using r5 by (intro exI [of _ ?s5] exI [of _ cx]) (simp add: same_parts_def)
qed

lemma sample_exec: "decode_exec_request (e_exec_json (sample_env rq)) agent_defaults (rq_body (post path)) =
    Inr \<lparr>req_command = ''x'', req_format = format_lines\<rparr>"
proof -
  have "trim_space ''x'' = ''x''"
    by (rule trim_space_plain) (simp add: space_bytes_def space_runes_def)
  then show ?thesis
    by (simp add: decode_exec_request_def decode_body_def check_command_def sample_env_def post_def
        empty_exec_request_def agent_defaults_def default_config_def json_at_eof_def)
qed

abbreviation all_exec :: "nat \<Rightarrow> request" where
  "all_exec \<equiv> \<lambda>_. post [''exec'']"

lemma sample_running:
  "\<exists>s cx. sample_reaches all_exec s \<and>
     s_conns s 0 = C_Running cx ''x'' format_lines \<and> s_runner s = new_runner"
proof -
  let ?e = "sample_env all_exec"
  obtain s cx where s: "sample_reaches all_exec s" "same_parts (sample_server all_exec) s"
      "s_conns s = (\<lambda>_. C_Idle)(0 := C_Body cx)"
    using sample_reaches_body [OF sample_run calm_sample, where k = 0 and path = "[''exec'']" and rq = all_exec] by (auto simp: sample_start)
  then have runner: "s_runner s = new_runner"
    by (simp add: same_parts_def sample_start kill_file_armed_def)
  have "route_of (post [''exec'']) = To_Exec"
    by (simp add: route_of_def mux_routes_def post_def mget_def)
  then have 1: "handle_body ?e True 0 0 cx s = goto_conn 0 (C_Running cx ''x'' format_lines) s" (is "_ = ?t")
    using sample_exec [of all_exec "[''exec'']"] sample_auth [OF s(1)] by (simp add: handle_body_def handle_exec_def)
  have "sample_reaches all_exec ?t"
    using server_run_step [OF s(1) v_body, of 0 cx True 0] unfolding 1 by (simp add: s(3))
  then show ?thesis
    by (intro exI [of _ ?t] exI [of _ cx]) (simp add: runner)
qed

lemma sample_answered:
  "\<exists>s res out. sample_reaches all_exec s \<and> s_conns s 0 = C_Done (exec_timed_out res) \<and>
     runs (s_runner s) (exec_call 0) = Returned out"
proof -
  let ?e = "sample_env all_exec"
  let ?run = "sample_reaches all_exec"
  obtain t cx where t: "?run t" "s_conns t 0 = C_Running cx ''x'' format_lines" "s_runner t = new_runner"
    using sample_running by blast
  let ?out = "(timeout_result format_lines 0 False, Some Timed_Out)"
  let ?rn = "goto_pc (exec_call 0) (Returned ?out) new_runner"
  have "run_step any_json (e_run_format ?e) new_runner ?rn"
    using call_expired [of new_runner "exec_call 0" any_json "e_run_format ?e" 0] by (simp add: new_runner_def)
  then have "runner_moves ?e t ?rn"
    using t(2) by (auto simp: runner_moves_def t(3) may_run_def)
  from server_run_step [OF t(1) v_runner [OF this]] have 1: "?run (t\<lparr>s_runner := ?rn\<rparr>)" .
  let ?s = "handle_exec_end ?e 0 cx ''x'' ?out (t\<lparr>s_runner := ?rn\<rparr>)"
  have "?run ?s"
    by (rule server_run_step [OF 1 v_run_end [where fmt = format_lines]]) (simp_all add: t(2))
  then show ?thesis
    by (intro exI [of _ ?s] exI [of _ "fst ?out"] exI [of _ ?out])
       (simp add: handle_exec_end_def Let_def audit_command_def)
qed

lemma sample_session_route: "route_of (post [''session'']) = To_Session_Create"
  by (simp add: route_of_def mux_routes_def post_def mget_def)

lemma sample_creates:
  assumes run: "sample_reaches rq s" and k: "s_conns s k = C_Body cx" "rq k = post [''session'']"
  shows "\<exists>t. sample_reaches rq t \<and> (\<forall>j. j \<noteq> k \<longrightarrow> s_conns t j = s_conns s j) \<and>
    s_sessions t = fst (create_session counting_entropy True 0 (s_sessions s))"
proof -
  let ?t = "handle_body (sample_env rq) True 0 k cx s"
  have "?t = handle_session_create (sample_env rq) True 0 k s"
    by (simp add: handle_body_def k(2) sample_session_route)
  then have "s_sessions ?t = fst (create_session counting_entropy True 0 (s_sessions s)) \<and>
      (\<forall>j. j \<noteq> k \<longrightarrow> s_conns ?t j = s_conns s j)"
    by (simp add: handle_session_create_def case_prod_beta)
  then show ?thesis
    using server_run_step [OF run v_body [OF k(1), where ok = True and now = 0]] by blast
qed

text \<open>The first session.\<close>

lemma create_first:
  assumes "s_sessions s = s_sessions (sample_server rq)"
  shows "session_count (fst (create_session counting_entropy True 0 (s_sessions s))) = 1"
    "pprocs (fst (create_session counting_entropy True 0 (s_sessions s))) 0 = Alive"
  by (simp_all add: assms sample_start create_session_def new_session_manager_def random_zero_id
      start_child_proc_def Let_def agent_defaults_def default_config_def session_count_def)

end
