(* ===== verification/Server_Props.thy ===== *)
theory Server_Props
  imports Server_Sample Jobs_Spec
begin

section \<open>The token and the limits\<close>

text \<open>
  The properties of every reachable state of the server that concern who may start what, and
  how much of it: nothing runs without the token, and the configured limits hold.
\<close>

subsection \<open>Nothing runs without the token\<close>

text \<open>
  C1: Whatever executes was asked for with the token. In every state the server can reach, each
  call of the runner belongs to an authenticated connection whose body decoded to a valid
  request with that format, or to a job such a connection submitted; each pending job has the
  command of its request; each call of a session is made for an authenticated connection to
  that session's routes.
\<close>

theorem only_the_token_runs_commands:
  assumes "server_run env cfg s0 s"
  shows "(\<forall>c. runs (s_runner s) c \<noteq> Not_Called \<longrightarrow> run_traced env s c) \<and>
    (\<forall>(r, command, fmt) \<in> set (goroutines (s_jobs s)). authentic env s (s_job_conn s r) \<and>
       asks_job env s (s_job_conn s r) command fmt) \<and>
    (\<forall>c. calls (s_sessions s) c \<noteq> No_Call \<longrightarrow> use_traced env s c)"
  using server_run_traced [OF assms] by (auto simp: all_traced_def jobs_traced_def)

lemma sample_exec_runs:
  "\<exists>s. sample_reaches all_exec s \<and>
     runs (s_runner s) (exec_call 0) \<noteq> Not_Called"
proof -
  let ?e = "sample_env all_exec"
  let ?run = "sample_reaches all_exec"
  obtain t cx where t: "?run t" "s_conns t 0 = C_Running cx ''x'' format_lines" "s_runner t = new_runner"
    using sample_running by blast
  let ?rn = "goto_pc (exec_call 0) At_Check new_runner"
  have "run_step any_json (e_run_format ?e) new_runner ?rn"
    by (rule call) (simp add: new_runner_def)
  then have "runner_moves ?e t ?rn"
    using t(2) by (auto simp: runner_moves_def t(3) may_run_def)
  from server_run_step [OF t(1) v_runner [OF this]] show ?thesis
    by (intro exI [of _ "t\<lparr>s_runner := ?rn\<rparr>"]) simp
qed

theorem only_the_token_runs_commands_witness:
  "\<exists>s. runs (s_runner s) (exec_call 0) \<noteq> Not_Called \<and> run_traced (sample_env all_exec) s (exec_call 0)"
  using sample_exec_runs only_the_token_runs_commands by blast

lemma server_step_opens:
  assumes "server_step env s t" and "conns_wf env s"
  shows "next_sess (s_sessions t) = next_sess (s_sessions s) \<or> (\<exists>k. authentic env s k)"
  using assms(1)
proof (cases rule: server_step_cases)
  case (Body k cx ok now)
  then show ?thesis
    using conn_wf_auth [OF assms(2), of k] by auto
qed (simp_all add: stage_same_sessions kill_frame pool_moves_def kill_runner_def kill_sessions_def
        close_sessions_def)

definition nothing_ran :: "'ip server \<Rightarrow> bool" where
  "nothing_ran s \<longleftrightarrow> next_pid (s_runner s) = 0 \<and> next_sess (s_sessions s) = 0 \<and>
     to_end (s_sessions s) = {} \<and> (\<forall>p. pprocs (s_sessions s) p = Absent)"

lemma nothing_ran_step:
  assumes step: "server_step env s t" and inv: "components_inv env s" and traced: "all_traced env s"
    and locked: "\<And>k. \<not> authentic env s k" and idle: "nothing_ran s"
  shows "nothing_ran t"
proof -
  have t: "all_traced env t" "\<And>k. \<not> authentic env t k"
    using all_traced_step [OF step traced] locked by (simp_all add: asks_fixed [OF server_step_fixed [OF step]])
  then have calls: "\<forall>c. runs (s_runner t) c = Not_Called" "\<forall>c. calls (s_sessions t) c = No_Call"
    unfolding all_traced_def run_traced_def use_traced_def by blast+
  have "conns_wf env s"
    using traced by (simp add: all_traced_def)
  then have opens: "next_sess (s_sessions t) = 0"
    using server_step_opens [OF step] locked idle by (auto simp: nothing_ran_def)
  have "refs_wf (s_sessions s)"
    using inv by (simp add: components_inv_def pool_inv_def)
  then have "to_end (s_sessions t) = {} \<and> (\<forall>p. pprocs (s_sessions t) p = Absent)"
    using server_step_sessions [OF step] pool_step_idle [OF _ calls(2) _ opens] idle
    by (auto simp: nothing_ran_def)
  moreover have "next_pid (s_runner t) = 0"
    using server_step_runner [OF step] run_step_idle [OF _ calls(1)] idle by (auto simp: nothing_ran_def)
  ultimately show ?thesis
    using opens by (simp add: nothing_ran_def)
qed

text \<open>
  C14: As long as no request carries the token, the server starts nothing: no job, no session
  and no PowerShell process, whatever arrives and in whatever order.
\<close>

theorem nothing_runs_without_the_token:
  assumes "server_run env cfg s0 s"
    and "\<And>k. \<not> authenticate (e_sha256 env) (s_auth s0) (rq_authorization (e_request env k))"
  shows "next_job (s_jobs s) = 0 \<and> sess_map (s_sessions s) = [] \<and>
    (\<forall>p. procs (s_runner s) p = Absent) \<and> (\<forall>p. pprocs (s_sessions s) p = Absent)"
proof -
  have locked: "\<not> authentic env u k" if "fixed_parts u = fixed_parts s0" for u k
    using assms(2) by (simp add: authentic_def asks_fixed(5) [OF that])
  have "nothing_ran s \<and> all_traced env s \<and> fixed_parts s = fixed_parts s0"
    using assms(1)
  proof (induction rule: server_run_induct)
    case (new version now tok mk fs kill)
    then show ?case
      using all_traced_new [OF new]
      by (simp add: nothing_ran_def new_server_Inr(7,8) [OF new] block_runner_def new_runner_def
          new_session_manager_def)
  next
    case (step s t)
    then show ?case
      using nothing_ran_step [OF step(1,2)] all_traced_step [OF step(1)] server_step_fixed [OF step(1)] locked
      by simp
  qed
  then have s: "nothing_ran s" "all_traced env s" "\<And>k. \<not> authentic env s k"
    using locked by blast+
  have "next_job (s_jobs s) = 0"
    using s(2,3) unfolding all_traced_def jobs_traced_def by (metis gr0I)
  moreover have "\<forall>p. procs (s_runner s) p = Absent"
    using server_run_inv [OF assms(1)] s(1)
    by (simp add: components_inv_def runner_inv_def pids_wf_def nothing_ran_def)
  moreover have "\<forall>e \<in> set (sess_map (s_sessions s)). snd e < next_sess (s_sessions s)"
    using server_run_inv [OF assms(1)] by (simp add: components_inv_def pool_inv_def sess_map_wf_def)
  then have "sess_map (s_sessions s) = []"
    using s(1) by (cases "sess_map (s_sessions s)") (simp_all add: nothing_ran_def)
  ultimately show ?thesis
    using s(1) by (simp add: nothing_ran_def)
qed

theorem nothing_runs_without_the_token_witness:
  "let rq = (\<lambda>_. (post [''exec''])\<lparr>rq_authorization := []\<rparr>); env = sample_env rq
   in \<forall>p. procs (s_runner (arrive env None 0 0 (sample_server rq))) p = Absent"
  unfolding Let_def
proof (rule nothing_runs_without_the_token [THEN conjunct2, THEN conjunct2, THEN conjunct1])
  let ?rq = "\<lambda>_. (post [''exec''])\<lparr>rq_authorization := []\<rparr>"
  show "server_run (sample_env ?rq) agent_defaults (sample_server ?rq) (arrive (sample_env ?rq) None 0 0 (sample_server ?rq))"
    by (rule server_run_step [OF sample_run v_arrive]) (simp add: sample_start)
  show "\<not> authenticate (e_sha256 (sample_env ?rq)) (s_auth (sample_server ?rq))
      (rq_authorization (e_request (sample_env ?rq) k))" for k
    by (simp add: authenticate_def bearer_prefix_def has_prefix_def)
qed

subsection \<open>The configured limits\<close>

text \<open>What \<open>/health\<close> counts: the jobs of the map that run or are being cancelled, and the sessions.\<close>

definition running_ids :: "manager \<Rightarrow> string set" where
  "running_ids m = {jid. \<exists>r. mget (job_map m) jid = Some r \<and> is_active (job_of m r)}"

lemma health_counts:
  assumes "components_inv env s"
  shows "hr_active_jobs (health_report env now s) = card (running_ids (s_jobs s))"
    and "hr_open_sessions (health_report env now s) = card (dom (mget (sess_map (s_sessions s))))"
proof -
  have ok: "mok (job_map (s_jobs s))" "mok (sess_map (s_sessions s))"
    using assms by (simp_all add: components_inv_def job_inv_def job_map_wf_def pool_inv_def sess_map_wf_def)
  show "hr_active_jobs (health_report env now s) = card (running_ids (s_jobs s))"
    using card_keys [OF ok(1), of "\<lambda>r. is_active (job_of (s_jobs s) r)"]
    by (simp add: health_report_def Let_def active_count_def active_locked_def running_ids_def)
  show "hr_open_sessions (health_report env now s) = card (dom (mget (sess_map (s_sessions s))))"
    using card_keys [OF ok(2), of "\<lambda>r. True"]
    by (simp add: health_report_def Let_def session_count_def dom_def)
qed

text \<open>
  C15: The limits of the configuration hold in every reachable state: never more than
  \<open>max_async_jobs\<close> jobs running or being cancelled, never more than \<open>max_job_results\<close> jobs
  remembered, never more than \<open>max_sessions\<close> sessions. And \<open>/health\<close> tells the truth: it reports
  exactly the number of the jobs of the map that run or are being cancelled, exactly the number
  of the sessions of the map, and whether the kill-switch file is there. (The number of the jobs
  remembered is not part of its answer.)
\<close>

theorem server_limits_hold:
  assumes "server_run env cfg s0 s"
  shows "let h = health_report env now s in
    hr_active_jobs h = card (running_ids (s_jobs s)) \<and> int (hr_active_jobs h) \<le> max_async_jobs cfg \<and>
    hr_open_sessions h = card (dom (mget (sess_map (s_sessions s)))) \<and>
    int (hr_open_sessions h) \<le> max_sessions cfg \<and>
    hr_kill_switch_armed h = (s_kill s \<noteq> Stat_Missing) \<and>
    int (length (job_map (s_jobs s))) \<le> max_job_results cfg"
proof -
  have "job_bounds (s_jobs s)" "sess_map_wf (e_session_ids env) (s_sessions s)"
    using server_run_inv [OF assms] by (simp_all add: components_inv_def job_inv_def pool_inv_def)
  then have bounds: "int (hr_active_jobs (health_report env now s)) \<le> max_async_jobs cfg"
      "int (hr_open_sessions (health_report env now s)) \<le> max_sessions cfg"
      "int (length (job_map (s_jobs s))) \<le> max_job_results cfg"
    using server_run_bounds [OF assms] server_run_limits [OF assms]
    by (simp_all add: job_bounds_def sess_map_wf_def health_report_def Let_def active_count_def session_count_def)
  have "hr_kill_switch_armed (health_report env now s) = (s_kill s \<noteq> Stat_Missing)"
    by (auto simp: health_report_def Let_def kill_file_armed_def)
  then show ?thesis
    using bounds health_counts [OF server_run_inv [OF assms], of now] by (simp add: Let_def)
qed

theorem server_limits_hold_witness:
  "\<exists>s. card (dom (mget (sess_map (s_sessions s)))) = 1 \<and>
     hr_open_sessions (health_report (sample_env (\<lambda>_. post [''session''])) 0 s) = 1 \<and>
     int (hr_open_sessions (health_report (sample_env (\<lambda>_. post [''session''])) 0 s)) \<le> 5"
proof -
  let ?rq = "\<lambda>_. post [''session'']"
  obtain s cx where s: "sample_reaches ?rq s" "same_parts (sample_server ?rq) s" "s_conns s 0 = C_Body cx"
    using sample_reaches_body [OF sample_run calm_sample, where k = 0 and path = "[''session'']" and rq = ?rq]
    by (auto simp: sample_start)
  obtain t where t: "sample_reaches ?rq t"
      "s_sessions t = fst (create_session counting_entropy True 0 (s_sessions s))"
    using sample_creates [OF s(1,3)] by blast
  have one: "hr_open_sessions (health_report (sample_env ?rq) 0 t) = 1"
    using create_first(1) [of s ?rq] s(2) t(2) by (simp add: same_parts_def health_report_def Let_def)
  have five: "max_sessions agent_defaults = 5"
    by (simp add: agent_defaults_def default_config_def)
  show ?thesis
    using server_limits_hold [OF t(1), of 0, unfolded Let_def] one unfolding five by metis
qed

end
