(* ===== verification/Server_Conns.thy ===== *)
theory Server_Conns
  imports Server_Inv
begin

section \<open>What a step tells a connection\<close>

text \<open>
  The responses that carry the result of a command or confirm the kill switch, and the steps
  that can give one: every other stage leaves its connection without them.
\<close>


fun told_result :: "payload \<Rightarrow> exec_result option" where
  "told_result (Exec_Response rid result) = Some result"
| "told_result (Error_Body e) = (case er_details e of With_Execution result \<Rightarrow> Some result | _ \<Rightarrow> None)"
| "told_result _ = None"

fun armed :: "payload \<Rightarrow> bool" where
  "armed (Armed_Response n) = True"
| "armed _ = False"

text \<open>A response that tells no result and does not confirm the kill switch.\<close>

definition plain :: "response \<Rightarrow> bool" where
  "plain resp \<longleftrightarrow> told_result (rs_payload resp) = None \<and> \<not> armed (rs_payload resp)"

definition quiet :: "conn \<Rightarrow> bool" where
  "quiet c \<longleftrightarrow> \<not> kill_stage c \<and> (\<forall>resp. c = C_Done resp \<longrightarrow> plain resp)"

lemma quiet_simps [simp]:
  "quiet (C_Done resp) \<longleftrightarrow> plain resp"
  "quiet (C_Blocklist cx)" "quiet (C_Limit cx)" "quiet (C_Auth cx)" "quiet (C_Guard cx)" "quiet (C_Body cx)"
  "quiet (C_Running cx command fmt)" "quiet (C_Exec cx sid r command fmt)" "quiet (C_Restart r)"
  "quiet (C_Kill_Jobs cx)" "quiet C_Dropped"
  by (simp_all add: quiet_def)

lemma told_json [simp]: "rs_payload (write_json st p) = p"
  by (simp add: write_json_def)

lemma told_error [simp]:
  "told_result (rs_payload (write_error st code message retryable details)) =
     (case details of With_Execution result \<Rightarrow> Some result | _ \<Rightarrow> None)"
  "\<not> armed (rs_payload (write_error st code message retryable details))"
  by (simp_all add: write_error_def)

lemma plain_constants [simp]:
  "plain rate_limited" "plain (auth_failed limit count)" "plain killswitch_response"
  "plain (shell_failure e)" "plain (invalid_timeout limit)" "plain (job_limit m)"
  "plain job_start_failed" "plain job_not_found" "plain job_status_failed"
  "plain (job_not_running sn)" "plain job_cancel_failed" "plain session_not_found"
  "plain (session_limit m)" "plain (session_start_failed e)" "plain (session_exec_failed e)"
  "plain session_restart_failed" "plain invalid_ip" "plain ip_not_blocked"
  "plain killswitch_write_failed"
  by (simp_all add: plain_def rate_limited_def auth_failed_def killswitch_response_def shell_failure_def
      invalid_timeout_def job_limit_def job_start_failed_def job_not_found_def job_status_failed_def
      job_not_running_def job_cancel_failed_def session_not_found_def session_limit_def
      session_start_failed_def session_exec_failed_def session_restart_failed_def invalid_ip_def
      ip_not_blocked_def killswitch_write_failed_def)

lemma told_constants [simp]:
  "told_result (rs_payload (exec_timed_out result)) = Some result"
  "told_result (rs_payload (session_timed_out result)) = Some result"
  "told_result (rs_payload (session_process_exited result)) = Some result"
  "\<not> armed (rs_payload (exec_timed_out result))" "\<not> armed (rs_payload (session_timed_out result))"
  "\<not> armed (rs_payload (session_process_exited result))"
  by (simp_all add: exec_timed_out_def session_timed_out_def session_process_exited_def)

lemma plain_json [simp]:
  "plain (write_json st p) \<longleftrightarrow> told_result p = None \<and> \<not> armed p"
  "plain \<lparr>rs_status = st, rs_payload = p\<rparr> \<longleftrightarrow> told_result p = None \<and> \<not> armed p"
  by (simp_all add: plain_def)

lemma plain_body [simp]: "plain (body_response e)"
  by (cases e) (simp_all add: body_response_def plain_def)

lemma plain_check: "check_command command fmt = Some resp \<Longrightarrow> plain resp"
  by (auto simp: check_command_def plain_def split: if_splits)

lemma plain_decode:
  "decode_exec_request dec cfg body = Inl resp \<Longrightarrow> plain resp"
  "decode_job_request dec' cfg body = Inl resp \<Longrightarrow> plain resp"
  by (auto simp: decode_exec_request_def decode_job_request_def split: sum.splits option.splits
      dest: plain_check)

lemma middleware_quiet:
  "quiet (s_conns (arrive env random now k s) k)"
  "quiet (s_conns (check_blocklist env k cx s) k)"
  "quiet (s_conns (check_rate env now k cx s) k)"
  "quiet (s_conns (check_token env now k cx s) k)"
  "quiet (s_conns (check_killed env k cx s) k)"
  by (simp_all add: arrive_def check_blocklist_def check_rate_def check_token_def check_killed_def Let_def
      split: prod.split)

lemma job_handler_quiet:
  "quiet (s_conns (handle_job_create env now k cx s) k)"
  "quiet (s_conns (handle_job_get now k jid s) k)"
  "quiet (s_conns (handle_job_cancel env k cx jid s) k)"
  by (simp_all add: handle_job_create_def handle_job_get_def handle_job_cancel_def Let_def plain_decode
      split: sum.split prod.split)

lemma session_handler_quiet:
  "quiet (s_conns (handle_session_create env ok now k s) k)"
  "quiet (s_conns (handle_session_exec env k cx sid s) k)"
  "quiet (s_conns (handle_session_restart k sid s) k)"
  "quiet (s_conns (handle_session_info env now k sid s) k)"
  "quiet (s_conns (handle_session_delete k sid s) k)"
  by (simp_all add: handle_session_create_def handle_session_info_def handle_session_delete_def
      handle_session_exec_def handle_session_restart_def Let_def plain_decode
      split: sum.split prod.split run_error.split)

lemma other_handler_quiet:
  "quiet (s_conns (handle_exec env k cx s) k)"
  "quiet (s_conns (handle_health env now k s) k)"
  "quiet (s_conns (handle_blocklist_get k s) k)"
  "quiet (s_conns (handle_blocklist_delete env k x s) k)"
  "quiet (s_conns (handle_kill_switch ok k cx s) k)"
  by (simp_all add: handle_exec_def handle_health_def handle_blocklist_get_def handle_blocklist_delete_def
      handle_kill_switch_def plain_decode split: sum.split option.split prod.split)

lemma restart_end_quiet: "quiet (s_conns (handle_session_restart_end env now k r restarted s) k)"
  by (simp add: handle_session_restart_end_def)

lemma handle_body_quiet: "quiet (s_conns (handle_body env ok now k cx s) k)"
  unfolding handle_body_def
  by (cases "route_of (e_request env k)")
     (simp_all only: route.case, simp_all add: job_handler_quiet session_handler_quiet other_handler_quiet)

text \<open>The steps of the kill switch behind the file.\<close>

definition kill_step :: "'ip server_env \<Rightarrow> nat \<Rightarrow> 'ip server \<Rightarrow> 'ip server \<Rightarrow> bool" where
  "kill_step env k s t \<longleftrightarrow>
     (\<exists>cx n P R. s_conns s k = C_Kill_Jobs cx \<and> t = kill_jobs k cx s \<or>
        s_conns s k = C_Kill_Runner cx n \<and> t = kill_runner k cx n s \<or>
        s_conns s k = C_Kill_Wait cx n P \<and> (\<forall>p \<in> P. procs (s_runner s) p \<noteq> Alive) \<and>
          t = goto_conn k (C_Kill_Sessions cx n) s \<or>
        s_conns s k = C_Kill_Sessions cx n \<and> t = kill_sessions k cx n s \<or>
        s_conns s k = C_Kill_End cx n R \<and> t = kill_finish env k cx n s)"

text \<open>
  A connection that a step moves is told no result and no success of the kill switch, unless
  a command of its own ended or it is arming the switch.
\<close>

lemma server_step_conns:
  assumes "server_step env s t"
  obtains (Quiet) "\<forall>j. s_conns t j = s_conns s j \<or> quiet (s_conns t j)"
  | (Run_End) k cx command fmt out where "s_conns s k = C_Running cx command fmt"
      "t = handle_exec_end env k cx command out s"
  | (Exec_End) k cx sid r command fmt out where "s_conns s k = C_Exec cx sid r command fmt"
      "t = handle_session_exec_end env k cx sid command out s"
  | (Kill) k where "kill_stage (s_conns t k) \<or> (\<exists>n. s_conns t k = C_Done (write_json 200 (Armed_Response n)))"
      "\<forall>j. j \<noteq> k \<longrightarrow> s_conns t j = s_conns s j" "kill_step env k s t"
proof -
  have staged: thesis if "t = u" "stage k jm pm s u" "quiet (s_conns u k)" for u k jm pm
    using that stage_others [OF that(2)] by (intro Quiet) metis
  have same: thesis if "s_conns t = s_conns s"
    using that by (intro Quiet) simp
  from assms show thesis
  proof cases
    case (v_run_end k cx command fmt out)
    then show thesis by (intro Run_End)
  next
    case (v_exec_end k cx sid r command fmt out)
    then show thesis by (intro Exec_End)
  next
    case (v_arrive k random now)
    show thesis by (rule staged [OF v_arrive(1) arrive_stage middleware_quiet(1)])
  next
    case (v_blocklist k cx)
    show thesis by (rule staged [OF v_blocklist(1) check_blocklist_stage middleware_quiet(2)])
  next
    case (v_rate k cx now)
    show thesis by (rule staged [OF v_rate(1) check_rate_stage middleware_quiet(3)])
  next
    case (v_token k cx now)
    show thesis by (rule staged [OF v_token(1) check_token_stage middleware_quiet(4)])
  next
    case (v_guard k cx)
    show thesis by (rule staged [OF v_guard(1) check_killed_stage middleware_quiet(5)])
  next
    case (v_body k cx ok now)
    show thesis by (rule staged [OF v_body(1) handle_body_stage handle_body_quiet])
  next
    case (v_restart_end k r restarted now)
    show thesis by (rule staged [OF v_restart_end(1) handle_session_restart_end_stage restart_end_quiet])
  next
    case (v_kill_jobs k cx)
    then show thesis
      by (intro Kill [of k]) (auto simp: kill_jobs_def kill_step_def split: prod.split)
  next
    case (v_kill_runner k cx n)
    then show thesis
      by (intro Kill [of k]) (auto simp: kill_runner_def kill_step_def)
  next
    case (v_kill_wait k cx n P)
    then show thesis
      by (intro Kill [of k]) (auto simp: kill_step_def)
  next
    case (v_kill_sessions k cx n)
    then show thesis
      by (intro Kill [of k]) (auto simp: kill_sessions_def kill_step_def)
  next
    case (v_kill_end k cx n R)
    then show thesis
      by (intro Kill [of k]) (auto simp: kill_finish_def kill_step_def)
  qed (rule same, simp add: close_sessions_def)+
qed

end
