(* ===== verification/Server_Audit.thy ===== *)
theory Server_Audit
  imports Server_Sample Server_Conns
begin

section \<open>What the server executes is in the audit log\<close>

text \<open>
  How a step changes the audit events and the disk, and the property that follows: a client is
  told the result of a command only after an event with that result was handed to the audit
  log, and an event whose write was acknowledged stays on disk.
\<close>

subsection \<open>Acknowledged events are on disk\<close>

abbreviation event_text :: "timestamp \<Rightarrow> audit_event \<Rightarrow> string" where
  "event_text now e \<equiv> event_line (stamp_event now e) @ [CHR 0x0A]"

definition events_kept :: "'ip server_env \<Rightarrow> 'ip server \<Rightarrow> bool" where
  "events_kept env s \<longleftrightarrow>
     (\<forall>(e, now, err) \<in> set (s_events s). err = None \<longrightarrow>
        kept (e_archives env) (s_audit s) (s_disk s) (event_text now e))"

lemma events_kept_updates [simp]:
  "events_kept env (t\<lparr>s_conns := f\<rparr>) = events_kept env t"
  "events_kept env (t\<lparr>s_jobs := m\<rparr>) = events_kept env t"
  "events_kept env (t\<lparr>s_job_conn := g\<rparr>) = events_kept env t"
  "events_kept env (t\<lparr>s_sessions := pl\<rparr>) = events_kept env t"
  "events_kept env (t\<lparr>s_blocklist := b\<rparr>) = events_kept env t"
  "events_kept env (t\<lparr>s_limiter := l\<rparr>) = events_kept env t"
  "events_kept env (t\<lparr>s_kill := a\<rparr>) = events_kept env t"
  "events_kept env (t\<lparr>s_runner := rn\<rparr>) = events_kept env t"
  "events_kept env (t\<lparr>s_shutdown := sd\<rparr>) = events_kept env t"
  "events_kept env (t\<lparr>s_reaper_stopped := rs\<rparr>) = events_kept env t"
  by (simp_all add: events_kept_def)

definition log_grows :: "'ip server_env \<Rightarrow> 'ip server \<Rightarrow> 'ip server \<Rightarrow> bool" where
  "log_grows env s t \<longleftrightarrow> s_audit t = s_audit s \<and> (\<exists>es. s_events t = s_events s @ es) \<and>
     (events_kept env s \<longrightarrow> events_kept env t)"

named_theorems log_rules \<open>how the log grows\<close>

lemma log_refl [log_rules]: "log_grows env s s"
  by (simp add: log_grows_def)

lemma log_updates [log_rules]:
  "log_grows env s t \<Longrightarrow> log_grows env s (t\<lparr>s_conns := f\<rparr>)"
  "log_grows env s t \<Longrightarrow> log_grows env s (t\<lparr>s_jobs := m\<rparr>)"
  "log_grows env s t \<Longrightarrow> log_grows env s (t\<lparr>s_job_conn := g\<rparr>)"
  "log_grows env s t \<Longrightarrow> log_grows env s (t\<lparr>s_sessions := pl\<rparr>)"
  "log_grows env s t \<Longrightarrow> log_grows env s (t\<lparr>s_blocklist := b\<rparr>)"
  "log_grows env s t \<Longrightarrow> log_grows env s (t\<lparr>s_limiter := l\<rparr>)"
  "log_grows env s t \<Longrightarrow> log_grows env s (t\<lparr>s_kill := a\<rparr>)"
  "log_grows env s t \<Longrightarrow> log_grows env s (t\<lparr>s_runner := rn\<rparr>)"
  "log_grows env s t \<Longrightarrow> log_grows env s (t\<lparr>s_shutdown := sd\<rparr>)"
  "log_grows env s t \<Longrightarrow> log_grows env s (t\<lparr>s_reaper_stopped := rs\<rparr>)"
  by (simp_all add: log_grows_def)

lemma put_audit_kept: "events_kept env s \<Longrightarrow> events_kept env (put_audit env e s)"
proof -
  assume old: "events_kept env s"
  let ?au = "e_audit env (length (s_events s))"
  obtain fs err where w: "audit_write (e_archives env) ?au (s_audit s) e (s_disk s) = (fs, err)"
    by fastforce
  have "kept (e_archives env) (s_audit s) fs (event_text (au_now ?au) e)" if "err = None"
    using audit_write_ok [OF w [unfolded that]] by (auto simp: kept_def log_content_def)
  moreover have "kept (e_archives env) (s_audit s) fs (event_text now e')"
    if "(e', now, None) \<in> set (s_events s)" for e' now
    using old that by (intro audit_write_kept [OF w]) (auto simp: events_kept_def)
  ultimately show ?thesis
    using w by (auto simp: events_kept_def put_audit_def Let_def)
qed

lemma log_audit [log_rules]: "log_grows env s t \<Longrightarrow> log_grows env s (put_audit env e t)"
  using put_audit_events [of env e t] put_audit_kept [of env t e] by (auto simp: log_grows_def)

lemma log_command [log_rules]:
  "log_grows env s t \<Longrightarrow> log_grows env s (audit_command env cx mode sid command result t)"
  by (simp add: audit_command_def log_rules)

lemma middleware_log:
  "log_grows env s (arrive env random now k s)"
  "log_grows env s (check_blocklist env k cx s)"
  "log_grows env s (check_rate env now k cx s)"
  "log_grows env s (check_token env now k cx s)"
  "log_grows env s (check_killed env k cx s)"
  by (simp_all add: arrive_def check_blocklist_def check_rate_def check_token_def check_killed_def
      log_rules Let_def split: prod.split)

lemma job_handler_log:
  "log_grows env s (handle_job_create env now k cx s)"
  "log_grows env s (handle_job_get now k jid s)"
  "log_grows env s (handle_job_cancel env k cx jid s)"
  by (cases rule: handle_job_create_cases [of env now k cx s]; simp add: log_rules)
     (simp_all add: handle_job_get_def handle_job_cancel_def log_rules Let_def split: prod.split)

lemma session_handler_log:
  "log_grows env s (handle_session_create env ok now k s)"
  "log_grows env s (handle_session_exec env k cx sid s)"
  "log_grows env s (handle_session_restart k sid s)"
  "log_grows env s (handle_session_info env now k sid s)"
  "log_grows env s (handle_session_delete k sid s)"
  by (simp_all only: handle_session_create_def handle_session_info_def handle_session_delete_def case_prod_beta)
     (simp_all add: handle_session_exec_def handle_session_restart_def log_rules split: sum.split)

lemma other_handler_log:
  "log_grows env s (handle_exec env k cx s)"
  "log_grows env s (handle_health env now k s)"
  "log_grows env s (handle_blocklist_get k s)"
  "log_grows env s (handle_blocklist_delete env k x s)"
  "log_grows env s (handle_kill_switch ok k cx s)"
  by (simp_all add: handle_exec_def handle_health_def handle_blocklist_get_def handle_blocklist_delete_def
      handle_kill_switch_def log_rules split: sum.split option.split prod.split)

lemma end_log:
  "log_grows env s (handle_exec_end env k cx command out s)"
  "log_grows env s (handle_session_exec_end env k cx sid command out s)"
  "log_grows env s (handle_session_restart_end env now k r restarted s)"
  "log_grows env s (kill_jobs k cx s)" "log_grows env s (kill_runner k cx n s)"
  "log_grows env s (kill_sessions k cx n s)" "log_grows env s (kill_finish env k cx n s)"
  by (simp_all only: handle_exec_end_def handle_session_exec_end_def handle_session_restart_end_def
        Let_def case_prod_beta kill_jobs_def)
     (simp_all add: kill_runner_def kill_sessions_def kill_finish_def log_rules)

lemma handle_body_log: "log_grows env s (handle_body env ok now k cx s)"
  unfolding handle_body_def
  by (cases "route_of (e_request env k)")
     (simp_all only: route.case, simp_all add: job_handler_log session_handler_log other_handler_log log_rules)

lemma server_step_log: "server_step env s t \<Longrightarrow> log_grows env s t"
  by (induction rule: server_step.induct)
     (simp_all add: middleware_log handle_body_log end_log log_rules close_sessions_def)

subsection \<open>Who is told the result of a command\<close>

text \<open>
  The event behind a result: it names the command of that connection's request, where it ran,
  the result, and the identifier the response carries.
\<close>

definition told_audited :: "'ip server_env \<Rightarrow> 'ip server \<Rightarrow> nat \<Rightarrow> response \<Rightarrow> exec_result \<Rightarrow> bool" where
  "told_audited env s k resp res \<longleftrightarrow>
     (\<exists>cx mode sid command fmt now err.
        asks_exec env s k command fmt \<and>
        (mode = exec_mode \<and> sid = [] \<and> route_of (e_request env k) = To_Exec \<or>
         mode = session_mode \<and> route_of (e_request env k) = To_Session_Exec sid) \<and>
        (command_event cx (fingerprint (s_auth s)) mode sid command res, now, err) \<in> set (s_events s) \<and>
        (\<forall>rid. rs_payload resp = Exec_Response rid res \<longrightarrow> request_id cx = rid))"

lemma told_audited_mono:
  assumes "fixed_parts t = fixed_parts s" and "\<exists>es. s_events t = s_events s @ es"
    and "told_audited env s k resp res"
  shows "told_audited env t k resp res"
  using assms(2,3) unfolding told_audited_def asks_fixed [OF assms(1)] by (metis UnI1 set_append)

lemma response_id:
  "rs_payload (write_json st (Exec_Response rid res)) = Exec_Response rid' res' \<longleftrightarrow> rid = rid' \<and> res = res'"
  "rs_payload (write_error st code message retryable details) \<noteq> Exec_Response rid' res'"
  by (simp_all add: write_error_def write_json_def)

lemma exec_end_told:
  assumes "asks_exec env s k command fmt" and "route_of (e_request env k) = To_Exec"
    and "s_conns (handle_exec_end env k cx command out s) k = C_Done resp"
    and "told_result (rs_payload resp) = Some res"
  shows "told_audited env (handle_exec_end env k cx command out s) k resp res"
proof -
  let ?t = "handle_exec_end env k cx command out s"
  obtain result err where out: "out = (result, err)" by fastforce
  note same = asks_fixed [OF stage_fixed [OF handle_exec_end_stage]]
  have resp: "res = result" "\<forall>rid. rs_payload resp = Exec_Response rid res \<longrightarrow> request_id cx = rid"
    using assms(3,4) by (auto simp: handle_exec_end_def out Let_def response_id exec_timed_out_def
        killswitch_response_def shell_failure_def split: if_splits option.splits)
  have "\<exists>now err. s_events ?t = s_events s @
      [(command_event cx (fingerprint (s_auth s)) exec_mode [] command result, now, err)]"
    using put_audit_events [of env _ s] by (simp add: handle_exec_end_def out Let_def audit_command_def)
  then show ?thesis
    using assms(1,2) resp unfolding told_audited_def same by fastforce
qed

lemma session_exec_end_told:
  assumes "asks_exec env s k command fmt" and "route_of (e_request env k) = To_Session_Exec sid"
    and "s_conns (handle_session_exec_end env k cx sid command out s) k = C_Done resp"
    and "told_result (rs_payload resp) = Some res"
  shows "told_audited env (handle_session_exec_end env k cx sid command out s) k resp res"
proof -
  let ?t = "handle_session_exec_end env k cx sid command out s"
  obtain result err where out: "out = (result, err)" by fastforce
  note same = asks_fixed [OF stage_fixed [OF handle_session_exec_end_stage]]
  have resp: "res = result" "\<forall>rid. rs_payload resp = Exec_Response rid res \<longrightarrow> request_id cx = rid"
    using assms(3,4) by (auto simp: handle_session_exec_end_def out Let_def response_id session_timed_out_def
        session_process_exited_def session_exec_failed_def split: option.splits run_error.splits)
  have "\<exists>now err. s_events ?t = s_events s @
      [(command_event cx (fingerprint (s_auth s)) session_mode sid command result, now, err)]"
    using put_audit_events [of env _ s] by (simp add: handle_session_exec_end_def out Let_def audit_command_def)
  then show ?thesis
    using assms(1,2) resp unfolding told_audited_def same by fastforce
qed

definition results_audited :: "'ip server_env \<Rightarrow> 'ip server \<Rightarrow> bool" where
  "results_audited env s \<longleftrightarrow>
     (\<forall>k resp res. s_conns s k = C_Done resp \<longrightarrow> told_result (rs_payload resp) = Some res \<longrightarrow>
        told_audited env s k resp res)"

lemma results_audited_step:
  assumes step: "server_step env s t" and wf: "conns_wf env s" and old: "results_audited env s"
  shows "results_audited env t"
  unfolding results_audited_def
proof (intro allI impI)
  fix k resp res
  assume settled: "s_conns t k = C_Done resp" and told: "told_result (rs_payload resp) = Some res"
  have mono: "told_audited env s k resp res \<Longrightarrow> told_audited env t k resp res"
    using server_step_log [OF step] by (intro told_audited_mono [OF server_step_fixed [OF step]]) (auto simp: log_grows_def)
  have same: "told_audited env t k resp res" if "s_conns t k = s_conns s k"
    using that settled told old mono by (simp add: results_audited_def)
  have wf': "conn_wf env s k"
    using wf by (simp add: conns_wf_def)
  from step show "told_audited env t k resp res"
  proof (cases rule: server_step_conns)
    case Quiet
    then show ?thesis
      using same settled told by (metis option.distinct(1) plain_def quiet_simps(1))
  next
    case (Run_End j cx command fmt out)
    show ?thesis
    proof (cases "j = k")
      case True
      then show ?thesis
        using exec_end_told [of env s k command fmt cx out resp res] wf' Run_End settled told by (simp add: conn_wf_def)
    next
      case False
      have "s_conns t k = s_conns s k"
        unfolding Run_End(2) by (rule stage_others [OF handle_exec_end_stage]) (use False in simp)
      then show ?thesis by (rule same)
    qed
  next
    case (Exec_End j cx sid r command fmt out)
    show ?thesis
    proof (cases "j = k")
      case True
      then show ?thesis
        using session_exec_end_told [of env s k command fmt sid cx out resp res] wf' Exec_End settled told
        by (simp add: conn_wf_def)
    next
      case False
      have "s_conns t k = s_conns s k"
        unfolding Exec_End(2) by (rule stage_others [OF handle_session_exec_end_stage]) (use False in simp)
      then show ?thesis by (rule same)
    qed
  next
    case (Kill j)
    then show ?thesis
      using same settled told by (cases "j = k") auto
  qed
qed

subsection \<open>The results of jobs\<close>

text \<open>Every call of \<open>onDone\<close> so far put the event of that job and that snapshot into the log.\<close>

definition reports_logged :: "'ip server_env \<Rightarrow> 'ip server \<Rightarrow> bool" where
  "reports_logged env s \<longleftrightarrow>
     (\<forall>(r, sn) \<in> set (notified (s_jobs s)). r < next_job (s_jobs s) \<and>
        (\<exists>now err. (job_done_event env (s_job_conn s r) sn s, now, err) \<in> set (s_events s)))"

lemma submit_reports:
  "notified (fst (submit entropy command fmt timeout cb now m)) = notified m"
  by (auto simp: submit_def Let_def prune_expired_def prune_capacity_def split: option.split)

lemma job_ops_reports:
  "notified (fst (get_job jid now m)) = notified m"
  "notified (fst (cancel_job jid reason m)) = notified m"
  "notified (fst (block_and_cancel_all reason m)) = notified m"
  "notified (close_manager m) = notified m" "notified (finish_run r out now m) = notified m"
  by (auto simp: get_job_def cancel_job_def prune_expired_def block_and_cancel_all_eq cancel_all_def
      close_manager_def finish_run_def Let_def case_prod_beta split: option.split)

lemma handle_body_reports:
  "notified (s_jobs (handle_body env ok now k cx s)) = notified (s_jobs s)"
proof (cases "job_route (route_of (e_request env k))")
  case False
  then show ?thesis
    using handle_body_stage [of k env s ok now cx] by (simp add: stage_same_jobs)
next
  case True
  have "notified (s_jobs (handle_job_create env now k cx s)) = notified (s_jobs s)"
  proof (cases rule: handle_job_create_cases [of env now k cx s])
    case (Refused q m sn err resp)
    then show ?thesis
      using submit_reports by (simp add: submit_request_def) (metis fst_conv)
  next
    case (Accepted q m sn)
    then show ?thesis
      using submit_reports by (simp add: submit_request_def) (metis fst_conv)
  qed simp
  moreover have "notified (s_jobs (handle_job_get now k jid s)) = notified (s_jobs s)" for jid
    using job_ops_reports(1) [of jid now "s_jobs s"] by (simp add: handle_job_get_def case_prod_beta)
  moreover have "notified (s_jobs (handle_job_cancel env k cx jid s)) = notified (s_jobs s)" for jid
    using job_ops_reports(2) [of jid operator_reason "s_jobs s"]
    by (simp add: handle_job_cancel_def Let_def case_prod_beta)
  ultimately show ?thesis
    using True by (auto simp: job_route_def handle_body_def)
qed

lemma server_step_reports:
  assumes "server_step env s t"
  obtains (Same) "notified (s_jobs t) = notified (s_jobs s)"
  | (Done) r sn where "mget (unreported (s_jobs s)) r = Some sn"
      "notified (s_jobs t) = notified (s_jobs s) @ [(r, sn)]"
      "t = put_audit env (job_done_event env (s_job_conn s r) sn s) (s\<lparr>s_jobs := call_done r (s_jobs s)\<rparr>)"
  using assms
proof (cases rule: server_step_cases)
  case (Job_Done r sn)
  then show ?thesis by (intro Done [OF Job_Done(1) _ Job_Done(2)]) (simp add: call_done_def)
next
  case (Body k cx ok now)
  then show ?thesis by (intro Same) (simp add: handle_body_reports)
next
  case (Kill_Jobs k cx)
  then show ?thesis by (intro Same) (simp add: kill_jobs_def job_ops_reports case_prod_beta)
qed (rule Same, simp add: stage_same_jobs kill_frame kill_runner_def close_sessions_def job_ops_reports)+

lemma job_done_event_fixed:
  "fixed_parts t = fixed_parts s \<Longrightarrow> job_done_event env k sn t = job_done_event env k sn s"
  by (simp add: job_done_event_def fixed_parts_def)

lemma server_step_notified:
  assumes "server_step env s t" and "components_inv env s" and "notified_wf (s_jobs s)"
  shows "notified_wf (s_jobs t)"
proof -
  have "job_live_wf (s_jobs s)"
    using assms(2) by (simp add: components_inv_def job_inv_def)
  then show ?thesis
    using server_step_jobs [OF assms(1)] job_step_notified assms(3) by metis
qed

lemma unreported_below: "notified_wf m \<Longrightarrow> mget (unreported m) r = Some sn \<Longrightarrow> r < next_job m"
  using one_report(1) [of m r sn] by (auto simp: notified_wf_def reports_def split: if_splits)

lemma reports_logged_step:
  assumes step: "server_step env s t" and wf: "conns_wf env s" "notified_wf (s_jobs s)"
    and old: "reports_logged env s"
  shows "reports_logged env t"
proof -
  note stable = job_conn_step [OF step wf(1)]
  note same = job_done_event_fixed [OF server_step_fixed [OF step], of env]
  obtain es where es: "s_events t = s_events s @ es"
    using server_step_log [OF step] by (auto simp: log_grows_def)
  have keep: "r < next_job (s_jobs t) \<and>
      (\<exists>now err. (job_done_event env (s_job_conn t r) sn t, now, err) \<in> set (s_events t))"
    if "(r, sn) \<in> set (notified (s_jobs s))" for r sn
  proof -
    have "r < next_job (s_jobs s) \<and>
        (\<exists>now err. (job_done_event env (s_job_conn s r) sn s, now, err) \<in> set (s_events s))"
      using old that by (auto simp: reports_logged_def)
    then show ?thesis
      using stable [of r] by (auto simp: same es)
  qed
  from step show ?thesis
  proof (cases rule: server_step_reports)
    case Same
    then show ?thesis
      using keep by (auto simp: reports_logged_def)
  next
    case (Done r sn)
    have below: "r < next_job (s_jobs s)"
      using unreported_below [OF wf(2) Done(1)] .
    have "\<exists>now err. (job_done_event env (s_job_conn s r) sn s, now, err) \<in> set (s_events t)"
      using put_audit_events [of env "job_done_event env (s_job_conn s r) sn s"
          "s\<lparr>s_jobs := call_done r (s_jobs s)\<rparr>"] unfolding Done(3) by fastforce
    then show ?thesis
      using keep stable [OF below] by (auto simp: reports_logged_def Done(2) same)
  qed
qed

text \<open>
  C3: No command without its audit event. In every reachable state: a client that has been
  answered with the result of a command by \<open>POST /exec\<close> or by the execution in a session (also
  one that timed out or killed its process) was answered after \<open>Write\<close> had been called with an
  event that names the command of that client's request, the token's fingerprint and exactly
  that result, with the request identifier of the response; every call of a job's \<open>onDone\<close> so far
  called \<open>Write\<close> with the event of that job's final snapshot, under the address of the
  connection that submitted it; and every event whose \<open>Write\<close> returned nil is on disk, in the
  log or in an archive. (The error of a failed \<open>Write\<close> goes to the agent's log only. The result
  of a job can be read before its \<open>onDone\<close> is called.)
\<close>

theorem commands_are_audited:
  assumes "server_run env cfg s0 s"
  shows "(\<forall>k resp res. s_conns s k = C_Done resp \<longrightarrow> told_result (rs_payload resp) = Some res \<longrightarrow>
       told_audited env s k resp res) \<and>
    (\<forall>(r, sn) \<in> set (notified (s_jobs s)).
       \<exists>now err. (job_done_event env (s_job_conn s r) sn s, now, err) \<in> set (s_events s)) \<and>
    (\<forall>(e, now, err) \<in> set (s_events s). err = None \<longrightarrow>
       kept (e_archives env) (s_audit s) (s_disk s) (event_line (stamp_event now e) @ [CHR 0x0A]))"
proof -
  have "results_audited env s \<and> events_kept env s \<and> all_traced env s \<and> notified_wf (s_jobs s) \<and>
    reports_logged env s"
    using assms
  proof (induction rule: server_run_induct)
    case (new version now tok mk fs kill)
    then show ?case
      using all_traced_new [OF new]
      by (simp add: results_audited_def events_kept_def new_server_Inr [OF new] Let_def block_and_cancel_all_eq
          cancel_all_def new_manager_def notified_wf_def reports_def reports_logged_def)
  next
    case (step s t)
    then show ?case
      using results_audited_step [OF step(1)] server_step_log [OF step(1)] all_traced_step [OF step(1)]
        server_step_notified [OF step(1,2)] reports_logged_step [OF step(1)]
      by (simp add: all_traced_def log_grows_def)
  qed
  then show ?thesis
    by (auto simp: results_audited_def events_kept_def reports_logged_def)
qed

lemma sample_told:
  "\<exists>s resp res. sample_reaches all_exec s \<and>
     s_conns s 0 = C_Done resp \<and> told_result (rs_payload resp) = Some res"
  using sample_answered by fastforce

theorem commands_are_audited_witness:
  "\<exists>s resp res. told_result (rs_payload resp) = Some res \<and>
     told_audited (sample_env all_exec) s 0 resp res"
  using sample_told commands_are_audited by blast

end
