(* ===== verification/Server_Kill.thy ===== *)
theory Server_Kill
  imports Server_Sample Server_Conns
begin

section \<open>What the confirmation of the kill switch means\<close>

text \<open>
  The stages of \<open>handleKillSwitch\<close> establish, one after the other, that no job runs, that the
  runner is blocked and that no process it fed a command is alive; all of this is stable. The
  sessions are closed as well, but their manager is not blocked: what this leaves open is
  shown too.
\<close>

subsection \<open>What each stage has established\<close>

definition stopped :: "'ip server \<Rightarrow> bool" where
  "stopped s \<longleftrightarrow> jobs_blocked (s_jobs s) \<and> silenced (s_runner s)"

definition kill_wf :: "'ip server \<Rightarrow> conn \<Rightarrow> bool" where
  "kill_wf s c \<longleftrightarrow>
     (case c of
        C_Kill_Runner cx n \<Rightarrow> jobs_blocked (s_jobs s)
      | C_Kill_Wait cx n P \<Rightarrow>
          jobs_blocked (s_jobs s) \<and> run_blocked (s_runner s) \<and> active (s_runner s) \<subseteq> P
      | C_Kill_Sessions cx n \<Rightarrow> stopped s
      | C_Kill_End cx n R \<Rightarrow> stopped s
      | C_Done resp \<Rightarrow> armed (rs_payload resp) \<longrightarrow> stopped s
      | _ \<Rightarrow> True)"

lemma run_step_active: "run_step js fmt s t \<Longrightarrow> run_blocked s \<Longrightarrow> active t \<subseteq> active s"
  by (erule run_stepE) (auto simp: kill_proc_def)

lemma stopped_step:
  assumes "server_step env s t" and "components_inv env s" and "stopped s"
  shows "stopped t \<and> fed (s_runner t) = fed (s_runner s)"
proof -
  have "silenced (s_runner t) \<and> fed (s_runner t) = fed (s_runner s)"
    using server_step_runner [OF assms(1)] silenced_step assms(2,3)
    by (auto simp: stopped_def components_inv_def runner_inv_def)
  then show ?thesis
    using server_step_blocked(1) [OF assms(1)] assms(3) by (simp add: stopped_def)
qed

text \<open>It is not lost by a step, wherever the step comes from.\<close>

lemma kill_wf_keeps:
  assumes "server_step env s t" and "components_inv env s" and "kill_wf s c"
  shows "kill_wf t c"
proof -
  have "active (s_runner t) \<subseteq> active (s_runner s)" if "run_blocked (s_runner s)"
    using server_step_runner [OF assms(1)] by (elim disjE) (simp, rule run_step_active [OF _ that])
  then show ?thesis
    using assms(3) stopped_step [OF assms(1,2)] server_step_blocked [OF assms(1)]
    by (cases c) (auto simp: kill_wf_def)
qed

lemma kill_wf_quiet: "quiet c \<Longrightarrow> kill_wf s c"
  by (cases c) (simp_all add: kill_wf_def quiet_def plain_def)

text \<open>Each stage of the switch establishes its part.\<close>

lemma kill_wf_kill:
  assumes "kill_step env k s t" and "components_inv env s" and "kill_wf s (s_conns s k)"
  shows "kill_wf t (s_conns t k)"
proof -
  from assms(1) consider
      (Jobs) cx where "t = kill_jobs k cx s"
    | (Runner) cx n where "s_conns s k = C_Kill_Runner cx n" "t = kill_runner k cx n s"
    | (Wait) cx n P where "s_conns s k = C_Kill_Wait cx n P" "\<forall>p \<in> P. procs (s_runner s) p \<noteq> Alive"
        "t = goto_conn k (C_Kill_Sessions cx n) s"
    | (Sessions) cx n where "s_conns s k = C_Kill_Sessions cx n" "t = kill_sessions k cx n s"
    | (End) cx n R where "s_conns s k = C_Kill_End cx n R" "t = kill_finish env k cx n s"
    unfolding kill_step_def by blast
  then show ?thesis
  proof cases
    case (Jobs cx)
    then show ?thesis
      by (simp add: kill_wf_def kill_jobs_def block_and_cancel_all_eq case_prod_beta)
  next
    case (Runner cx n)
    then show ?thesis
      using assms(3) by (simp add: kill_wf_def kill_runner_def block_runner_def)
  next
    case (Wait cx n P)
    then show ?thesis
      using assms(3) by (auto simp: kill_wf_def stopped_def silenced_def)
  next
    case (Sessions cx n)
    then show ?thesis
      using assms(3) by (simp add: kill_wf_def kill_sessions_def stopped_def)
  next
    case (End cx n R)
    then show ?thesis
      using assms(3) by (simp add: kill_wf_def kill_finish_def stopped_def)
  qed
qed

definition kills_wf :: "'ip server \<Rightarrow> bool" where
  "kills_wf s \<longleftrightarrow> (\<forall>k. kill_wf s (s_conns s k))"

lemma exec_end_not_armed:
  "s_conns (handle_exec_end env k cx command out s) k = C_Done resp \<Longrightarrow> \<not> armed (rs_payload resp)"
  by (auto simp: handle_exec_end_def Let_def killswitch_response_def shell_failure_def
      split: prod.splits if_splits option.splits)

lemma session_end_not_armed:
  "s_conns (handle_session_exec_end env k cx sid command out s) k = C_Done resp \<Longrightarrow> \<not> armed (rs_payload resp)"
  by (auto simp: handle_session_exec_end_def Let_def session_exec_failed_def
      split: prod.splits option.splits run_error.splits)

lemma kill_wf_unarmed: "c \<in> range C_Done \<Longrightarrow> (\<And>resp. c = C_Done resp \<Longrightarrow> \<not> armed (rs_payload resp)) \<Longrightarrow> kill_wf s c"
  by (auto simp: kill_wf_def)

lemma kills_wf_step:
  assumes step: "server_step env s t" and inv: "components_inv env s" and wf: "kills_wf s"
  shows "kills_wf t"
  unfolding kills_wf_def
proof
  fix k
  have same: "kill_wf t (s_conns t k)" if "s_conns t k = s_conns s k"
    using wf that kill_wf_keeps [OF step inv] by (simp add: kills_wf_def)
  from step show "kill_wf t (s_conns t k)"
  proof (cases rule: server_step_conns)
    case Quiet
    then show ?thesis using same kill_wf_quiet by metis
  next
    case (Run_End j cx command fmt out)
    show ?thesis
    proof (cases "j = k")
      case True
      show ?thesis
        unfolding Run_End(2) True by (intro kill_wf_unarmed [OF end_conns(1)] exec_end_not_armed)
    next
      case False
      have "s_conns t k = s_conns s k"
        unfolding Run_End(2) by (rule stage_others [OF handle_exec_end_stage]) (use False in simp)
      then show ?thesis by (rule same)
    qed
  next
    case (Exec_End j cx sid r command fmt out)
    show ?thesis
    proof (cases "j = k")
      case True
      show ?thesis
        unfolding Exec_End(2) True by (intro kill_wf_unarmed [OF end_conns(2)] session_end_not_armed)
    next
      case False
      have "s_conns t k = s_conns s k"
        unfolding Exec_End(2) by (rule stage_others [OF handle_session_exec_end_stage]) (use False in simp)
      then show ?thesis by (rule same)
    qed
  next
    case (Kill j)
    then show ?thesis
      using same kill_wf_kill [OF Kill(3) inv] wf by (cases "j = k") (auto simp: kills_wf_def)
  qed
qed

lemma server_run_kills: "server_run env cfg s0 s \<Longrightarrow> kills_wf s"
  by (induction rule: server_run_induct)
     (simp add: kills_wf_def kill_wf_def new_server_Inr, rule kills_wf_step)

subsection \<open>The kill switch is final\<close>

lemma blocked_next: "jobs_blocked m \<Longrightarrow> next_job (job_step entropy m x) = next_job m"
  by (cases x) (simp_all add: job_step_def submit_def Let_def cancel_all_def block_and_cancel_all_def
      close_manager_def case_prod_beta split: option.split)

lemma stopped_jobs:
  "server_step env s t \<Longrightarrow> stopped s \<Longrightarrow> next_job (s_jobs t) = next_job (s_jobs s)"
  using server_step_jobs [of env s t] blocked_next by (auto simp: stopped_def)

text \<open>
  C2: The kill switch keeps its promise. Once a client has been told that it is armed, then in
  every later state and whatever requests arrive or are still in flight: no job is running and
  none is ever added; the runner never feeds a command to a process again; no process of the
  runner that it fed one is alive; and any process of the runner that is alive belongs to a call
  that has just started it and is about to register it, or about to kill it, before it would be
  given its command. Sessions are not covered: see \<open>session_survives_the_kill_switch\<close>.
\<close>

theorem armed_means_stopped:
  assumes "server_run env cfg s0 s" and "s_conns s k = C_Done (write_json 200 (Armed_Response n))"
    and "(server_step env)\<^sup>*\<^sup>* s t"
  shows "(\<forall>r < next_job (s_jobs t). status (job_of (s_jobs t) r) \<noteq> Running) \<and>
    next_job (s_jobs t) = next_job (s_jobs s) \<and> fed (s_runner t) = fed (s_runner s) \<and>
    (\<forall>p \<in> fed (s_runner t). procs (s_runner t) p \<noteq> Alive) \<and>
    (\<forall>p. procs (s_runner t) p = Alive \<longrightarrow>
       (\<exists>c. runs (s_runner t) c = At_Register p \<or> runs (s_runner t) c = At_Doomed p))"
proof -
  have "kill_wf s (s_conns s k)"
    using server_run_kills [OF assms(1)] by (simp add: kills_wf_def)
  then have s: "stopped s"
    by (simp add: assms(2) kill_wf_def)
  have t: "stopped t \<and> fed (s_runner t) = fed (s_runner s) \<and> next_job (s_jobs t) = next_job (s_jobs s)"
    using assms(3) server_run_inv [OF assms(1)]
    by (rule sv.steps_stable [where Q = "\<lambda>u. stopped u \<and> fed (s_runner u) = fed (s_runner s) \<and>
          next_job (s_jobs u) = next_job (s_jobs s)"])
       (use s in \<open>auto dest: stopped_step stopped_jobs\<close>)
  have "components_inv env t"
    by (rule server_run_inv [OF server_run_steps [OF assms(1,3)]])
  then have "runner_inv (e_json env) (e_run_format env) (s_runner t)" "job_block_wf (s_jobs t)"
    by (simp_all add: components_inv_def job_inv_def)
  then show ?thesis
    using t fed_alive_active [of "s_runner t"] silenced_alive [of "s_runner t"]
    by (auto simp: stopped_def silenced_def job_block_wf_def runner_inv_def)
qed

text \<open>A connection that arms the switch of a server in which nothing has run.\<close>

lemma sample_arms:
  assumes run: "sample_reaches rq s" and k: "s_conns s k = C_Body cx" "rq k = post [''killswitch'']"
    and idle: "s_runner s = new_runner" "s_sessions s = s_sessions (sample_server rq)"
  shows "\<exists>t. sample_reaches rq t \<and> s_sessions t = s_sessions s \<and> s_kill t = Stat_Exists \<and>
    (\<exists>n. s_conns t = (s_conns s)(k := C_Done (write_json 200 (Armed_Response n))))"
proof -
  let ?e = "sample_env rq"
  have "route_of (post [''killswitch'']) = To_Kill_Switch"
    by (simp add: route_of_def mux_routes_def post_def mget_def)
  then have 1: "handle_body ?e True 0 k cx s = goto_conn k (C_Kill_Jobs cx) (s\<lparr>s_kill := Stat_Exists\<rparr>)" (is "_ = ?s1")
    by (simp add: handle_body_def k(2) handle_kill_switch_def)
  have r1: "sample_reaches rq ?s1"
    using server_run_step [OF run v_body [OF k(1), where ok = True and now = 0]] unfolding 1 .
  let ?s2 = "kill_jobs k cx ?s1"
  obtain n m where 2: "?s2 = goto_conn k (C_Kill_Runner cx n) (?s1\<lparr>s_jobs := m\<rparr>)"
    by (simp add: kill_jobs_def case_prod_beta)
  have r2: "sample_reaches rq ?s2"
    by (rule server_run_step [OF r1 v_kill_jobs]) simp
  let ?s3 = "kill_runner k cx n ?s2"
  have r3: "sample_reaches rq ?s3"
    by (rule server_run_step [OF r2 v_kill_runner]) (unfold 2, simp)
  let ?s4 = "goto_conn k (C_Kill_Sessions cx n) ?s3"
  have r4: "sample_reaches rq ?s4"
    by (rule server_run_step [OF r3 v_kill_wait [where cx = cx and n = n and P = "{}"]])
       (unfold 2, simp_all add: kill_runner_def idle new_runner_def)
  let ?s5 = "kill_sessions k cx n ?s4"
  have r5: "sample_reaches rq ?s5"
    by (rule server_run_step [OF r4 v_kill_sessions]) simp
  have same: "s_sessions ?s5 = s_sessions s"
    by (unfold 2) (simp add: kill_sessions_def kill_runner_def idle(2) sample_start kill_all_sessions_def
        new_session_manager_def)
  let ?s6 = "kill_finish ?e k cx n ?s5"
  have r6: "sample_reaches rq ?s6"
    by (rule server_run_step [OF r5 v_kill_end [where R = "{}"]])
       (unfold 2, simp_all add: kill_sessions_def kill_runner_def idle(2) sample_start new_session_manager_def)
  have "s_sessions ?s6 = s_sessions s"
    using same by (simp add: kill_finish_def)
  moreover have "s_conns ?s6 = (s_conns s)(k := C_Done (write_json 200 (Armed_Response n)))"
      "s_kill ?s6 = Stat_Exists"
    by (unfold 2) (simp_all add: kill_finish_def kill_sessions_def kill_runner_def)
  ultimately show ?thesis
    using r6 by blast
qed

definition arming :: "nat \<Rightarrow> request" where
  "arming k = (if k = 0 then post [''session''] else post [''killswitch''])"

text \<open>Connection 0 asks for a session and passes the guard; then connection 1 arms the switch.\<close>

lemma sample_armed:
  "\<exists>s cx n. sample_reaches arming s \<and> s_conns s 0 = C_Body cx \<and> s_kill s = Stat_Exists \<and>
     s_conns s 1 = C_Done (write_json 200 (Armed_Response n)) \<and> s_sessions s = s_sessions (sample_server arming)"
proof -
  obtain s cx where s: "sample_reaches arming s" "calm_server 1 s" "same_parts (sample_server arming) s"
      "s_conns s = (\<lambda>_. C_Idle)(0 := C_Body cx)"
    using sample_reaches_body [OF sample_run calm_sample, where k = 0 and path = "[''session'']" and rq = arming]
    by (auto simp: sample_start arming_def)
  obtain t cx' where t: "sample_reaches arming t" "same_parts s t" "s_conns t = (s_conns s)(1 := C_Body cx')"
    using sample_reaches_body [OF s(1,2), where k = 1 and path = "[''killswitch'']"]
    by (auto simp: s(4) arming_def)
  have "s_runner t = new_runner" "s_sessions t = s_sessions (sample_server arming)"
    using s(3) t(2) by (simp_all add: same_parts_def sample_start kill_file_armed_def)
  then obtain u n where "sample_reaches arming u" "s_sessions u = s_sessions (sample_server arming)"
      "s_kill u = Stat_Exists" "s_conns u = (s_conns t)(1 := C_Done (write_json 200 (Armed_Response n)))"
    using sample_arms [OF t(1), of 1 cx'] t(3) by (auto simp: arming_def)
  then show ?thesis
    by (intro exI [of _ u] exI [of _ cx] exI [of _ n]) (simp add: t(3) s(4))
qed

theorem armed_means_stopped_witness:
  "\<exists>s n. s_conns s 1 = C_Done (write_json 200 (Armed_Response n)) \<and>
     sample_reaches arming s \<and> Alive \<notin> procs (s_runner s) ` fed (s_runner s)"
proof -
  obtain s n where s: "sample_reaches arming s" "s_conns s 1 = C_Done (write_json 200 (Armed_Response n))"
    using sample_armed by blast
  then show ?thesis
    using armed_means_stopped [OF s rtranclp.rtrancl_refl] by fastforce
qed

subsection \<open>A session can outlive the kill switch\<close>

text \<open>
  C39: The sessions are the gap. \<open>SessionManager\<close> has no blocked flag, unlike the job manager and
  the runner, and \<open>handleSessionCreate\<close> looks at the kill-switch file only once, at its start. In
  every state in which a client has been told that the switch is armed and its file is still
  there, a \<open>POST /session\<close> that had passed that look before is served all the same, if there is
  room for a session, an identifier can be drawn and the process starts: it is answered 201, and
  the new session has a living PowerShell process, with the file still in place.
\<close>

theorem session_survives_the_kill_switch:
  assumes "server_run env cfg s0 s" and "s_conns s k = C_Done (write_json 200 (Armed_Response n))"
    and "kill_file_armed (s_kill s)"
    and "s_conns s j = C_Body cx" and "route_of (e_request env j) = To_Session_Create"
    and "int (session_count (s_sessions s)) < max_sessions cfg"
    and "random_id (e_session_ids env) (pdraws (s_sessions s)) = Some sid"
  shows "let t = handle_body env True now j cx s in
    server_step env s t \<and> s_kill t = s_kill s \<and> s_conns t k = s_conns s k \<and>
    (\<exists>resp. s_conns t j = C_Done resp \<and> rs_status resp = 201) \<and>
    (\<exists>r p. mget (sess_map (s_sessions t)) sid = Some r \<and>
       process (sess_heap (s_sessions t) r) = Some p \<and> pprocs (s_sessions t) p = Alive) \<and>
    session_count (s_sessions t) = Suc (session_count (s_sessions s))"
proof -
  let ?t = "handle_body env True now j cx s"
  have body: "?t = handle_session_create env True now j s"
    by (simp add: handle_body_def assms(5))
  have inv: "sess_map_wf (e_session_ids env) (s_sessions s)" "good_entropy (e_session_ids env)"
    using server_run_inv [OF assms(1)] by (simp_all add: components_inv_def pool_inv_def)
  have room: "int (length (sess_map (s_sessions s))) < max_open (s_sessions s)"
    using assms(6) server_run_bounds [OF assms(1)] by (simp add: session_count_def)
  have new: "length (mput sid r (sess_map (s_sessions s))) = Suc (length (sess_map (s_sessions s)))" for r
    using create_fresh(2) [OF inv(2,1) assms(7)] by simp
  have apart: "k \<noteq> j"
    using assms(2,4) by auto
  have "s_kill ?t = s_kill s \<and> s_conns ?t k = s_conns s k \<and>
    (\<exists>resp. s_conns ?t j = C_Done resp \<and> rs_status resp = 201) \<and>
    (\<exists>r p. mget (sess_map (s_sessions ?t)) sid = Some r \<and>
       process (sess_heap (s_sessions ?t) r) = Some p \<and> pprocs (s_sessions ?t) p = Alive) \<and>
    session_count (s_sessions ?t) = Suc (session_count (s_sessions s))"
    using room apart
    by (simp add: body handle_session_create_def create_session_def start_child_proc_def assms(7) Let_def
        session_count_def write_json_def mget_mput new)
  then show ?thesis
    using v_body [OF assms(4), where ok = True and now = now] by (simp only: Let_def simp_thms)
qed

theorem session_survives_the_kill_switch_witness:
  "\<exists>s n. sample_reaches arming s \<and> s_conns s 1 = C_Done (write_json 200 (Armed_Response n)) \<and>
     s_kill s = Stat_Exists \<and> (\<exists>p. pprocs (s_sessions s) p = Alive)"
proof -
  obtain s cx n where s: "sample_reaches arming s" "s_conns s 0 = C_Body cx" "s_kill s = Stat_Exists"
      "s_conns s 1 = C_Done (write_json 200 (Armed_Response n))" "s_sessions s = s_sessions (sample_server arming)"
    using sample_armed by blast
  let ?t = "handle_body (sample_env arming) True 0 0 cx s"
  have "let t = ?t in server_step (sample_env arming) s t \<and> s_kill t = s_kill s \<and>
    s_conns t 1 = s_conns s 1 \<and> (\<exists>resp. s_conns t 0 = C_Done resp \<and> rs_status resp = 201) \<and>
    (\<exists>r p. mget (sess_map (s_sessions t)) zero_id = Some r \<and>
       process (sess_heap (s_sessions t) r) = Some p \<and> pprocs (s_sessions t) p = Alive) \<and>
    session_count (s_sessions t) = Suc (session_count (s_sessions s))"
    by (rule session_survives_the_kill_switch [OF s(1,4) _ s(2)])
       (simp_all add: s(3,5) kill_file_armed_def arming_def sample_session_route sample_start
          new_session_manager_def session_count_def random_zero_id agent_defaults_def default_config_def)
  then have t: "server_step (sample_env arming) s ?t" "s_kill ?t = Stat_Exists"
      "s_conns ?t 1 = C_Done (write_json 200 (Armed_Response n))" "\<exists>p. pprocs (s_sessions ?t) p = Alive"
    unfolding Let_def s(3,4) by blast+
  show ?thesis
    by (intro exI [of _ ?t] exI [of _ n] conjI server_run_step [OF s(1) t(1)] t(2-4))
qed

subsection \<open>Disarming\<close>

lemma new_server_armed:
  assumes "new_server env cfg version now tok mk fs kill = Inr s" and "kill_file_armed kill"
  shows "stopped s"
  using assms(2) by (simp add: stopped_def new_server_Inr [OF assms(1)] Let_def block_and_cancel_all_eq
      block_runner_def new_runner_def silenced_def)

text \<open>
  C38: Removing the kill-switch file does not disarm a running agent. Once the switch was armed
  over HTTP, or the file was there when the agent started, then however often the operator
  removes the file, every later \<open>Submit\<close> is refused and every call of \<open>Run\<close> that looks at the
  flag ends with \<open>ErrBlocked\<close>: only a restart brings jobs and one-shot commands back. The guard of
  the handlers, however, follows the file: once it is gone, it lets every request pass again, so
  that sessions, whose manager keeps no flag, can be created and used.
\<close>

theorem disarming_needs_a_restart:
  assumes "server_run env cfg s0 s"
    and "s = s0 \<and> s_kill s0 \<noteq> Stat_Missing \<or> s_conns s k = C_Done (write_json 200 (Armed_Response n))"
    and "(server_step env)\<^sup>*\<^sup>* s t"
  shows "snd (snd (submit (e_job_ids env) command fmt timeout True now (s_jobs t))) \<noteq> None \<and>
    goroutines (fst (submit (e_job_ids env) command fmt timeout True now (s_jobs t))) = goroutines (s_jobs t) \<and>
    run_blocked (s_runner t) \<and>
    (s_kill t = Stat_Missing \<longrightarrow> s_conns (check_killed env j cx t) j = C_Body cx)"
proof -
  have "stopped s"
    using assms(2)
  proof (elim disjE conjE)
    assume "s = s0" "s_kill s0 \<noteq> Stat_Missing"
    moreover obtain version now tok mk fs kill where new: "new_server env cfg version now tok mk fs kill = Inr s0"
      using assms(1) by (auto simp: server_run_def)
    ultimately show ?thesis
      using new_server_armed [OF new] new_server_rest(3) [OF new] by (simp add: kill_file_armed_def)
  next
    assume "s_conns s k = C_Done (write_json 200 (Armed_Response n))"
    moreover have "kill_wf s (s_conns s k)"
      using server_run_kills [OF assms(1)] by (simp add: kills_wf_def)
    ultimately show ?thesis by (simp add: kill_wf_def)
  qed
  note stopped = this
  have "stopped t"
    using assms(3) server_run_inv [OF assms(1)]
    by (rule sv.steps_stable [where Q = stopped]) (use stopped in \<open>auto dest: stopped_step\<close>)
  then show ?thesis
    by (auto simp: stopped_def silenced_def submit_def Let_def check_killed_def kill_file_armed_def
        split: option.split)
qed

theorem disarming_needs_a_restart_witness:
  "\<exists>(s :: string server) cx. s_kill s = Stat_Missing \<and> run_blocked (s_runner s) \<and>
     s_conns (check_killed (sample_env arming) 0 cx s) 0 = C_Body cx"
proof -
  obtain s n where s: "sample_reaches arming s" "s_conns s 1 = C_Done (write_json 200 (Armed_Response n))"
    using sample_armed by blast
  let ?t = "s\<lparr>s_kill := Stat_Missing\<rparr>"
  have step: "(server_step (sample_env arming))\<^sup>*\<^sup>* s ?t"
    by (intro r_into_rtranclp v_operator)
  show ?thesis
    using disarming_needs_a_restart [OF s(1) disjI2 [OF s(2)] step,
        where command = "[]" and fmt = "[]" and timeout = 0 and now = 0 and j = 0]
    by (intro exI [of _ ?t] exI) auto
qed

end
