(* ===== verification/Server_Types.thy ===== *)
theory Server_Types
  imports Server_Audit
begin

section \<open>What each route answers, and that no request runs for ever\<close>

text \<open>
  The type of the answers: the status and the shape of the body each route may give. Then the
  length of a request: every step that moves a connection brings it nearer to its end, so a
  connection moves a bounded number of times.
\<close>

subsection \<open>The type of an answer\<close>

text \<open>The status and the body of a handler that did what it was asked for.\<close>

datatype shape =
    Nothing_Shape | Text_Shape | Error_Shape | Exec_Shape | Job_Shape | Session_Shape | Info_Shape
  | Health_Shape | Blocklist_Shape | Armed_Shape

fun shape_of :: "payload \<Rightarrow> shape" where
  "shape_of No_Payload = Nothing_Shape"
| "shape_of Mux_Text = Text_Shape"
| "shape_of (Error_Body e) = Error_Shape"
| "shape_of (Exec_Response rid result) = Exec_Shape"
| "shape_of (Job_Response j) = Job_Shape"
| "shape_of (Session_Response sid created) = Session_Shape"
| "shape_of (Info_Response info) = Info_Shape"
| "shape_of (Health_Response h) = Health_Shape"
| "shape_of (Blocklist_Response es) = Blocklist_Shape"
| "shape_of (Armed_Response n) = Armed_Shape"

fun success_of :: "route \<Rightarrow> nat \<times> shape" where
  "success_of To_Exec = (200, Exec_Shape)"
| "success_of (To_Session_Exec sid) = (200, Exec_Shape)"
| "success_of To_Job_Create = (202, Job_Shape)"
| "success_of (To_Job_Get jid) = (200, Job_Shape)"
| "success_of (To_Job_Cancel jid) = (202, Job_Shape)"
| "success_of To_Session_Create = (201, Session_Shape)"
| "success_of (To_Session_Restart sid) = (200, Info_Shape)"
| "success_of (To_Session_Info sid) = (200, Info_Shape)"
| "success_of (To_Session_Delete sid) = (204, Nothing_Shape)"
| "success_of To_Health = (200, Health_Shape)"
| "success_of To_Blocklist_Get = (200, Blocklist_Shape)"
| "success_of (To_Blocklist_Delete ip) = (204, Nothing_Shape)"
| "success_of To_Kill_Switch = (200, Armed_Shape)"
| "success_of To_No_Method = (405, Text_Shape)"
| "success_of To_Nothing = (404, Text_Shape)"

definition success_type :: "route \<Rightarrow> nat \<Rightarrow> payload \<Rightarrow> bool" where
  "success_type rt st p \<longleftrightarrow> success_of rt = (st, shape_of p)"

fun error_type :: "nat \<Rightarrow> payload \<Rightarrow> bool" where
  "error_type st (Error_Body e) \<longleftrightarrow> st \<in> {400, 401, 404, 409, 413, 423, 429, 500, 504} \<and> er_code e \<noteq> []"
| "error_type st p \<longleftrightarrow> False"

definition answer_type :: "route \<Rightarrow> response \<Rightarrow> bool" where
  "answer_type rt resp \<longleftrightarrow>
     success_type rt (rs_status resp) (rs_payload resp) \<or> error_type (rs_status resp) (rs_payload resp)"

text \<open>Where a connection is, against the route of its request.\<close>

definition typed_conn :: "'ip server_env \<Rightarrow> nat \<Rightarrow> conn \<Rightarrow> bool" where
  "typed_conn env k c \<longleftrightarrow>
     (let rt = route_of (e_request env k) in
      case c of
        C_Running cx command fmt \<Rightarrow> rt = To_Exec
      | C_Exec cx sid r command fmt \<Rightarrow> rt = To_Session_Exec sid
      | C_Restart r \<Rightarrow> \<exists>sid. rt = To_Session_Restart sid
      | C_Kill_Jobs cx \<Rightarrow> rt = To_Kill_Switch
      | C_Kill_Runner cx n \<Rightarrow> rt = To_Kill_Switch
      | C_Kill_Wait cx n P \<Rightarrow> rt = To_Kill_Switch
      | C_Kill_Sessions cx n \<Rightarrow> rt = To_Kill_Switch
      | C_Kill_End cx n R \<Rightarrow> rt = To_Kill_Switch
      | C_Done resp \<Rightarrow> answer_type rt resp
      | _ \<Rightarrow> True)"

definition is_error :: "response \<Rightarrow> bool" where
  "is_error resp \<longleftrightarrow> error_type (rs_status resp) (rs_payload resp)"

lemma write_error_type [simp]:
  "is_error (write_error st code message retryable details) \<longleftrightarrow>
     st \<in> {400, 401, 404, 409, 413, 423, 429, 500, 504} \<and> code \<noteq> []"
  by (simp add: is_error_def write_error_def write_json_def)

lemma error_constants [simp]:
  "is_error rate_limited" "is_error (auth_failed limit count)" "is_error killswitch_response"
  "is_error (exec_timed_out result)" "is_error (shell_failure e)" "is_error (invalid_timeout limit)"
  "is_error (job_limit m)" "is_error job_start_failed" "is_error job_not_found" "is_error job_status_failed"
  "is_error (job_not_running sn)" "is_error job_cancel_failed" "is_error session_not_found"
  "is_error (session_limit m)" "is_error (session_start_failed e)" "is_error (session_timed_out result)"
  "is_error (session_process_exited result)" "is_error (session_exec_failed e)"
  "is_error session_restart_failed" "is_error invalid_ip" "is_error ip_not_blocked"
  "is_error killswitch_write_failed"
  by (simp_all add: rate_limited_def auth_failed_def killswitch_response_def shell_failure_def
      invalid_timeout_def job_limit_def job_start_failed_def job_not_found_def job_status_failed_def
      job_not_running_def job_cancel_failed_def session_not_found_def session_limit_def
      session_start_failed_def session_exec_failed_def session_restart_failed_def invalid_ip_def
      ip_not_blocked_def killswitch_write_failed_def exec_timed_out_def session_timed_out_def
      session_process_exited_def)

lemma error_body [simp]: "is_error (body_response e)"
  by (cases e) (simp_all add: body_response_def)

lemma error_check: "check_command command fmt = Some resp \<Longrightarrow> is_error resp"
  by (auto simp: check_command_def split: if_splits)

lemma error_decode:
  "decode_exec_request dec cfg body = Inl resp \<Longrightarrow> is_error resp"
  "decode_job_request dec' cfg body = Inl resp \<Longrightarrow> is_error resp"
  by (auto simp: decode_exec_request_def decode_job_request_def split: sum.splits option.splits
      dest: error_check)

lemma typed_simps [simp]:
  "typed_conn env k C_Idle" "typed_conn env k C_Dropped"
  "typed_conn env k (C_Blocklist cx)" "typed_conn env k (C_Limit cx)" "typed_conn env k (C_Auth cx)"
  "typed_conn env k (C_Guard cx)" "typed_conn env k (C_Body cx)"
  "typed_conn env k (C_Running cx command fmt) \<longleftrightarrow> route_of (e_request env k) = To_Exec"
  "typed_conn env k (C_Exec cx sid r command fmt) \<longleftrightarrow> route_of (e_request env k) = To_Session_Exec sid"
  "typed_conn env k (C_Restart r) \<longleftrightarrow> (\<exists>sid. route_of (e_request env k) = To_Session_Restart sid)"
  "typed_conn env k (C_Kill_Jobs cx) \<longleftrightarrow> route_of (e_request env k) = To_Kill_Switch"
  "typed_conn env k (C_Kill_Runner cx n) \<longleftrightarrow> route_of (e_request env k) = To_Kill_Switch"
  "typed_conn env k (C_Kill_Wait cx n P) \<longleftrightarrow> route_of (e_request env k) = To_Kill_Switch"
  "typed_conn env k (C_Kill_Sessions cx n) \<longleftrightarrow> route_of (e_request env k) = To_Kill_Switch"
  "typed_conn env k (C_Kill_End cx n R) \<longleftrightarrow> route_of (e_request env k) = To_Kill_Switch"
  "is_error resp \<Longrightarrow> typed_conn env k (C_Done resp)"
  "typed_conn env k (C_Done (write_json st p)) \<longleftrightarrow> answer_type (route_of (e_request env k)) (write_json st p)"
  by (auto simp: typed_conn_def answer_type_def is_error_def)

lemma answer_json [simp]:
  "answer_type rt (write_json st p) \<longleftrightarrow> success_of rt = (st, shape_of p) \<or> error_type st p"
  by (simp add: answer_type_def write_json_def success_type_def)

text \<open>Each stage leaves its connection typed.\<close>

lemma middleware_typed:
  "typed_conn env k (s_conns (arrive env random now k s) k)"
  "typed_conn env k (s_conns (check_blocklist env k cx s) k)"
  "typed_conn env k (s_conns (check_rate env now k cx s) k)"
  "typed_conn env k (s_conns (check_token env now k cx s) k)"
  "typed_conn env k (s_conns (check_killed env k cx s) k)"
  by (simp_all add: arrive_def check_blocklist_def check_rate_def check_token_def check_killed_def Let_def
      split: prod.split)

lemma job_handlers_typed:
  "route_of (e_request env k) = To_Job_Create \<Longrightarrow> typed_conn env k (s_conns (handle_job_create env now k cx s) k)"
  "route_of (e_request env k) = To_Job_Get jid \<Longrightarrow> typed_conn env k (s_conns (handle_job_get now k jid s) k)"
  "route_of (e_request env k) = To_Job_Cancel jid \<Longrightarrow> typed_conn env k (s_conns (handle_job_cancel env k cx jid s) k)"
  by (simp_all add: handle_job_create_def handle_job_get_def handle_job_cancel_def Let_def error_decode
      split: sum.split prod.split)

lemma session_handlers_typed:
  "route_of (e_request env k) = To_Session_Create \<Longrightarrow> typed_conn env k (s_conns (handle_session_create env ok now k s) k)"
  "route_of (e_request env k) = To_Session_Exec sid \<Longrightarrow> typed_conn env k (s_conns (handle_session_exec env k cx sid s) k)"
  "route_of (e_request env k) = To_Session_Restart sid \<Longrightarrow> typed_conn env k (s_conns (handle_session_restart k sid s) k)"
  "route_of (e_request env k) = To_Session_Info sid \<Longrightarrow> typed_conn env k (s_conns (handle_session_info env now k sid s) k)"
  "route_of (e_request env k) = To_Session_Delete sid \<Longrightarrow> typed_conn env k (s_conns (handle_session_delete k sid s) k)"
  by (simp_all add: handle_session_create_def handle_session_info_def handle_session_delete_def
      handle_session_exec_def handle_session_restart_def Let_def error_decode
      split: sum.split prod.split run_error.split)

lemma other_handlers_typed:
  "route_of (e_request env k) = To_Exec \<Longrightarrow> typed_conn env k (s_conns (handle_exec env k cx s) k)"
  "route_of (e_request env k) = To_Health \<Longrightarrow> typed_conn env k (s_conns (handle_health env now k s) k)"
  "route_of (e_request env k) = To_Blocklist_Get \<Longrightarrow> typed_conn env k (s_conns (handle_blocklist_get k s) k)"
  "route_of (e_request env k) = To_Blocklist_Delete x \<Longrightarrow> typed_conn env k (s_conns (handle_blocklist_delete env k x s) k)"
  "route_of (e_request env k) = To_Kill_Switch \<Longrightarrow> typed_conn env k (s_conns (handle_kill_switch ok k cx s) k)"
  by (simp_all add: handle_exec_def handle_health_def handle_blocklist_get_def handle_blocklist_delete_def
      handle_kill_switch_def error_decode split: sum.split option.split prod.split)

lemma mux_typed:
  "route_of (e_request env k) = To_No_Method \<Longrightarrow> typed_conn env k (C_Done \<lparr>rs_status = 405, rs_payload = Mux_Text\<rparr>)"
  "route_of (e_request env k) = To_Nothing \<Longrightarrow> typed_conn env k (C_Done \<lparr>rs_status = 404, rs_payload = Mux_Text\<rparr>)"
  by (simp_all add: typed_conn_def answer_type_def success_type_def)

lemma handle_body_typed: "typed_conn env k (s_conns (handle_body env ok now k cx s) k)"
  unfolding handle_body_def
  by (cases "route_of (e_request env k)")
     (simp_all only: route.case, simp_all add: job_handlers_typed session_handlers_typed other_handlers_typed mux_typed)

lemma ends_typed:
  "route_of (e_request env k) = To_Exec \<Longrightarrow> typed_conn env k (s_conns (handle_exec_end env k cx command out s) k)"
  "route_of (e_request env k) = To_Session_Exec sid \<Longrightarrow>
     typed_conn env k (s_conns (handle_session_exec_end env k cx sid command out s) k)"
  "route_of (e_request env k) = To_Session_Restart sid \<Longrightarrow>
     typed_conn env k (s_conns (handle_session_restart_end env now k r restarted s) k)"
  "route_of (e_request env k) = To_Kill_Switch \<Longrightarrow> typed_conn env k (s_conns (kill_finish env k cx n s) k)"
  by (simp_all add: handle_exec_end_def handle_session_exec_end_def handle_session_restart_end_def
      kill_finish_def Let_def split: prod.split option.split run_error.split)

lemma kills_typed:
  "route_of (e_request env k) = To_Kill_Switch \<Longrightarrow> typed_conn env k (s_conns (kill_jobs k cx s) k)"
  "route_of (e_request env k) = To_Kill_Switch \<Longrightarrow> typed_conn env k (s_conns (kill_runner k cx n s) k)"
  "route_of (e_request env k) = To_Kill_Switch \<Longrightarrow> typed_conn env k (s_conns (kill_sessions k cx n s) k)"
  by (simp_all add: kill_jobs_def kill_runner_def kill_sessions_def split: prod.split)

definition answers_typed :: "'ip server_env \<Rightarrow> 'ip server \<Rightarrow> bool" where
  "answers_typed env s \<longleftrightarrow> (\<forall>k. typed_conn env k (s_conns s k))"

lemma kill_runner_others: "j \<noteq> k \<Longrightarrow> s_conns (kill_runner k cx n s) j = s_conns s j"
  by (simp add: kill_runner_def)

text \<open>
  A step moves one connection or none. The rule says which, with the typing of its new place.
\<close>

lemma answers_typed_step:
  assumes "server_step env s t" and typed: "answers_typed env s"
  shows "answers_typed env t"
proof -
  have at: "typed_conn env k c" if "s_conns s k = c" for k c
    using typed that by (auto simp: answers_typed_def)
  have moved: ?thesis if "t = u" "\<And>j. j \<noteq> k \<Longrightarrow> s_conns u j = s_conns s j" "typed_conn env k (s_conns u k)" for u k
    using that typed unfolding answers_typed_def by metis
  note other = stage_others
  from assms(1) show ?thesis
  proof cases
    case (v_arrive k random now)
    show ?thesis by (rule moved [OF v_arrive(1) other [OF arrive_stage] middleware_typed(1)])
  next
    case (v_blocklist k cx)
    show ?thesis by (rule moved [OF v_blocklist(1) other [OF check_blocklist_stage] middleware_typed(2)])
  next
    case (v_rate k cx now)
    show ?thesis by (rule moved [OF v_rate(1) other [OF check_rate_stage] middleware_typed(3)])
  next
    case (v_token k cx now)
    show ?thesis by (rule moved [OF v_token(1) other [OF check_token_stage] middleware_typed(4)])
  next
    case (v_guard k cx)
    show ?thesis by (rule moved [OF v_guard(1) other [OF check_killed_stage] middleware_typed(5)])
  next
    case (v_body k cx ok now)
    show ?thesis by (rule moved [OF v_body(1) other [OF handle_body_stage] handle_body_typed])
  next
    case (v_run_end k cx command fmt out)
    with at [OF v_run_end(2)] show ?thesis
      by (intro moved [OF v_run_end(1) other [OF handle_exec_end_stage] ends_typed(1)]) simp_all
  next
    case (v_exec_end k cx sid r command fmt out)
    with at [OF v_exec_end(2)] show ?thesis
      by (intro moved [OF v_exec_end(1) other [OF handle_session_exec_end_stage] ends_typed(2)]) simp_all
  next
    case (v_restart_end k r restarted now)
    with at [OF v_restart_end(2)] obtain sid where "route_of (e_request env k) = To_Session_Restart sid" by auto
    then show ?thesis
      by (intro moved [OF v_restart_end(1) other [OF handle_session_restart_end_stage] ends_typed(3)]) simp_all
  next
    case (v_kill_jobs k cx)
    with at [OF v_kill_jobs(2)] show ?thesis
      by (intro moved [OF v_kill_jobs(1) other [OF kill_jobs_stage] kills_typed(1)]) simp_all
  next
    case (v_kill_runner k cx n)
    with at [OF v_kill_runner(2)] show ?thesis
      by (intro moved [OF v_kill_runner(1) kill_runner_others kills_typed(2)]) simp_all
  next
    case (v_kill_wait k cx n P)
    with at [OF v_kill_wait(2)] show ?thesis
      by (intro moved [OF v_kill_wait(1), where k = k]) simp_all
  next
    case (v_kill_sessions k cx n)
    with at [OF v_kill_sessions(2)] show ?thesis
      by (intro moved [OF v_kill_sessions(1) other [OF kill_sessions_stage] kills_typed(3)]) simp_all
  next
    case (v_kill_end k cx n R)
    with at [OF v_kill_end(2)] show ?thesis
      by (intro moved [OF v_kill_end(1) other [OF kill_finish_stage] ends_typed(4)]) simp_all
  qed (use typed in \<open>simp_all add: answers_typed_def close_sessions_def\<close>)
qed

text \<open>
  C5: Every answer has the type of its route. In every reachable state, a connection that has
  been answered got either the one success status and body shape of the route of its request,
  or an error body with a code under one of nine error statuses; and a connection is in a call
  of the runner, of a session or in the kill switch only for a request of that route.
\<close>

theorem every_answer_is_typed:
  assumes "server_run env cfg s0 s"
  shows "typed_conn env k (s_conns s k)"
proof -
  have "answers_typed env s"
    using assms
    by (induction rule: server_run_induct)
       (simp add: answers_typed_def new_server_Inr, rule answers_typed_step)
  then show ?thesis
    by (simp add: answers_typed_def)
qed

theorem every_answer_is_typed_witness:
  "\<exists>(s :: string server) resp. s_conns s 0 = C_Done resp \<and> answer_type To_Exec resp"
proof -
  obtain s resp where s: "sample_reaches all_exec s" "s_conns s 0 = C_Done resp"
    using sample_told by blast
  have "route_of (post [''exec'']) = To_Exec"
    by (simp add: route_of_def mux_routes_def post_def mget_def)
  then show ?thesis
    using every_answer_is_typed [OF s(1), of 0] s(2) by (auto simp: typed_conn_def)
qed

subsection \<open>A request ends\<close>

text \<open>How many more moves a connection can make.\<close>

fun conn_rank :: "conn \<Rightarrow> nat" where
  "conn_rank C_Idle = 11"
| "conn_rank (C_Blocklist cx) = 10"
| "conn_rank (C_Limit cx) = 9"
| "conn_rank (C_Auth cx) = 8"
| "conn_rank (C_Guard cx) = 7"
| "conn_rank (C_Body cx) = 6"
| "conn_rank (C_Kill_Jobs cx) = 5"
| "conn_rank (C_Kill_Runner cx n) = 4"
| "conn_rank (C_Kill_Wait cx n P) = 3"
| "conn_rank (C_Kill_Sessions cx n) = 2"
| "conn_rank (C_Kill_End cx n R) = 1"
| "conn_rank (C_Running cx command fmt) = 1"
| "conn_rank (C_Exec cx sid r command fmt) = 1"
| "conn_rank (C_Restart r) = 1"
| "conn_rank (C_Done resp) = 0"
| "conn_rank C_Dropped = 0"

lemma middleware_rank:
  "conn_rank (s_conns (arrive env random now k s) k) = 10"
  "conn_rank (s_conns (check_blocklist env k cx s) k) \<le> 9"
  "conn_rank (s_conns (check_rate env now k cx s) k) \<le> 8"
  "conn_rank (s_conns (check_token env now k cx s) k) \<le> 7"
  "conn_rank (s_conns (check_killed env k cx s) k) \<le> 6"
  by (simp_all add: arrive_def check_blocklist_def check_rate_def check_token_def check_killed_def Let_def
      split: prod.split)

lemma settled_rank: "c \<in> settled_conns \<Longrightarrow> conn_rank c \<le> 5"
  and done_rank: "c \<in> range C_Done \<Longrightarrow> conn_rank c = 0"
  by (auto simp: settled_conns_def)

lemma handle_body_rank: "conn_rank (s_conns (handle_body env ok now k cx s) k) \<le> 5"
proof (cases "route_of (e_request env k)")
  case To_Exec
  then show ?thesis
    using handle_exec_conn [of env k cx s] by (auto simp: handle_body_def)
next
  case (To_Session_Exec sid)
  then show ?thesis
    using handle_session_exec_conn [of env k cx sid s] by (auto simp: handle_body_def)
next
  case (To_Session_Restart sid)
  then show ?thesis
    using handle_session_restart_conn [of k sid s] by (auto simp: handle_body_def)
qed (rule settled_rank, simp add: handle_body_def)+

lemma kill_rank:
  "conn_rank (s_conns (kill_jobs k cx s) k) = 4" "conn_rank (s_conns (kill_runner k cx n s) k) = 3"
  "conn_rank (s_conns (kill_sessions k cx n s) k) = 1"
  by (simp_all add: kill_jobs_def kill_runner_def kill_sessions_def split: prod.split)

lemma server_step_rank:
  assumes "server_step env s t"
  shows "s_conns t i = s_conns s i \<or> conn_rank (s_conns t i) < conn_rank (s_conns s i)"
proof -
  have moved: ?thesis
    if "t = u" "\<And>j. j \<noteq> k \<Longrightarrow> s_conns u j = s_conns s j" "s_conns s k = c"
      "conn_rank (s_conns u k) < conn_rank c" for u k c
    using that by (cases "i = k") simp_all
  from assms show ?thesis
  proof cases
    case (v_arrive k random now)
    show ?thesis
      using middleware_rank(1) [of env random now k s] by (intro moved [OF v_arrive(1) stage_others [OF arrive_stage] v_arrive(2)]) simp_all
  next
    case (v_blocklist k cx)
    show ?thesis
      using middleware_rank(2) [of env k cx s] by (intro moved [OF v_blocklist(1) stage_others [OF check_blocklist_stage] v_blocklist(2)]) simp_all
  next
    case (v_rate k cx now)
    show ?thesis
      using middleware_rank(3) [of env now k cx s] by (intro moved [OF v_rate(1) stage_others [OF check_rate_stage] v_rate(2)]) simp_all
  next
    case (v_token k cx now)
    show ?thesis
      using middleware_rank(4) [of env now k cx s] by (intro moved [OF v_token(1) stage_others [OF check_token_stage] v_token(2)]) simp_all
  next
    case (v_guard k cx)
    show ?thesis
      using middleware_rank(5) [of env k cx s] by (intro moved [OF v_guard(1) stage_others [OF check_killed_stage] v_guard(2)]) simp_all
  next
    case (v_body k cx ok now)
    show ?thesis
      using handle_body_rank [of env ok now k cx s] by (intro moved [OF v_body(1) stage_others [OF handle_body_stage] v_body(2)]) simp_all
  next
    case (v_run_end k cx command fmt out)
    show ?thesis
      using done_rank [OF end_conns(1) [of env k cx command out s]] by (intro moved [OF v_run_end(1) stage_others [OF handle_exec_end_stage] v_run_end(2)]) simp_all
  next
    case (v_exec_end k cx sid r command fmt out)
    show ?thesis
      using done_rank [OF end_conns(2) [of env k cx sid command out s]] by (intro moved [OF v_exec_end(1) stage_others [OF handle_session_exec_end_stage] v_exec_end(2)]) simp_all
  next
    case (v_restart_end k r restarted now)
    show ?thesis
      using done_rank [OF end_conns(3) [of env now k r restarted s]] by (intro moved [OF v_restart_end(1) stage_others [OF handle_session_restart_end_stage] v_restart_end(2)]) simp_all
  next
    case (v_kill_jobs k cx)
    show ?thesis
      using kill_rank(1) [of k cx s] by (intro moved [OF v_kill_jobs(1) stage_others [OF kill_jobs_stage] v_kill_jobs(2)]) simp_all
  next
    case (v_kill_sessions k cx n)
    show ?thesis
      using kill_rank(3) [of k cx n s] by (intro moved [OF v_kill_sessions(1) stage_others [OF kill_sessions_stage] v_kill_sessions(2)]) simp_all
  next
    case (v_kill_end k cx n R)
    show ?thesis
      using done_rank [OF end_conns(4) [of env k cx n s]] by (intro moved [OF v_kill_end(1) stage_others [OF kill_finish_stage] v_kill_end(2)]) simp_all
  next
    case (v_kill_runner k cx n)
    show ?thesis
      using kill_rank(2) [of k cx n s] by (intro moved [OF v_kill_runner(1) kill_runner_others v_kill_runner(2)]) simp_all
  next
    case (v_kill_wait k cx n P)
    show ?thesis
      by (intro moved [OF v_kill_wait(1) _ v_kill_wait(2)]) simp_all
  qed (simp_all add: close_sessions_def)
qed

end
