(* ===== verification/Server_Live.thy ===== *)
theory Server_Live
  imports Server_Types
begin

section \<open>Every request can be answered\<close>

text \<open>
  From every reachable state, whatever the other connections, the jobs, the sessions and the
  kill switch are doing, there is a continuation in which a given connection is answered or
  dropped: the calls it waits for can be brought to their return, the locks they wait for
  can be released, and the processes the kill switch waits for can be ended. No combination of
  the components is a deadlock.
\<close>

subsection \<open>The call of a session a connection waits for\<close>

text \<open>The calls of \<open>Exec\<close> and of \<open>Restart\<close> on a session, begun or not.\<close>

fun exec_on :: "call_pc \<Rightarrow> sess_ref \<Rightarrow> bool" where
  "exec_on (X_Lock k) r = (k = r)"
| "exec_on (X_Enter k) r = (k = r)"
| "exec_on (X_Write k p) r = (k = r)"
| "exec_on (X_Wait k p) r = (k = r)"
| "exec_on (X_Restart k f) r = (k = r)"
| "exec_on (X_Leave k out) r = (k = r)"
| "exec_on (X_Unlock k out) r = (k = r)"
| "exec_on (X_Returned out) r = True"
| "exec_on _ r = False"

fun restart_on :: "call_pc \<Rightarrow> sess_ref \<Rightarrow> bool" where
  "restart_on (R_Lock k) r = (k = r)"
| "restart_on (R_Restart k) r = (k = r)"
| "restart_on (R_Unlock k b) r = (k = r)"
| "restart_on (R_Returned b) r = True"
| "restart_on _ r = False"

lemma restart_calls: "restart_locked ok now r m = (m', b) \<Longrightarrow> calls m' = calls m \<and> next_sess m' = next_sess m"
  by (erule restart_locked_cases) auto

lemma enter_calls: "exec_enter now r m = (m', res) \<Longrightarrow> calls m' = calls m \<and> next_sess m' = next_sess m"
  by (auto simp: exec_enter_def Let_def split: if_splits)

lemma pool_step_serves:
  assumes "pool_step entropy js fmt m m'"
  shows "exec_on (calls m c) r \<Longrightarrow> exec_on (calls m' c) r"
    and "restart_on (calls m c) r \<Longrightarrow> restart_on (calls m' c) r"
    and "next_sess m \<le> next_sess m'"
proof -
  show "exec_on (calls m c) r \<Longrightarrow> exec_on (calls m' c) r"
    using assms by (rule pool_stepE) (auto simp: set_owner_def exec_leave_def dest: restart_calls enter_calls)
  show "restart_on (calls m c) r \<Longrightarrow> restart_on (calls m' c) r"
    using assms by (rule pool_stepE) (auto simp: set_owner_def exec_leave_def dest: restart_calls enter_calls)
  have "next_sess m \<le> next_sess (fst (create_session entropy ok now m))" for ok now
    by (cases rule: create_session_cases [of entropy ok now m]) simp_all
  with assms show "next_sess m \<le> next_sess m'"
    by (elim pool_stepE) (auto simp: set_owner_def exec_leave_def dest: restart_calls enter_calls)
qed

fun over :: "conn \<Rightarrow> bool" where
  "over (C_Done resp) = True"
| "over C_Dropped = True"
| "over c = False"

fun waits :: "conn \<Rightarrow> bool" where
  "waits (C_Exec cx sid r command fmt) = True"
| "waits (C_Restart r) = True"
| "waits c = False"

lemma over_rank: "over c \<longleftrightarrow> conn_rank c = 0"
  by (cases c) simp_all

lemma waits_rank: "waits c \<Longrightarrow> conn_rank c = 1"
  by (cases c) simp_all

definition call_fits :: "pool \<Rightarrow> nat \<Rightarrow> conn \<Rightarrow> bool" where
  "call_fits m k c \<longleftrightarrow>
     (case c of
        C_Exec cx sid r command fmt \<Rightarrow> r < next_sess m \<and> (calls m k = No_Call \<or> exec_on (calls m k) r)
      | C_Restart r \<Rightarrow> r < next_sess m \<and> (calls m k = No_Call \<or> restart_on (calls m k) r)
      | _ \<Rightarrow> over c \<or> calls m k = No_Call)"

lemma call_fits_over: "over c \<Longrightarrow> call_fits m k c"
  by (cases c) (simp_all add: call_fits_def)

lemma call_fits_plain: "\<not> waits c \<Longrightarrow> calls m k = No_Call \<Longrightarrow> call_fits m k c"
  by (cases c) (simp_all add: call_fits_def)

lemma call_fits_idle: "call_fits m k c \<Longrightarrow> \<not> waits c \<Longrightarrow> \<not> over c \<Longrightarrow> calls m k = No_Call"
  by (cases c) (simp_all add: call_fits_def)

subsection \<open>The invariant\<close>

lemma not_waits:
  "\<not> waits (s_conns (arrive env random now k s) k)"
  "\<not> waits (s_conns (check_blocklist env k cx s) k)"
  "\<not> waits (s_conns (check_rate env now k cx s) k)"
  "\<not> waits (s_conns (check_token env now k cx s) k)"
  "\<not> waits (s_conns (check_killed env k cx s) k)"
  "\<not> waits (s_conns (kill_jobs k cx s) k)" "\<not> waits (s_conns (kill_runner k cx n s) k)"
  "\<not> waits (s_conns (kill_sessions k cx n s) k)"
  by (simp_all add: arrive_def check_blocklist_def check_rate_def check_token_def check_killed_def Let_def
      kill_jobs_def kill_runner_def kill_sessions_def split: prod.split)

lemma waits_not_done: "c \<in> range C_Done \<Longrightarrow> \<not> waits c" "c \<in> settled_conns \<Longrightarrow> \<not> waits c"
  by (auto simp: settled_conns_def)

text \<open>A connection comes to wait for a session only from its handler.\<close>

lemma waits_from_body:
  assumes "server_step env s t" and "waits (s_conns t i)" and "s_conns t i \<noteq> s_conns s i"
  obtains cx ok now where "s_conns s i = C_Body cx" "t = handle_body env ok now i cx s"
proof -
  have moved: thesis
    if "t = u" "\<And>j. j \<noteq> k \<Longrightarrow> s_conns u j = s_conns s j" "\<not> waits (s_conns u k)" for u k
    using that assms(2,3) by (cases "i = k") simp_all
  from assms(1) show thesis
  proof cases
    case (v_arrive k random now)
    show thesis by (rule moved [OF v_arrive(1) stage_others [OF arrive_stage] not_waits(1)])
  next
    case (v_blocklist k cx)
    show thesis by (rule moved [OF v_blocklist(1) stage_others [OF check_blocklist_stage] not_waits(2)])
  next
    case (v_rate k cx now)
    show thesis by (rule moved [OF v_rate(1) stage_others [OF check_rate_stage] not_waits(3)])
  next
    case (v_token k cx now)
    show thesis by (rule moved [OF v_token(1) stage_others [OF check_token_stage] not_waits(4)])
  next
    case (v_guard k cx)
    show thesis by (rule moved [OF v_guard(1) stage_others [OF check_killed_stage] not_waits(5)])
  next
    case (v_body k cx ok now)
    show thesis
    proof (cases "i = k")
      case True
      then show thesis using v_body that by blast
    next
      case False
      then show thesis
        using stage_others [OF handle_body_stage [of k env s ok now cx] False] v_body(1) assms(3) by metis
    qed
  next
    case (v_run_end k cx command fmt out)
    show thesis
      by (rule moved [OF v_run_end(1) stage_others [OF handle_exec_end_stage] waits_not_done(1) [OF end_conns(1)]])
  next
    case (v_exec_end k cx sid r command fmt out)
    show thesis
      by (rule moved [OF v_exec_end(1) stage_others [OF handle_session_exec_end_stage] waits_not_done(1) [OF end_conns(2)]])
  next
    case (v_restart_end k r restarted now)
    show thesis
      by (rule moved [OF v_restart_end(1) stage_others [OF handle_session_restart_end_stage] waits_not_done(1) [OF end_conns(3)]])
  next
    case (v_kill_jobs k cx)
    show thesis by (rule moved [OF v_kill_jobs(1) stage_others [OF kill_jobs_stage] not_waits(6)])
  next
    case (v_kill_runner k cx n)
    show thesis by (rule moved [OF v_kill_runner(1) kill_runner_others not_waits(7)])
  next
    case (v_kill_wait k cx n P)
    show thesis by (rule moved [OF v_kill_wait(1), of k]) simp_all
  next
    case (v_kill_sessions k cx n)
    show thesis by (rule moved [OF v_kill_sessions(1) stage_others [OF kill_sessions_stage] not_waits(8)])
  next
    case (v_kill_end k cx n R)
    show thesis by (rule moved [OF v_kill_end(1) stage_others [OF kill_finish_stage] waits_not_done(1) [OF end_conns(4)]])
  qed (use assms(3) in \<open>simp_all add: close_sessions_def\<close>)
qed

text \<open>The session it waits for exists.\<close>

lemma get_session_below:
  "sess_map_wf entropy m \<Longrightarrow> get_session sid m = Inr r \<Longrightarrow> r < next_sess m"
  by (auto simp: get_session_def sess_map_wf_def dest!: mget_SomeD split: option.splits)

lemma body_waits:
  assumes "sess_map_wf (e_session_ids env) (s_sessions s)"
  shows "s_conns (handle_body env ok now k cx s) k = C_Exec cx' sid r command fmt \<Longrightarrow> r < next_sess (s_sessions s)"
    and "s_conns (handle_body env ok now k cx s) k = C_Restart r \<Longrightarrow> r < next_sess (s_sessions s)"
proof -
  have exec: "\<not> waits (s_conns (handle_exec env k cx s) k)"
    by (simp add: handle_exec_def split: sum.split)
  have sexec: "s_conns (handle_session_exec env k cx sid' s) k = C_Exec cx' sid r command fmt \<Longrightarrow> r < next_sess (s_sessions s)"
      "s_conns (handle_session_exec env k cx sid' s) k \<noteq> C_Restart r" for r sid'
    by (auto simp: handle_session_exec_def dest: get_session_below [OF assms] split: sum.splits)
  have srestart: "s_conns (handle_session_restart k sid' s) k \<noteq> C_Exec cx' sid r command fmt"
      "s_conns (handle_session_restart k sid' s) k = C_Restart r \<Longrightarrow> r < next_sess (s_sessions s)" for r sid'
    by (auto simp: handle_session_restart_def dest: get_session_below [OF assms] split: sum.splits)
  have from_handler: thesis
    if "waits (s_conns (handle_body env ok now k cx s) k)"
      and "\<And>sid'. handle_body env ok now k cx s = handle_session_exec env k cx sid' s \<Longrightarrow> thesis"
      and "\<And>sid'. handle_body env ok now k cx s = handle_session_restart k sid' s \<Longrightarrow> thesis" for thesis
  proof (cases "route_of (e_request env k)")
    case To_Exec
    then show thesis using that(1) exec by (simp add: handle_body_def)
  next
    case (To_Session_Exec sid')
    then show thesis by (intro that(2)) (simp add: handle_body_def)
  next
    case (To_Session_Restart sid')
    then show thesis by (intro that(3)) (simp add: handle_body_def)
  qed (use that(1) waits_not_done(2) in \<open>simp_all add: handle_body_def\<close>)
  show "r < next_sess (s_sessions s)" if "s_conns (handle_body env ok now k cx s) k = C_Exec cx' sid r command fmt"
    by (rule from_handler) (use that sexec(1) srestart(1) in \<open>auto\<close>)
  show "r < next_sess (s_sessions s)" if "s_conns (handle_body env ok now k cx s) k = C_Restart r"
    by (rule from_handler) (use that sexec(2) srestart(2) in \<open>auto\<close>)
qed

text \<open>A step that moves a connection leaves the calls of the sessions alone.\<close>

lemma moved_calls:
  assumes "server_step env s t" and "s_conns t k \<noteq> s_conns s k"
  shows "calls (s_sessions t) = calls (s_sessions s)"
  using assms
proof (cases rule: server_step_cases)
  case (Body j cx ok now)
  then show ?thesis
    using body_sessions [of env ok now j cx s] by auto
qed (use assms in \<open>simp_all add: stage_same_sessions kill_frame kill_runner_def kill_sessions_def close_sessions_def\<close>)

definition calls_fit :: "'ip server \<Rightarrow> bool" where
  "calls_fit s \<longleftrightarrow> (\<forall>k. call_fits (s_sessions s) k (s_conns s k))"

lemma fits_moved:
  assumes "server_step env s t" and "components_inv env s" and "s_conns t k \<noteq> s_conns s k"
    and "call_fits (s_sessions s) k (s_conns s k)"
  shows "call_fits (s_sessions t) k (s_conns t k)"
proof (cases "over (s_conns t k)")
  case True
  then show ?thesis by (rule call_fits_over)
next
  case False
  have rank: "conn_rank (s_conns t k) < conn_rank (s_conns s k)" "0 < conn_rank (s_conns t k)"
    using server_step_rank [OF assms(1), of k] assms(3) False over_rank by auto
  then have "\<not> waits (s_conns s k)" "\<not> over (s_conns s k)"
    using waits_rank [of "s_conns s k"] over_rank by auto
  then have idle: "calls (s_sessions t) k = No_Call"
    using call_fits_idle [OF assms(4)] moved_calls [OF assms(1,3)] by simp
  show ?thesis
  proof (cases "waits (s_conns t k)")
    case False
    then show ?thesis using idle by (rule call_fits_plain)
  next
    case True
    obtain cx ok now where t: "t = handle_body env ok now k cx s"
      using waits_from_body [OF assms(1) True assms(3)] .
    have "sess_map_wf (e_session_ids env) (s_sessions s)"
      using assms(2) by (simp add: components_inv_def pool_inv_def)
    note below = body_waits [OF this, of ok now k cx]
    have "next_sess (s_sessions s) \<le> next_sess (s_sessions t)"
      using server_step_sessions [OF assms(1)] pool_step_serves(3) by auto
    then show ?thesis
      using True idle below unfolding t [symmetric]
      by (cases "s_conns t k") (force simp: call_fits_def)+
  qed
qed

lemma fits_kept:
  assumes "server_step env s t" and "s_conns t k = s_conns s k"
    and "call_fits (s_sessions s) k (s_conns s k)"
  shows "call_fits (s_sessions t) k (s_conns t k)"
proof (cases "s_sessions t = s_sessions s")
  case True
  then show ?thesis using assms by simp
next
  case False
  then have step: "pool_step (e_session_ids env) (e_json env) (e_session_format env) (s_sessions s) (s_sessions t)"
    using server_step_sessions [OF assms(1)] by blast
  note serves = pool_step_serves [OF step]
  have begins: "calls (s_sessions t) k = No_Call \<or> may_use env s k (calls (s_sessions t) k)"
    if "calls (s_sessions s) k = No_Call"
    using server_step_uses [OF assms(1) that] by blast
  show ?thesis
  proof (cases "waits (s_conns s k)")
    case False
    have "calls (s_sessions t) k = No_Call" if "calls (s_sessions s) k = No_Call"
      using begins [OF that] False by (auto simp: may_use_def)
    then show ?thesis
      using call_fits_idle [OF assms(3) False] False assms(2) call_fits_over call_fits_plain by metis
  next
    case True
    then show ?thesis
    proof (cases "s_conns s k")
      case (C_Exec cx sid r command fmt)
      then show ?thesis
        using assms(2,3) serves(1) [of k r] serves(3) begins
        by (cases "calls (s_sessions s) k = No_Call") (auto simp: call_fits_def may_use_def)
    next
      case (C_Restart r)
      then show ?thesis
        using assms(2,3) serves(2) [of k r] serves(3) begins
        by (cases "calls (s_sessions s) k = No_Call") (auto simp: call_fits_def may_use_def)
    qed simp_all
  qed
qed

lemma calls_fit_step:
  assumes "server_step env s t" and "components_inv env s" and "calls_fit s"
  shows "calls_fit t"
  using assms fits_moved [OF assms(1,2)] fits_kept [OF assms(1)] unfolding calls_fit_def by metis

lemma new_server_calls:
  "new_server env cfg version now tok mk fs kill = Inr s \<Longrightarrow> calls (s_sessions s) k = No_Call \<and> s_conns s k = C_Idle"
  by (auto simp: new_server_def new_session_manager_def Let_def split: sum.splits if_splits)

lemma server_run_calls: "server_run env cfg s0 s \<Longrightarrow> calls_fit s"
  by (induction rule: server_run_induct)
     (simp add: calls_fit_def call_fits_def new_server_calls, rule calls_fit_step)

subsection \<open>A call of the runner can be brought to its return\<close>

lemma lone_run_trans: "lone_run c a b \<Longrightarrow> lone_run c b d \<Longrightarrow> lone_run c a d"
  by (simp add: lone_run_def)

lemma runner_lifts:
  assumes "run_step (e_json env) (e_run_format env) (s_runner s) rn" and "lone_run c (s_runner s) rn"
    and "runs (s_runner s) c \<noteq> Not_Called \<or> may_run env s c"
  shows "server_step env s (s\<lparr>s_runner := rn\<rparr>)"
proof (rule v_runner)
  show "runner_moves env s rn"
    using assms by (auto simp: runner_moves_def lone_run_def)
qed

lemma run_left_called: "run_left t c < run_left s c \<Longrightarrow> runs t c \<noteq> Not_Called"
  using run_rank_le [of "runs s c"] by (cases "runs s c") (auto simp: run_left_def split: if_splits)

lemma run_returns:
  assumes "components_inv env s" and "runs (s_runner s) c \<noteq> Not_Called \<or> may_run env s c"
  shows "\<exists>rn out. (server_step env)\<^sup>*\<^sup>* s (s\<lparr>s_runner := rn\<rparr>) \<and> runs rn c = Returned out \<and> lone_run c (s_runner s) rn"
  using assms
proof (induction "run_left (s_runner s) c" arbitrary: s rule: less_induct)
  case less
  show ?case
  proof (cases "run_left (s_runner s) c = 0")
    case True
    then obtain out where "runs (s_runner s) c = Returned out"
      by (auto simp: run_left_0)
    then show ?thesis
      by (intro exI [of _ "s_runner s"] exI [of _ out]) (simp add: lone_run_def)
  next
    case False
    have "runner_inv (e_json env) (e_run_format env) (s_runner s)"
      using less(2) by (simp add: components_inv_def)
    then obtain rn where rn: "run_step (e_json env) (e_run_format env) (s_runner s) rn"
        "run_left rn c < run_left (s_runner s) c" "lone_run c (s_runner s) rn"
      using run_can_move False by blast
    have step: "server_step env s (s\<lparr>s_runner := rn\<rparr>)"
      by (rule runner_lifts [OF rn(1,3) less(3)])
    have "runs rn c \<noteq> Not_Called"
      using rn(2) run_left_called [of rn c "s_runner s"] by auto
    then obtain rn' out where rn': "(server_step env)\<^sup>*\<^sup>* (s\<lparr>s_runner := rn\<rparr>) (s\<lparr>s_runner := rn'\<rparr>)"
        "runs rn' c = Returned out" "lone_run c rn rn'"
      using less(1) [of "s\<lparr>s_runner := rn\<rparr>"] rn(2) sv.step_inv [OF step less(2)] by auto
    have "(server_step env)\<^sup>*\<^sup>* s (s\<lparr>s_runner := rn'\<rparr>)"
      using step rn'(1) by (rule converse_rtranclp_into_rtranclp)
    then show ?thesis
      using rn'(2) lone_run_trans [OF rn(3) rn'(3)] by blast
  qed
qed

text \<open>So a process can be ended by bringing the call that holds it to its return.\<close>

lemma process_killed:
  assumes "components_inv env s" and "procs (s_runner s) p = Alive"
  shows "\<exists>rn. (server_step env)\<^sup>*\<^sup>* s (s\<lparr>s_runner := rn\<rparr>) \<and> procs rn p \<noteq> Alive \<and>
    (\<forall>q. procs rn q = Alive \<longrightarrow> procs (s_runner s) q = Alive)"
proof -
  have inv: "runner_inv (e_json env) (e_run_format env) (s_runner s)"
    using assms(1) by (simp add: components_inv_def)
  have keeps_holds: "keeps pc = Some p \<Longrightarrow> holds pc = Some p" for pc
    by (cases pc) simp_all
  obtain r where r: "keeps (runs (s_runner s) r) = Some p"
    using inv assms(2) by (auto simp: runner_inv_def alive_held_def)
  then have "runs (s_runner s) r \<noteq> Not_Called" by auto
  then obtain rn out where rn: "(server_step env)\<^sup>*\<^sup>* s (s\<lparr>s_runner := rn\<rparr>)" "runs rn r = Returned out"
      "lone_run r (s_runner s) rn"
    using run_returns [OF assms(1)] by blast
  have "components_inv env (s\<lparr>s_runner := rn\<rparr>)"
    by (rule sv.steps_inv [OF rn(1) assms(1)])
  then have inv': "alive_held rn"
    by (simp add: components_inv_def runner_inv_def)
  have "procs rn p \<noteq> Alive"
  proof
    assume "procs rn p = Alive"
    then obtain r' where r': "keeps (runs rn r') = Some p"
      using inv' by (auto simp: alive_held_def)
    then have "r' \<noteq> r" using rn(2) by auto
    then have "holds (runs (s_runner s) r') = Some p"
      using r' rn(3) keeps_holds by (simp add: lone_run_def)
    then show False
      using inv keeps_holds [OF r] \<open>r' \<noteq> r\<close> unfolding runner_inv_def pids_wf_def by blast
  qed
  then show ?thesis
    using rn(1,3) by (auto simp: lone_run_def)
qed

lemma processes_end:
  assumes "components_inv env s"
  shows "\<exists>rn. (server_step env)\<^sup>*\<^sup>* s (s\<lparr>s_runner := rn\<rparr>) \<and> (\<forall>p \<in> P. procs rn p \<noteq> Alive)"
  using assms
proof (induction "card {p. procs (s_runner s) p = Alive}" arbitrary: s rule: less_induct)
  case less
  show ?case
  proof (cases "\<exists>p \<in> P. procs (s_runner s) p = Alive")
    case False
    then show ?thesis
      by (intro exI [of _ "s_runner s"]) simp
  next
    case True
    then obtain p where p: "procs (s_runner s) p = Alive" by blast
    obtain rn where rn: "(server_step env)\<^sup>*\<^sup>* s (s\<lparr>s_runner := rn\<rparr>)" "procs rn p \<noteq> Alive"
        "\<forall>q. procs rn q = Alive \<longrightarrow> procs (s_runner s) q = Alive"
      using process_killed [OF less(2) p] by blast
    have "{p. procs (s_runner s) p = Alive} \<subseteq> {..< next_pid (s_runner s)}"
      using less(2) by (auto simp: components_inv_def runner_inv_def pids_wf_def)
    then have "finite {p. procs (s_runner s) p = Alive}"
      by (rule finite_subset) simp
    then have "card {p. procs rn p = Alive} < card {p. procs (s_runner s) p = Alive}"
      using rn(2,3) p by (intro psubset_card_mono) auto
    then obtain rn' where "(server_step env)\<^sup>*\<^sup>* (s\<lparr>s_runner := rn\<rparr>) (s\<lparr>s_runner := rn'\<rparr>)"
        "\<forall>p \<in> P. procs rn' p \<noteq> Alive"
      using less(1) [of "s\<lparr>s_runner := rn\<rparr>"] sv.steps_inv [OF rn(1) less(2)] by auto
    then show ?thesis
      using rn(1) by (meson rtranclp_trans)
  qed
qed

subsection \<open>A call of a session can be brought to its return\<close>

text \<open>
  A step of the sessions that one call makes, which has begun or may begin. The manager's
  maps and the other calls stay, so these steps are steps of the server.
\<close>

definition live_step ::
  "entropy \<Rightarrow> json_lib \<Rightarrow> (call_id \<Rightarrow> string) \<Rightarrow> (call_id \<Rightarrow> call_pc \<Rightarrow> bool) \<Rightarrow> pool \<Rightarrow> pool \<Rightarrow> bool" where
  "live_step entropy js fmt may m m' \<longleftrightarrow>
     pool_step entropy js fmt m m' \<and> (\<exists>c. lone_call c m m' \<and> (calls m c \<noteq> No_Call \<or> may c (calls m' c)))"

lemma live_holder:
  assumes "pool_step entropy js fmt m m'" and "lone_call c m m'" and "holds_lock (calls m c) = Some r"
  shows "live_step entropy js fmt may m m'"
proof -
  have "calls m c \<noteq> No_Call" using assms(3) by auto
  then show ?thesis using assms(1,2) unfolding live_step_def by blast
qed

lemma lone_call_trans: "lone_call d a b \<Longrightarrow> lone_call d b u \<Longrightarrow> lone_call d a u"
  by (simp add: lone_call_def)

text \<open>A call that holds the lock of a session can be brought to release it.\<close>

lemma held_lock_freed:
  assumes "holds_lock (calls m d) = Some r"
  shows "\<exists>m'. (live_step entropy js fmt may)\<^sup>*\<^sup>* m m' \<and> exec_owner (sess_heap m' r) = None \<and> lone_call d m m'"
  using assms
proof (induction "lock_rank (calls m d)" arbitrary: m rule: less_induct)
  case less
  obtain m' where m': "pool_step entropy js fmt m m'" "lock_rank (calls m' d) < lock_rank (calls m d)"
      "holds_lock (calls m' d) = Some r \<or> exec_owner (sess_heap m' r) = None" "lone_call d m m'"
    using holder_can_move [OF less(2)] by blast
  have live: "live_step entropy js fmt may m m'"
    by (rule live_holder [OF m'(1,4) less(2)])
  show ?case
  proof (cases "holds_lock (calls m' d) = Some r")
    case True
    then obtain u where "(live_step entropy js fmt may)\<^sup>*\<^sup>* m' u" "exec_owner (sess_heap u r) = None" "lone_call d m' u"
      using less(1) [OF m'(2)] by blast
    then show ?thesis
      using live m'(4) lone_call_trans by (meson converse_rtranclp_into_rtranclp)
  next
    case False
    then show ?thesis using m'(3,4) live by blast
  qed
qed

lemma lock_freed:
  assumes "lock_wf m" and "holds_lock (calls m c) = None"
  shows "\<exists>m'. (live_step entropy js fmt may)\<^sup>*\<^sup>* m m' \<and> exec_owner (sess_heap m' r) = None \<and> calls m' c = calls m c"
proof (cases "exec_owner (sess_heap m r)")
  case None
  then show ?thesis by blast
next
  case (Some d)
  then have d: "holds_lock (calls m d) = Some r"
    using assms(1) by (simp add: lock_wf_def)
  then have "c \<noteq> d" using assms(2) by auto
  then show ?thesis
    using held_lock_freed [OF d] unfolding lone_call_def by metis
qed

text \<open>
  The interface of the two blocking calls: where a call waits for the lock, where it is once it
  has it, and where it has returned. A call can be made to return from wherever it is.
\<close>

locale session_call =
  fixes on :: "call_pc \<Rightarrow> sess_ref \<Rightarrow> bool" and lock_at entered :: "sess_ref \<Rightarrow> call_pc"
    and ended :: "call_pc \<Rightarrow> bool"
  assumes locks: "calls m c = lock_at r \<Longrightarrow> exec_owner (sess_heap m r) = None \<Longrightarrow>
      pool_step entropy js fmt m (set_call c (entered r) (set_owner r (Some c) m))"
    and begins: "calls m c = No_Call \<Longrightarrow> r < next_sess m \<Longrightarrow> pool_step entropy js fmt m (set_call c (lock_at r) m)"
    and kept: "pool_step entropy js fmt m m' \<Longrightarrow> on (calls m c) r \<Longrightarrow> on (calls m' c) r"
    and left: "pool_step entropy js fmt m m' \<Longrightarrow> on (calls m c) r \<Longrightarrow> calls m c \<noteq> lock_at r \<Longrightarrow> calls m' c \<noteq> lock_at r"
    and stages: "on pc r \<Longrightarrow> pc = lock_at r \<or> holds_lock pc = Some r \<or> ended pc"
    and at_lock: "on (lock_at r) r" "holds_lock (lock_at r) = None" "lock_at r \<noteq> No_Call"
    and at_enter: "on (entered r) r" "holds_lock (entered r) = Some r"
begin

lemma holder_returns:
  assumes "on (calls m c) r" and "holds_lock (calls m c) = Some r"
  shows "\<exists>m'. (live_step entropy js fmt may)\<^sup>*\<^sup>* m m' \<and> ended (calls m' c)"
  using assms
proof (induction "lock_rank (calls m c)" arbitrary: m rule: less_induct)
  case less
  obtain m' where m': "pool_step entropy js fmt m m'" "lock_rank (calls m' c) < lock_rank (calls m c)" "lone_call c m m'"
    using holder_can_move [OF less(3)] by blast
  have live: "live_step entropy js fmt may m m'"
    by (rule live_holder [OF m'(1,3) less(3)])
  have on: "on (calls m' c) r"
    by (rule kept [OF m'(1) less(2)])
  have "calls m c \<noteq> lock_at r"
    using less(3) at_lock(2) by auto
  then have "holds_lock (calls m' c) = Some r \<or> ended (calls m' c)"
    using stages [OF on] left [OF m'(1) less(2)] by blast
  then show ?case
  proof
    assume "holds_lock (calls m' c) = Some r"
    then show ?thesis
      using less(1) [OF m'(2) on] live by (meson converse_rtranclp_into_rtranclp)
  qed (use live in blast)
qed

lemma waiter_returns:
  assumes "lock_wf m" and "calls m c = lock_at r"
  shows "\<exists>m'. (live_step entropy js fmt may)\<^sup>*\<^sup>* m m' \<and> ended (calls m' c)"
proof -
  obtain u where u: "(live_step entropy js fmt may)\<^sup>*\<^sup>* m u" "exec_owner (sess_heap u r) = None" "calls u c = lock_at r"
    using lock_freed [OF assms(1)] assms(2) at_lock(2) by metis
  let ?v = "set_call c (entered r) (set_owner r (Some c) u)"
  have "live_step entropy js fmt may u ?v"
    using locks [OF u(3,2)] u(3) at_lock(3) unfolding live_step_def by (intro conjI exI [of _ c]) simp_all
  then have v: "(live_step entropy js fmt may)\<^sup>*\<^sup>* m ?v"
    using u(1) by simp
  have "\<exists>m'. (live_step entropy js fmt may)\<^sup>*\<^sup>* ?v m' \<and> ended (calls m' c)"
    by (rule holder_returns [of _ c r]) (simp_all add: at_enter)
  then show ?thesis
    using v by (meson rtranclp_trans)
qed

lemma call_returns:
  assumes "lock_wf m" and "r < next_sess m"
    and "calls m c = No_Call \<and> may c (lock_at r) \<or> on (calls m c) r"
  shows "\<exists>m'. (live_step entropy js fmt may)\<^sup>*\<^sup>* m m' \<and> ended (calls m' c)"
proof (cases "on (calls m c) r")
  case True
  then show ?thesis
    using stages [OF True] waiter_returns [OF assms(1)] holder_returns [OF True] by blast
next
  case False
  then have idle: "calls m c = No_Call" and may: "may c (lock_at r)"
    using assms(3) by auto
  let ?u = "set_call c (lock_at r) m"
  have "live_step entropy js fmt may m ?u"
    using begins [OF idle assms(2)] may unfolding live_step_def by (intro conjI exI [of _ c]) simp_all
  moreover have "lock_wf ?u"
    using idle at_lock(2) by (intro lock_wf_frame [OF assms(1)]) auto
  moreover from this have "\<exists>m'. (live_step entropy js fmt may)\<^sup>*\<^sup>* ?u m' \<and> ended (calls m' c)"
    by (rule waiter_returns) simp
  ultimately show ?thesis
    by (meson converse_rtranclp_into_rtranclp)
qed

end

interpretation xc: session_call exec_on X_Lock X_Enter "\<lambda>pc. \<exists>out. pc = X_Returned out"
proof
  show "calls m' c \<noteq> X_Lock r"
    if "pool_step entropy js fmt m m'" "exec_on (calls m c) r" "calls m c \<noteq> X_Lock r" for entropy js fmt m m' c r
    using that by (elim pool_stepE) (auto simp: set_owner_def exec_leave_def dest: restart_calls enter_calls)
  show "pc = X_Lock r \<or> holds_lock pc = Some r \<or> (\<exists>out. pc = X_Returned out)" if "exec_on pc r" for pc r
    using that by (cases pc) auto
qed (simp_all add: x_lock x_call pool_step_serves(1))

interpretation rc: session_call restart_on R_Lock R_Restart "\<lambda>pc. \<exists>b. pc = R_Returned b"
proof
  show "calls m' c \<noteq> R_Lock r"
    if "pool_step entropy js fmt m m'" "restart_on (calls m c) r" "calls m c \<noteq> R_Lock r" for entropy js fmt m m' c r
    using that by (elim pool_stepE) (auto simp: set_owner_def exec_leave_def dest: restart_calls enter_calls)
  show "pc = R_Lock r \<or> holds_lock pc = Some r \<or> (\<exists>b. pc = R_Returned b)" if "restart_on pc r" for pc r
    using that by (cases pc) auto
qed (simp_all add: r_lock r_call pool_step_serves(2))

text \<open>These steps are steps of the server.\<close>

lemma live_lifts:
  assumes "live_step (e_session_ids env) (e_json env) (e_session_format env) (may_use env s) (s_sessions s) pl"
  shows "server_step env s (s\<lparr>s_sessions := pl\<rparr>)"
proof (rule v_pool)
  show "pool_moves env s pl"
  proof -
    obtain c where c: "lone_call c (s_sessions s) pl"
        "calls (s_sessions s) c \<noteq> No_Call \<or> may_use env s c (calls pl c)"
      using assms unfolding live_step_def by blast
    have "may_use env s d (calls pl d)" if "calls (s_sessions s) d = No_Call" "calls pl d \<noteq> No_Call" for d
      using c that by (cases "d = c") (auto simp: lone_call_def)
    then show ?thesis
      using assms c(1) by (simp add: pool_moves_def live_step_def lone_call_def)
  qed
qed

lemma live_steps_lift:
  assumes "(live_step (e_session_ids env) (e_json env) (e_session_format env) (may_use env s))\<^sup>*\<^sup>* (s_sessions s) pl"
  shows "(server_step env)\<^sup>*\<^sup>* s (s\<lparr>s_sessions := pl\<rparr>)"
  using assms
proof (induction rule: rtranclp_induct)
  case (step p q)
  have "may_use env (s\<lparr>s_sessions := p\<rparr>) = may_use env s"
    by (simp add: may_use_def fun_eq_iff)
  then have "server_step env (s\<lparr>s_sessions := p\<rparr>) (s\<lparr>s_sessions := p\<rparr>\<lparr>s_sessions := q\<rparr>)"
    using step(2) by (intro live_lifts) simp
  then show ?case
    using step(3) by simp
qed simp

subsection \<open>The kill switch ends\<close>

lemma abort_lifts:
  assumes "r \<in> aborting (s_sessions s)"
  shows "server_step env s
    (s\<lparr>s_sessions := (abort_session r (s_sessions s))\<lparr>aborting := aborting (s_sessions s) - {r}\<rparr>\<rparr>)"
proof (rule v_pool)
  show "pool_moves env s ((abort_session r (s_sessions s))\<lparr>aborting := aborting (s_sessions s) - {r}\<rparr>)"
    using s_abort [OF assms, of "e_session_ids env" "e_json env" "e_session_format env"]
    by (simp add: pool_moves_def abort_session_def Let_def)
qed

lemma aborts_end:
  assumes "components_inv env s"
  shows "\<exists>pl. (server_step env)\<^sup>*\<^sup>* s (s\<lparr>s_sessions := pl\<rparr>) \<and> aborting pl = {}"
  using assms
proof (induction "card (aborting (s_sessions s))" arbitrary: s rule: less_induct)
  case less
  show ?case
  proof (cases "aborting (s_sessions s) = {}")
    case True
    then show ?thesis
      by (intro exI [of _ "s_sessions s"]) simp
  next
    case False
    then obtain r where r: "r \<in> aborting (s_sessions s)" by blast
    let ?pl = "(abort_session r (s_sessions s))\<lparr>aborting := aborting (s_sessions s) - {r}\<rparr>"
    note step = abort_lifts [OF r, of env]
    have "aborting (s_sessions s) \<subseteq> {..< next_sess (s_sessions s)}"
      using less(2) by (auto simp: components_inv_def pool_inv_def refs_wf_def)
    then have "finite (aborting (s_sessions s))"
      by (rule finite_subset) simp
    then have "card (aborting ?pl) < card (aborting (s_sessions s))"
      using r by (intro psubset_card_mono) auto
    then obtain pl where "(server_step env)\<^sup>*\<^sup>* (s\<lparr>s_sessions := ?pl\<rparr>) (s\<lparr>s_sessions := pl\<rparr>)" "aborting pl = {}"
      using less(1) [of "s\<lparr>s_sessions := ?pl\<rparr>"] sv.step_inv [OF step less(2)] by auto
    then show ?thesis
      using step by (meson converse_rtranclp_into_rtranclp)
  qed
qed

subsection \<open>Progress and the end of a request\<close>

text \<open>
  The formats the calls are made with, which the environment fixes for the steps of the runner
  and of the sessions, are those of the requests.
\<close>

definition formats_agree :: "'ip server_env \<Rightarrow> config \<Rightarrow> nat \<Rightarrow> bool" where
  "formats_agree env cfg k \<longleftrightarrow>
     (\<forall>q. decode_exec_request (e_exec_json env) cfg (rq_body (e_request env k)) = Inr q \<longrightarrow>
        e_run_format env (exec_call k) = req_format q \<and> e_session_format env k = req_format q)"

lemma asks_format:
  assumes "server_run env cfg s0 s" and "formats_agree env cfg k" and "asks_exec env s k command fmt"
  shows "e_run_format env (exec_call k) = fmt" "e_session_format env k = fmt"
proof -
  have "s_cfg s = cfg"
    using server_run_fixed [OF assms(1)] new_server_Inr(1) assms(1) unfolding server_run_def fixed_parts_def by fastforce
  then show "e_run_format env (exec_call k) = fmt" "e_session_format env k = fmt"
    using assms(2,3) by (auto simp: formats_agree_def asks_exec_def)
qed

abbreviation moves_on :: "'ip server_env \<Rightarrow> nat \<Rightarrow> 'ip server \<Rightarrow> bool" where
  "moves_on env k s \<equiv> \<exists>t. (server_step env)\<^sup>*\<^sup>* s t \<and> conn_rank (s_conns t k) < conn_rank (s_conns s k)"

lemma step_moves_on:
  "server_step env s t \<Longrightarrow> conn_rank (s_conns t k) < conn_rank (s_conns s k) \<Longrightarrow> moves_on env k s"
  by blast

lemma then_moves_on:
  "(server_step env)\<^sup>*\<^sup>* s u \<Longrightarrow> s_conns u k = s_conns s k \<Longrightarrow> server_step env u t \<Longrightarrow>
   conn_rank (s_conns t k) < conn_rank (s_conns s k) \<Longrightarrow> moves_on env k s"
  by (metis rtranclp.rtrancl_into_rtrancl)

text \<open>The connections that wait for the runner, for a session or for the kill switch.\<close>

lemma running_moves_on:
  assumes "components_inv env s" and "s_conns s k = C_Running cx command (e_run_format env (exec_call k))"
  shows "moves_on env k s"
proof -
  have "may_run env s (exec_call k)"
    using assms(2) by (auto simp: may_run_def)
  then obtain rn out where rn: "(server_step env)\<^sup>*\<^sup>* s (s\<lparr>s_runner := rn\<rparr>)" "runs rn (exec_call k) = Returned out"
    using run_returns [OF assms(1)] by blast
  have last: "server_step env (s\<lparr>s_runner := rn\<rparr>) (handle_exec_end env k cx command out (s\<lparr>s_runner := rn\<rparr>))"
    by (rule v_run_end) (simp_all add: assms rn(2))
  then show ?thesis
    using done_rank [OF end_conns(1)] assms by (intro then_moves_on [OF rn(1) _ last]) simp_all
qed

lemma session_moves_on:
  assumes "components_inv env s" and "calls_fit s"
    and "s_conns s k = C_Exec cx sid r command (e_session_format env k) \<or> s_conns s k = C_Restart r"
  shows "moves_on env k s"
proof -
  let ?live = "live_step (e_session_ids env) (e_json env) (e_session_format env) (may_use env s)"
  have lock: "lock_wf (s_sessions s)"
    using assms(1) by (simp add: components_inv_def pool_inv_def)
  have fits: "call_fits (s_sessions s) k (s_conns s k)"
    using assms(2) by (simp add: calls_fit_def)
  from assms(3) show ?thesis
  proof
    assume at: "s_conns s k = C_Exec cx sid r command (e_session_format env k)"
    then have "may_use env s k (X_Lock r)"
      by (auto simp: may_use_def)
    then obtain pl out where pl: "?live\<^sup>*\<^sup>* (s_sessions s) pl" "calls pl k = X_Returned out"
      using xc.call_returns [OF lock, of r k] fits unfolding at call_fits_def by auto blast+
    have last: "server_step env (s\<lparr>s_sessions := pl\<rparr>)
        (handle_session_exec_end env k cx sid command out (s\<lparr>s_sessions := pl\<rparr>))"
      by (rule v_exec_end) (simp_all add: at pl(2))
    then show ?thesis
      using done_rank [OF end_conns(2)] at by (intro then_moves_on [OF live_steps_lift [OF pl(1)] _ last]) simp_all
  next
    assume at: "s_conns s k = C_Restart r"
    then have "may_use env s k (R_Lock r)"
      by (auto simp: may_use_def)
    then obtain pl b where pl: "?live\<^sup>*\<^sup>* (s_sessions s) pl" "calls pl k = R_Returned b"
      using rc.call_returns [OF lock, of r k] fits unfolding at call_fits_def by auto blast+
    have last: "server_step env (s\<lparr>s_sessions := pl\<rparr>)
        (handle_session_restart_end env 0 k r b (s\<lparr>s_sessions := pl\<rparr>))"
      by (rule v_restart_end) (simp_all add: at pl(2))
    then show ?thesis
      using done_rank [OF end_conns(3)] at by (intro then_moves_on [OF live_steps_lift [OF pl(1)] _ last]) simp_all
  qed
qed

lemma kill_moves_on:
  assumes "components_inv env s"
    and "s_conns s k = C_Kill_Wait cx n P \<or> s_conns s k = C_Kill_End cx n R"
  shows "moves_on env k s"
  using assms(2)
proof
  assume at: "s_conns s k = C_Kill_Wait cx n P"
  obtain rn where rn: "(server_step env)\<^sup>*\<^sup>* s (s\<lparr>s_runner := rn\<rparr>)" "\<forall>p \<in> P. procs rn p \<noteq> Alive"
    using processes_end [OF assms(1)] by blast
  have last: "server_step env (s\<lparr>s_runner := rn\<rparr>) (goto_conn k (C_Kill_Sessions cx n) (s\<lparr>s_runner := rn\<rparr>))"
    by (rule v_kill_wait [where P = P]) (simp_all add: at rn(2))
  then show ?thesis
    using at by (intro then_moves_on [OF rn(1) _ last]) simp_all
next
  assume at: "s_conns s k = C_Kill_End cx n R"
  obtain pl where pl: "(server_step env)\<^sup>*\<^sup>* s (s\<lparr>s_sessions := pl\<rparr>)" "aborting pl = {}"
    using aborts_end [OF assms(1)] by blast
  have last: "server_step env (s\<lparr>s_sessions := pl\<rparr>) (kill_finish env k cx n (s\<lparr>s_sessions := pl\<rparr>))"
    by (rule v_kill_end [where R = R]) (simp_all add: at pl(2))
  then show ?thesis
    using done_rank [OF end_conns(4)] at by (intro then_moves_on [OF pl(1) _ last]) simp_all
qed

lemma connection_moves_on:
  assumes run: "server_run env cfg s0 s" and fmt: "formats_agree env cfg k" and live: "\<not> over (s_conns s k)"
  shows "moves_on env k s"
proof -
  have inv: "components_inv env s"
    by (rule server_run_inv [OF run])
  have wf: "conn_wf env s k"
    using server_run_traced [OF run] by (simp add: all_traced_def conns_wf_def)
  note format = asks_format [OF run fmt]
  show ?thesis
  proof (cases "s_conns s k")
    case C_Idle
    show ?thesis
      by (rule step_moves_on [OF v_arrive [OF C_Idle]]) (simp add: middleware_rank C_Idle)
  next
    case (C_Blocklist cx)
    show ?thesis
      using middleware_rank(2) [of env k cx s] by (intro step_moves_on [OF v_blocklist [OF C_Blocklist]]) (simp add: C_Blocklist)
  next
    case (C_Limit cx)
    show ?thesis
      using middleware_rank(3) [of env 0 k cx s] by (intro step_moves_on [OF v_rate [OF C_Limit, where now = 0]]) (simp add: C_Limit)
  next
    case (C_Auth cx)
    show ?thesis
      using middleware_rank(4) [of env 0 k cx s] by (intro step_moves_on [OF v_token [OF C_Auth, where now = 0]]) (simp add: C_Auth)
  next
    case (C_Guard cx)
    show ?thesis
      using middleware_rank(5) [of env k cx s] by (intro step_moves_on [OF v_guard [OF C_Guard]]) (simp add: C_Guard)
  next
    case (C_Body cx)
    show ?thesis
      using handle_body_rank [of env True 0 k cx s] by (intro step_moves_on [OF v_body [OF C_Body, where ok = True and now = 0]]) (simp add: C_Body)
  next
    case (C_Running cx command f)
    then have "e_run_format env (exec_call k) = f"
      using wf by (intro format(1) [of command]) (simp add: conn_wf_def)
    then show ?thesis
      using C_Running by (intro running_moves_on [OF inv, of k cx command]) simp
  next
    case (C_Exec cx sid r command f)
    then have "e_session_format env k = f"
      using wf by (intro format(2) [of command]) (simp add: conn_wf_def)
    then show ?thesis
      using C_Exec by (intro session_moves_on [OF inv server_run_calls [OF run], where r = r]) simp
  next
    case (C_Restart r)
    then show ?thesis
      by (intro session_moves_on [OF inv server_run_calls [OF run], where r = r]) simp
  next
    case (C_Kill_Jobs cx)
    show ?thesis
      by (rule step_moves_on [OF v_kill_jobs [OF C_Kill_Jobs]]) (simp add: kill_rank C_Kill_Jobs)
  next
    case (C_Kill_Runner cx n)
    show ?thesis
      by (rule step_moves_on [OF v_kill_runner [OF C_Kill_Runner]]) (simp add: kill_rank C_Kill_Runner)
  next
    case (C_Kill_Sessions cx n)
    show ?thesis
      by (rule step_moves_on [OF v_kill_sessions [OF C_Kill_Sessions]]) (simp add: kill_rank C_Kill_Sessions)
  next
    case (C_Kill_Wait cx n P)
    show ?thesis
      by (rule kill_moves_on [OF inv disjI1, OF C_Kill_Wait])
  next
    case (C_Kill_End cx n R)
    show ?thesis
      by (rule kill_moves_on [OF inv disjI2, OF C_Kill_End])
  qed (use live in simp_all)
qed

text \<open>
  C6: Every request can be answered. From every reachable state of the server, whatever the other
  connections, the jobs, the sessions, the reaper, the kill switch and the shutdown are doing,
  there is a continuation in which a given connection has its response, or was dropped by the
  blocklist. No lock of a session, process the kill switch waits for, or call in progress can
  leave a request without an answer for ever.
\<close>

theorem requests_can_be_answered:
  assumes "server_run env cfg s0 s"
    and "\<And>q. decode_exec_request (e_exec_json env) cfg (rq_body (e_request env k)) = Inr q \<Longrightarrow>
      e_run_format env (exec_call k) = req_format q \<and> e_session_format env k = req_format q"
  shows "\<exists>t. (server_step env)\<^sup>*\<^sup>* s t \<and> (s_conns t k = C_Dropped \<or> (\<exists>resp. s_conns t k = C_Done resp))"
  using assms(1)
proof (induction "conn_rank (s_conns s k)" arbitrary: s rule: less_induct)
  case less
  show ?case
  proof (cases "over (s_conns s k)")
    case True
    then show ?thesis
      by (cases "s_conns s k") auto
  next
    case False
    have "formats_agree env cfg k"
      using assms(2) by (simp add: formats_agree_def)
    then obtain u where u: "(server_step env)\<^sup>*\<^sup>* s u" "conn_rank (s_conns u k) < conn_rank (s_conns s k)"
      using connection_moves_on [OF less(2) _ False] by blast
    then show ?thesis
      using less(1) [OF u(2) server_run_steps [OF less(2) u(1)]] by (meson rtranclp_trans)
  qed
qed

theorem requests_can_be_answered_witness:
  "\<exists>(s :: string server) cx t. s_conns s 0 = C_Running cx ''x'' format_lines \<and>
     (server_step (sample_env all_exec))\<^sup>*\<^sup>* s t \<and>
     (s_conns t 0 = C_Dropped \<or> (\<exists>resp. s_conns t 0 = C_Done resp))"
proof -
  obtain s cx where s: "sample_reaches all_exec s" "s_conns s 0 = C_Running cx ''x'' format_lines"
    using sample_running by blast
  have "\<exists>t. (server_step (sample_env all_exec))\<^sup>*\<^sup>* s t \<and>
      (s_conns t 0 = C_Dropped \<or> (\<exists>resp. s_conns t 0 = C_Done resp))"
    by (rule requests_can_be_answered [OF s(1)]) (use sample_exec [of all_exec "[''exec'']"] in auto)
  then show ?thesis
    using s(2) by blast
qed

end
