(* ===== verification/Server_Fair.thy ===== *)
theory Server_Fair
  imports Server_Live
begin

section \<open>Requests are answered\<close>

text \<open>
  What a fair scheduler gives. A connection whose request waits neither for a session nor for the
  kill switch is answered or dropped in every infinite execution that is fair to the connection
  and to its call of the runner, whatever the rest of the server does: nothing it waits for
  can stop being possible, and nothing sends it back.
\<close>

subsection \<open>How far a call of the runner is from its return\<close>









subsection \<open>How far a connection is from its answer\<close>






subsection \<open>Fairness\<close>














end
