(* ===== verification/Agent.thy ===== *)
theory Agent
  imports Server_Sample Scheduler Go_Flag "HOL-Library.Sublist"
begin

section \<open>The agent program: cmd/agent/main_windows.go\<close>

text \<open>
  \<open>run\<close> of the agent: its flags, the token generator, the choice between service and console,
  and the loop of the Windows service. What the program finds around it is a record; the disk
  is the map of files. \<open>server.New\<close> and \<open>Start\<close> are the server theory's; the Windows service
  manager is the list of events the service is given.
\<close>

subsection \<open>The environment of the program\<close>

text \<open>
  \<open>ag_base_dir\<close>: the directory of the executable, when \<open>os.Executable\<close> answers.
  \<open>ag_written\<close>: all of the token file, or its first bytes before an error.
\<close>

record agent_env =
  ag_base_dir :: "string option"
  ag_paths :: path_lib
  ag_decode :: "config json_decoder"
  ag_read_error :: "string \<Rightarrow> string option"
  ag_stat_fails :: bool
  ag_random :: "string option"
  ag_mkdir_ok :: bool
  ag_open_ok :: bool
  ag_written :: "nat option"
  ag_close_ok :: bool
  ag_log_mkdir_ok :: bool
  ag_log_open_ok :: bool
  ag_is_service :: "bool option"

datatype token_gen_error = Token_Exists | Token_Stat | No_Random | No_Token_Dir | Token_Not_Written

datatype agent_exit =
    Agent_No_Executable | Agent_Flags flag_error | Agent_Version
  | Agent_No_Token token_gen_error | Agent_Printed string
  | Agent_Config config_error | Agent_Log | Agent_Mode
  | Agent_Service config | Agent_Console config

subsection \<open>The token generator\<close>

text \<open>\<open>base64.RawURLEncoding\<close>: the other two characters, and no padding.\<close>

definition url_char :: "char \<Rightarrow> char" where
  "url_char c = (if c = CHR ''+'' then CHR ''-'' else if c = CHR ''/'' then CHR ''_'' else c)"

definition raw_url_encode :: "string \<Rightarrow> string" where
  "raw_url_encode b = map url_char (filter (\<lambda>c. c \<noteq> b64_pad) (b64_encode b))"

definition crlf :: string where
  "crlf = [CHR 0x0D, CHR 0x0A]"

text \<open>\<open>os.Stat\<close> and \<open>os.ReadFile\<close> on the disk, and \<open>os.WriteFile\<close>: truncate, write, close.\<close>

definition stat_file :: "bool \<Rightarrow> files \<Rightarrow> string \<Rightarrow> stat_answer" where
  "stat_file fails fs path =
     (if fails then Stat_Error else if fs path = None then Stat_Missing else Stat_Exists)"

definition read_file :: "string option \<Rightarrow> files \<Rightarrow> string \<Rightarrow> string + string" where
  "read_file err fs path =
     (case err of
        Some e \<Rightarrow> Inl e
      | None \<Rightarrow> (case fs path of None \<Rightarrow> Inl ''file does not exist'' | Some b \<Rightarrow> Inr b))"

definition write_file :: "agent_env \<Rightarrow> string \<Rightarrow> string \<Rightarrow> files \<Rightarrow> files \<times> bool" where
  "write_file ag path data fs =
     (case open_create (ag_open_ok ag) Open_Trunc path fs of
        None \<Rightarrow> (fs, False)
      | Some fs1 \<Rightarrow>
          (case ag_written ag of
             Some n \<Rightarrow> (append_file path (take n data) fs1, False)
           | None \<Rightarrow> (append_file path data fs1, ag_close_ok ag)))"

definition generate_token ::
  "agent_env \<Rightarrow> string \<Rightarrow> bool \<Rightarrow> files \<Rightarrow> files \<times> (token_gen_error + string)" where
  "generate_token ag path force fs =
     (let stat = stat_file (ag_stat_fails ag) fs path in
      if \<not> force \<and> stat = Stat_Exists then (fs, Inl Token_Exists)
      else if \<not> force \<and> stat \<noteq> Stat_Missing then (fs, Inl Token_Stat)
      else
        case ag_random ag of
          None \<Rightarrow> (fs, Inl No_Random)
        | Some b \<Rightarrow>
            let token = raw_url_encode b in
            if \<not> ag_mkdir_ok ag then (fs, Inl No_Token_Dir)
            else
              case write_file ag path (token @ crlf) fs of
                (fs1, ok) \<Rightarrow> (fs1, if ok then Inr token else Inl Token_Not_Written))"

subsection \<open>The program\<close>

text \<open>\<open>makeLogger\<close>: the directory, then the file opened for appending.\<close>

definition make_logger :: "agent_env \<Rightarrow> string \<Rightarrow> files \<Rightarrow> files option" where
  "make_logger ag base_dir fs =
     (let log_dir = path_join (ag_paths ag) [base_dir, ''logs''] in
      if \<not> ag_log_mkdir_ok ag then None
      else open_create (ag_log_open_ok ag) Open_Keep (path_join (ag_paths ag) [log_dir, ''agent.log'']) fs)"

definition agent_flags :: "(string \<times> flag_kind) list" where
  "agent_flags =
     [(''config'', String_Flag), (''gen-token'', Bool_Flag), (''force'', Bool_Flag),
      (''token-output'', String_Flag), (''version'', Bool_Flag), (''console'', Bool_Flag)]"

definition agent_main ::
  "'ip net_lib \<Rightarrow> agent_env \<Rightarrow> string list \<Rightarrow> files \<Rightarrow> files \<times> agent_exit" where
  "agent_main net ag args fs =
     (case ag_base_dir ag of
        None \<Rightarrow> (fs, Agent_No_Executable)
      | Some base_dir \<Rightarrow>
          (case parse_flags agent_flags args [] of
             Inl e \<Rightarrow> (fs, Agent_Flags e)
           | Inr (vals, _) \<Rightarrow>
               let join = path_join (ag_paths ag);
                   config_path = string_flag vals ''config'' (join [base_dir, ''config.json'']);
                   token_output = string_flag vals ''token-output'' (join [base_dir, ''token.txt''])
               in if bool_flag vals ''version'' then (fs, Agent_Version)
                  else if bool_flag vals ''gen-token'' then
                    (case generate_token ag token_output (bool_flag vals ''force'') fs of
                       (fs1, Inl e) \<Rightarrow> (fs1, Agent_No_Token e)
                     | (fs1, Inr token) \<Rightarrow> (fs1, Agent_Printed token))
                  else
                    case load_config net (ag_decode ag)
                           (default_config join (path_dir (ag_paths ag) config_path)) (read_file (ag_read_error ag config_path) fs config_path) of
                      Inl e \<Rightarrow> (fs, Agent_Config e)
                    | Inr cfg \<Rightarrow>
                        (case make_logger ag base_dir fs of
                           None \<Rightarrow> (fs, Agent_Log)
                         | Some fs1 \<Rightarrow>
                             (case ag_is_service ag of
                                None \<Rightarrow> (fs1, Agent_Mode)
                              | Some service \<Rightarrow>
                                  (fs1, if service \<and> \<not> bool_flag vals ''console'' then Agent_Service cfg
                                        else Agent_Console cfg)))))"

subsection \<open>Starting the server and the scheduler\<close>

text \<open>
  What \<open>server.New\<close> and \<open>Start\<close> find: the errors of reading the token and of \<open>os.Stat\<close> on the
  kill-switch file, the directory of the audit log, the time, the key pair and the port.
\<close>

record launch_env =
  la_token_error :: "string option"
  la_audit_dir :: bool
  la_kill_stat_fails :: bool
  la_now :: timestamp
  la_keypair :: bool
  la_listens :: bool

definition launch_server ::
  "'ip server_env \<Rightarrow> launch_env \<Rightarrow> config \<Rightarrow> string \<Rightarrow> files \<Rightarrow> server_error + 'ip server" where
  "launch_server env la cfg version fs =
     new_server env cfg version (la_now la) (read_file (la_token_error la) fs (token_path cfg))
       (la_audit_dir la) fs (stat_file (la_kill_stat_fails la) fs (kill_switch_path cfg))"

text \<open>
  The limits of the HTTP server \<open>New\<close> configures. Reading a request, writing its response and the
  size of its headers are bounded; HTTP/2 is off, so that a connection can be dropped.
\<close>

record http_settings =
  hs_address :: string
  header_timeout :: duration
  read_timeout :: duration
  write_timeout :: duration
  keep_alive_timeout :: duration
  header_limit :: nat
  tls_minimum :: nat
  http2 :: bool

definition http_server :: "config \<Rightarrow> http_settings" where
  "http_server cfg =
     \<lparr>hs_address = listen_address cfg, header_timeout = 10 * nanos_per_second,
      read_timeout = 30 * nanos_per_second,
      write_timeout = int64 (command_timeout cfg + 30 * nanos_per_second),
      keep_alive_timeout = 60 * nanos_per_second, header_limit = 32 * 1024, tls_minimum = 0x0303,
      http2 = False\<rparr>"

text \<open>
  A response may still be written half a minute after the longest command, up to the last
  configured seconds before \<open>int64\<close> wraps; there the accepted configuration has a negative
  limit, which the HTTP server reads as none.
\<close>

lemma write_timeout_covers:
  assumes "0 < command_timeout_sec cfg" and "command_timeout_sec cfg \<le> 9223372006"
  shows "write_timeout (http_server cfg) = command_timeout cfg + 30 * nanos_per_second"
    "0 < command_timeout cfg"
  using assms by (simp_all add: http_server_def command_timeout_def seconds_id nanos_per_second_def int64_id)

lemma accepted_write_timeout_wraps:
  fixes n :: int
  defines "n \<equiv> 9223372036"
  defines "cfg \<equiv> agent_defaults\<lparr>command_timeout_sec := n, long_command_timeout_sec := n\<rparr>"
  shows "validate dotted_net cfg = None" and "0 < command_timeout cfg" and "write_timeout (http_server cfg) < 0"
  by (simp_all add: n_def cfg_def validate_def agent_defaults_def default_config_def default_address
      http_server_def command_timeout_def seconds_def nanos_per_second_def int64_def)

text \<open>\<open>Start\<close> up to its return; the goroutine it starts serves the connections.\<close>

datatype start_error = No_Keypair | No_Listener

definition start_listener :: "launch_env \<Rightarrow> start_error option" where
  "start_listener la =
     (if \<not> la_keypair la then Some No_Keypair else if \<not> la_listens la then Some No_Listener else None)"

text \<open>What that goroutine sends when \<open>Serve\<close> returns; the end by \<open>Shutdown\<close> is no error.\<close>

datatype serve_error = Err_Server_Closed | Serve_Failed string

definition serve_answer :: "serve_error \<Rightarrow> string option" where
  "serve_answer e = (case e of Err_Server_Closed \<Rightarrow> None | Serve_Failed text \<Rightarrow> Some text)"

text \<open>\<open>Run\<close>: the errors of \<open>Start\<close>, or what the goroutine sends.\<close>

definition run_server :: "launch_env \<Rightarrow> serve_error \<Rightarrow> start_error + string option" where
  "run_server la e = (case start_listener la of Some err \<Rightarrow> Inl err | None \<Rightarrow> Inr (serve_answer e))"

definition start_updates :: "config \<Rightarrow> scheduler" where
  "start_updates cfg =
     start_scheduler
       (new_scheduler (updater_path cfg) (updater_config_path cfg) (update_check_interval cfg))"

text \<open>The deferred \<open>stopUpdates\<close>.\<close>

definition stop_updates :: "scheduler \<Rightarrow> scheduler" where
  "stop_updates sch = sch\<lparr>ctx_done := True\<rparr>"

subsection \<open>The console\<close>

text \<open>\<open>select\<close> waits for the end of the server or a signal; the second carries what \<open>Shutdown\<close> answers.\<close>

datatype console_event = Console_Ended "string option" | Console_Signal "string option"

datatype console_exit =
    Console_No_Server server_error | Console_Not_Started start_error | Console_Serving
  | Console_Returned "string option"

definition run_console ::
  "'ip server_env \<Rightarrow> launch_env \<Rightarrow> config \<Rightarrow> string \<Rightarrow> files \<Rightarrow> console_event list \<Rightarrow>
   console_exit \<times> scheduler option" where
  "run_console env la cfg version fs events =
     (case launch_server env la cfg version fs of
        Inl e \<Rightarrow> (Console_No_Server e, None)
      | Inr s \<Rightarrow>
          (case start_listener la of
             Some e \<Rightarrow> (Console_Not_Started e, None)
           | None \<Rightarrow>
               let sch = start_updates cfg
               in case events of
                    [] \<Rightarrow> (Console_Serving, Some sch)
                  | Console_Ended err # _ \<Rightarrow> (Console_Returned err, Some (stop_updates sch))
                  | Console_Signal err # _ \<Rightarrow> (Console_Returned err, Some (stop_updates sch))))"

subsection \<open>The Windows service\<close>

datatype svc_state = Svc_Start_Pending | Svc_Running | Svc_Stop_Pending

datatype svc_cmd = Svc_Interrogate | Svc_Stop | Svc_Shutdown | Svc_Other nat

record svc_status =
  svc_state :: svc_state
  svc_accepts :: "svc_cmd list"

text \<open>
  What the loop of \<open>Execute\<close> receives: the end of the server, or a request of the service manager
  with the status it believes to be current.
\<close>

datatype svc_event = Server_Ended "string option" | Svc_Request svc_cmd svc_status

definition commands_accepted :: "svc_cmd list" where
  "commands_accepted = [Svc_Stop, Svc_Shutdown]"

definition server_closed :: string where
  "server_closed = ''Server closed''"

text \<open>
  The statuses reported, the exit code (\<open>None\<close> while the service goes on), and whether the
  server is shut down. Only the first event that ends the loop counts.
\<close>

fun service_loop :: "svc_event list \<Rightarrow> svc_status list \<times> nat option \<times> bool" where
  "service_loop [] = ([], None, False)"
| "service_loop (Server_Ended err # events) =
     ([], Some (case err of
                  None \<Rightarrow> 0
                | Some e \<Rightarrow> if \<not> sublist server_closed e then 1 else 0), False)"
| "service_loop (Svc_Request cmd current # events) =
     (case cmd of
        Svc_Interrogate \<Rightarrow> (case service_loop events of (statuses, r) \<Rightarrow> (current # statuses, r))
      | Svc_Stop \<Rightarrow> ([\<lparr>svc_state = Svc_Stop_Pending, svc_accepts = []\<rparr>], Some 0, True)
      | Svc_Shutdown \<Rightarrow> ([\<lparr>svc_state = Svc_Stop_Pending, svc_accepts = []\<rparr>], Some 0, True)
      | Svc_Other n \<Rightarrow> service_loop events)"

record 'ip service =
  svc_statuses :: "svc_status list"
  svc_exit :: "nat option"
  svc_shut_down :: bool
  svc_server :: "'ip server option"
  svc_updates :: "scheduler option"

text \<open>\<open>Execute\<close>, with the server as \<open>New\<close> built it and the scheduler as \<open>Start\<close> left it.\<close>

definition service_execute ::
  "'ip server_env \<Rightarrow> launch_env \<Rightarrow> config \<Rightarrow> string \<Rightarrow> files \<Rightarrow> svc_event list \<Rightarrow> 'ip service" where
  "service_execute env la cfg version fs events =
     (let pending = \<lparr>svc_state = Svc_Start_Pending, svc_accepts = []\<rparr>;
          failed = \<lparr>svc_statuses = [pending], svc_exit = Some 1, svc_shut_down = False,
                    svc_server = None, svc_updates = None\<rparr>
      in case launch_server env la cfg version fs of
           Inl e \<Rightarrow> failed
         | Inr s \<Rightarrow>
             if start_listener la \<noteq> None then failed
             else
               let running = \<lparr>svc_state = Svc_Running, svc_accepts = commands_accepted\<rparr>;
                   sch = start_updates cfg
               in case service_loop events of
                    (statuses, code, shut) \<Rightarrow>
                      \<lparr>svc_statuses = pending # running # statuses, svc_exit = code, svc_shut_down = shut,
                       svc_server = Some s,
                       svc_updates = Some (if code = None then sch else stop_updates sch)\<rparr>)"

subsection \<open>The text of a token\<close>

text \<open>Padding stands only at the end of the encoding, and the length decides how much.\<close>

definition b64_body :: "string \<Rightarrow> string" where
  "b64_body s = filter (\<lambda>c. c \<noteq> b64_pad) (b64_encode s)"

fun b64_padding :: "nat \<Rightarrow> nat" where
  "b64_padding 0 = 0"
| "b64_padding (Suc 0) = 2"
| "b64_padding (Suc (Suc 0)) = 1"
| "b64_padding (Suc (Suc (Suc n))) = b64_padding n"

lemma b64_encode_body: "b64_encode s = b64_body s @ replicate (b64_padding (length s)) b64_pad"
  unfolding b64_body_def
  by (induction s rule: b64_encode.induct)
     (simp_all add: b64_char_not_pad b64_index_bounds numeral_2_eq_2)

lemma b64_body_length: "length (b64_body s) = (8 * length s + 5) div 6"
  unfolding b64_body_def
  by (induction s rule: b64_encode.induct) (simp_all add: b64_char_not_pad b64_index_bounds)

lemma b64_body_values: "c \<in> set (b64_body s) \<Longrightarrow> b64_value c \<noteq> None"
  using b64_encode_alphabet [of s] by (auto simp: b64_body_def b64_alphabet_def)

lemma b64_body_inj:
  assumes "length s = length t" and "b64_body s = b64_body t"
  shows "s = t"
proof -
  have "b64_encode s = b64_encode t"
    using assms by (simp add: b64_encode_body)
  then have "b64_quads (b64_encode s) = b64_quads (b64_encode t)"
    by simp
  then show ?thesis
    by (simp add: b64_quads_encode)
qed

text \<open>The two characters of the URL alphabet are not used by the standard one.\<close>

definition url_specials :: "char set" where
  "url_specials = {CHR ''-'', CHR ''_''}"

lemma url_specials_values: "c \<in> url_specials \<Longrightarrow> b64_value c = None"
  by (auto simp: url_specials_def b64_value_def Let_def)

lemma url_char_inj: "inj_on url_char (- url_specials)"
  by (auto simp: inj_on_def url_char_def url_specials_def split: if_splits)

lemma raw_url_body: "raw_url_encode s = map url_char (b64_body s)"
  by (simp add: raw_url_encode_def b64_body_def)

lemma raw_url_inj:
  assumes "length s = length t" and "raw_url_encode s = raw_url_encode t"
  shows "s = t"
proof (rule b64_body_inj [OF assms(1)])
  have "set (b64_body s) \<union> set (b64_body t) \<subseteq> - url_specials"
    using b64_body_values url_specials_values by blast
  then have "inj_on url_char (set (b64_body s) \<union> set (b64_body t))"
    by (rule inj_on_subset [OF url_char_inj])
  then show "b64_body s = b64_body t"
    using assms(2) unfolding raw_url_body by (metis inj_on_map_eq_map)
qed

lemma raw_url_length: "length (raw_url_encode s) = (8 * length s + 5) div 6"
  by (simp add: raw_url_body b64_body_length)

text \<open>No byte of a token belongs to white space, so the line break is all that is trimmed.\<close>

lemma space_bytes_values: "c \<in> space_bytes \<Longrightarrow> b64_value c = None \<and> c \<notin> url_specials"
  by (auto simp: space_bytes_def space_runes_def b64_value_def Let_def url_specials_def)

lemma url_char_no_space: "b64_value c \<noteq> None \<Longrightarrow> url_char c \<notin> space_bytes"
  using space_bytes_values [of "url_char c"]
  by (auto simp: url_char_def url_specials_def split: if_splits)

lemma raw_url_no_space: "set (raw_url_encode s) \<inter> space_bytes = {}"
  using b64_body_values url_char_no_space by (auto simp: raw_url_body)

lemma trim_token: "trim_space (raw_url_encode s) = raw_url_encode s"
  by (rule trim_space_plain [OF raw_url_no_space])

lemma trim_token_line:
  assumes "t \<noteq> []" and "set t \<inter> space_bytes = {}"
  shows "trim_space (t @ crlf) = t"
proof -
  have out: "\<not> has_prefix (w @ v) r" if "w \<noteq> []" "set w \<inter> space_bytes = {}" "r \<noteq> []" "set r \<subseteq> space_bytes" for w v r
    using that by (cases w; cases r) (auto simp: has_prefix_iff)
  have runes: "r \<noteq> [] \<and> set r \<subseteq> space_bytes" if "r \<in> set space_runes" for r
    using that by (auto simp: space_runes_def space_bytes_def)
  have left: "strip_left space_runes (t @ crlf) = t @ crlf"
    using out [OF assms] runes by (intro strip_left_id) auto
  have right: "strip_left (map rev space_runes) (rev t) = rev t"
  proof (intro strip_left_id ballI impI)
    fix r assume "r \<in> set (map rev space_runes)"
    then obtain x where "x \<in> set space_runes" and r: "r = rev x" by auto
    then have "r \<noteq> []" "set r \<subseteq> space_bytes" using runes [of x] by simp_all
    then show "\<not> has_prefix (rev t) r" using out [of "rev t" r "[]"] assms by simp
  qed
  have "strip_left (map rev space_runes) (CHR 0x0A # CHR 0x0D # rev t) = strip_left (map rev space_runes) (rev t)"
    by (subst strip_left.simps, subst strip_left.simps) (simp add: space_runes_def has_prefix_def)
  then show ?thesis
    using left right by (simp add: trim_space_def crlf_def)
qed

subsection \<open>The generated token\<close>

lemma write_file_ok:
  "write_file ag path data fs = (fs1, True) \<Longrightarrow> fs1 path = Some data \<and> (\<forall>p. p \<noteq> path \<longrightarrow> fs1 p = fs p)"
  by (auto simp: write_file_def open_create_def append_file_def split: option.splits if_splits)

lemma generate_token_ok:
  assumes "generate_token ag path force fs = (fs1, Inr token)"
  obtains b where "ag_random ag = Some b" "token = raw_url_encode b" "fs1 path = Some (token @ crlf)"
  using assms write_file_ok
  by (auto simp: generate_token_def Let_def split: if_splits option.splits prod.splits)

lemma token_loads:
  assumes "length b = 32"
  shows "load_token sha256 (Inr (raw_url_encode b @ crlf)) =
    Inr \<lparr>hash = sha256 (raw_url_encode b), fingerprint = hex_encode (take 8 (sha256 (raw_url_encode b)))\<rparr>"
proof -
  have n: "length (raw_url_encode b) = 43"
    by (simp add: raw_url_length assms)
  then have "trim_space (raw_url_encode b @ crlf) = raw_url_encode b"
    using trim_token_line [OF _ raw_url_no_space, of b] by fastforce
  then show ?thesis
    by (simp add: load_token_def n Let_def)
qed

lemma token_authenticates:
  "hash a = sha256 (raw_url_encode b) \<Longrightarrow> authenticate sha256 a (bearer_prefix @ raw_url_encode b)"
  by (simp add: authenticate_def Let_def constant_time_compare_def has_prefix_iff trim_prefix_def trim_token)

text \<open>
  C18: (round trip) the 32 random bytes \<open>--gen-token\<close> draws become a token of 43 characters that no
  other 32 bytes give; the agent then started on that file accepts it: \<open>server.New\<close> never fails
  on the token, and the server it builds authenticates the header \<open>Bearer <token>\<close>.
\<close>

theorem generated_token_authenticates:
  assumes "generate_token ag (token_path cfg) force fs = (fs1, Inr token)"
    and "ag_random ag = Some b" and "length b = 32" and "la_token_error la = None"
  shows "length token = 43 \<and> (\<forall>b'. length b' = 32 \<longrightarrow> raw_url_encode b' = token \<longrightarrow> b' = b) \<and>
    (case launch_server env la cfg version fs1 of
       Inl e \<Rightarrow> \<exists>err. e = Server_Audit err
     | Inr s \<Rightarrow> authenticate (e_sha256 env) (s_auth s) (bearer_prefix @ token))"
proof (intro conjI)
  have t: "token = raw_url_encode b" and on_disk: "fs1 (token_path cfg) = Some (token @ crlf)"
    using generate_token_ok [OF assms(1)] assms(2) by auto
  show "length token = 43"
    by (simp add: t raw_url_length assms(3))
  show "\<forall>b'. length b' = 32 \<longrightarrow> raw_url_encode b' = token \<longrightarrow> b' = b"
    using raw_url_inj [of _ b] assms(3) by (simp add: t)
  have "load_token (e_sha256 env) (read_file (la_token_error la) fs1 (token_path cfg)) =
      Inr \<lparr>hash = e_sha256 env token, fingerprint = hex_encode (take 8 (e_sha256 env token))\<rparr>"
    using token_loads [OF assms(3)] by (simp add: read_file_def assms(4) on_disk t)
  then show "case launch_server env la cfg version fs1 of
       Inl e \<Rightarrow> \<exists>err. e = Server_Audit err
     | Inr s \<Rightarrow> authenticate (e_sha256 env) (s_auth s) (bearer_prefix @ token)"
    using token_authenticates [of _ "e_sha256 env" b]
    by (auto simp: launch_server_def new_server_def t Let_def split: sum.splits)
qed

text \<open>A disk and an environment in which everything works.\<close>

definition calm_agent :: agent_env where
  "calm_agent =
     \<lparr>ag_base_dir = Some ''C:'',
      ag_paths = \<lparr>path_dir = (\<lambda>p. ''C:''), path_join = join_with [CHR 0x5C]\<rparr>,
      ag_decode = (\<lambda>d b. Json_Value d []), ag_read_error = (\<lambda>_. None), ag_stat_fails = False,
      ag_random = Some (replicate 32 CHR ''r''), ag_mkdir_ok = True, ag_open_ok = True,
      ag_written = None, ag_close_ok = True, ag_log_mkdir_ok = True, ag_log_open_ok = True,
      ag_is_service = Some True\<rparr>"

definition calm_launch :: launch_env where
  "calm_launch = \<lparr>la_token_error = None, la_audit_dir = True, la_kill_stat_fails = False, la_now = 0,
     la_keypair = True, la_listens = True\<rparr>"

definition sample_random_token :: string where
  "sample_random_token = raw_url_encode (replicate 32 CHR ''r'')"

definition token_disk :: files where
  "token_disk = [token_path agent_defaults \<mapsto> sample_random_token @ crlf]"

lemma calm_generates:
  "generate_token calm_agent (token_path agent_defaults) force Map.empty = (token_disk, Inr sample_random_token)"
  by (simp add: generate_token_def calm_agent_def stat_file_def write_file_def open_create_def
      append_file_def Let_def token_disk_def sample_random_token_def)

theorem generated_token_authenticates_witness:
  "length sample_random_token = 43 \<and>
   (case launch_server (sample_env (\<lambda>_. post [''exec''])) calm_launch agent_defaults [] token_disk of
       Inl e \<Rightarrow> \<exists>err. e = Server_Audit err
     | Inr s \<Rightarrow> authenticate (e_sha256 (sample_env (\<lambda>_. post [''exec'']))) (s_auth s) (bearer_prefix @ sample_random_token))"
proof -
  have r: "ag_random calm_agent = Some (replicate 32 CHR ''r'')" "la_token_error calm_launch = None"
    by (simp_all add: calm_agent_def calm_launch_def)
  have "length (replicate 32 CHR ''r'') = 32" by simp
  from generated_token_authenticates [OF calm_generates r(1) this r(2),
      of "sample_env (\<lambda>_. post [''exec''])" "[]"]
  show ?thesis by blast
qed

subsection \<open>What starting the program changes\<close>

lemma generate_token_changes:
  assumes "generate_token ag path force fs = (fs1, r)"
  shows "fs1 p = fs p \<or> p = path \<and> (force \<or> fs p = None)"
proof (cases "force \<or> fs path = None")
  case True
  then show ?thesis
    using assms by (auto simp: generate_token_def write_file_def open_create_def append_file_def Let_def
        split: if_splits option.splits prod.splits)
next
  case False
  then show ?thesis
    using assms by (auto simp: generate_token_def stat_file_def Let_def split: if_splits)
qed

lemma make_logger_changes:
  "make_logger ag base_dir fs = Some fs1 \<Longrightarrow> fs1 p = fs p \<or>
     p = path_join (ag_paths ag) [path_join (ag_paths ag) [base_dir, ''logs''], ''agent.log''] \<and> fs p = None"
  by (auto simp: make_logger_def Let_def dest!: open_keep_content split: if_splits option.splits)

lemma agent_main_changes:
  assumes "agent_main net ag args fs = (fs1, exit)" and "ag_base_dir ag = Some base_dir"
    and "parse_flags agent_flags args [] = Inr (vals, rest)"
  shows "fs1 p = fs p \<or>
    bool_flag vals ''gen-token'' \<and> (bool_flag vals ''force'' \<or> fs p = None) \<and>
      p = string_flag vals ''token-output'' (path_join (ag_paths ag) [base_dir, ''token.txt'']) \<or>
    fs p = None \<and> p = path_join (ag_paths ag) [path_join (ag_paths ag) [base_dir, ''logs''], ''agent.log'']"
proof -
  let ?force = "bool_flag vals ''force''"
  let ?path = "string_flag vals ''token-output'' (path_join (ag_paths ag) [base_dir, ''token.txt''])"
  consider (Same) "fs1 = fs"
    | (Token) r where "bool_flag vals ''gen-token''" "generate_token ag ?path ?force fs = (fs1, r)"
    | (Logger) "make_logger ag base_dir fs = Some fs1"
    using assms by (auto simp: agent_main_def Let_def split: if_splits prod.splits sum.splits option.splits)
  then show ?thesis
  proof cases
    case (Token r)
    then show ?thesis using generate_token_changes [OF Token(2), of p] Token(1) by auto
  next
    case Logger
    from make_logger_changes [OF this, of p] show ?thesis by auto
  qed simp
qed

lemma agent_main_keeps:
  assumes "agent_main net ag args fs = (fs1, exit)"
    and "parse_flags agent_flags args [] = Inr (vals, rest)" and "\<not> bool_flag vals ''force''"
    and "fs p = Some c"
  shows "fs1 p = Some c"
proof (cases "ag_base_dir ag")
  case None
  then show ?thesis using assms by (simp add: agent_main_def)
next
  case (Some base_dir)
  then show ?thesis
    using agent_main_changes [OF assms(1) Some assms(2), of p] assms(3,4) by auto
qed

text \<open>
  C20: What the program does to the disk before it runs the service or the console (and, with
  \<open>--version\<close>, \<open>--gen-token\<close> or an error, all it does): whatever the flags and whatever fails, a
  file changes only if it is the token file of \<open>--gen-token\<close>, and then it did not exist or
  \<open>--force\<close> was given; or if it is the agent's log, which is created when it was missing. So a
  token already installed is never replaced without \<open>--force\<close>, and a log that is there is left
  as it was found. (The service and the console then append to the log and to the audit log.)
\<close>

theorem existing_files_are_kept:
  assumes "agent_main net ag args fs = (fs1, exit)" and "ag_base_dir ag = Some base_dir"
    and "parse_flags agent_flags args [] = Inr (vals, rest)"
  shows "fs1 p = fs p \<or>
    bool_flag vals ''gen-token'' \<and> (bool_flag vals ''force'' \<or> fs p = None) \<and>
      p = string_flag vals ''token-output'' (path_join (ag_paths ag) [base_dir, ''token.txt'']) \<or>
    fs p = None \<and> p = path_join (ag_paths ag) [path_join (ag_paths ag) [base_dir, ''logs''], ''agent.log'']"
  using assms by (rule agent_main_changes)

definition gen_args :: "string list" where
  "gen_args = [''--gen-token'', ''--token-output'', ''old.txt'']"

lemma gen_args_parse:
  "parse_flags agent_flags gen_args [] = Inr ([(''gen-token'', ''true''), (''token-output'', ''old.txt'')], [])"
proof -
  have flags: "mget agent_flags ''gen-token'' = Some Bool_Flag" "mget agent_flags ''token-output'' = Some String_Flag"
    by (simp_all add: agent_flags_def mget_Cons)
  have a: "parse_flags agent_flags (''--gen-token'' # as) vals = parse_flags agent_flags as (mput ''gen-token'' ''true'' vals)" for as vals
    using parse_bool_flag [of "''gen-token''" agent_flags as vals] flags by simp
  have b: "parse_flags agent_flags (''--token-output'' # v # as) vals = parse_flags agent_flags as (mput ''token-output'' v vals)" for v as vals
    using parse_string_flag [of "''token-output''" agent_flags v as vals] flags by simp
  show ?thesis
    by (simp add: gen_args_def a b)
qed

theorem existing_files_are_kept_witness:
  "fst (agent_main dotted_net calm_agent gen_args [''old.txt'' \<mapsto> ''secret'']) ''old.txt'' = Some ''secret''"
proof -
  have "\<exists>base_dir. ag_base_dir calm_agent = Some base_dir"
    by (simp add: calm_agent_def)
  then show ?thesis
    using existing_files_are_kept [OF prod.collapse [symmetric] _ gen_args_parse, where p = "''old.txt''"
        and net = dotted_net and ag = calm_agent and fs = "[''old.txt'' \<mapsto> ''secret'']"]
    by (auto simp: bool_flag_def mget_Cons)
qed

subsection \<open>What a running service is\<close>

lemma launch_armed:
  assumes "launch_server env la cfg version fs = Inr s" and "fs (kill_switch_path cfg) \<noteq> None"
  shows "run_blocked (s_runner s)"
  using assms
  by (auto simp: launch_server_def new_server_def stat_file_def kill_file_armed_def block_runner_def Let_def
      split: sum.splits if_splits)

lemma service_server_Some:
  "svc_server (service_execute env la cfg version fs events) = Some s \<Longrightarrow>
     launch_server env la cfg version fs = Inr s \<and> start_listener la = None \<and>
     svc_updates (service_execute env la cfg version fs events) =
       Some (if svc_exit (service_execute env la cfg version fs events) = None
             then start_updates cfg else stop_updates (start_updates cfg))"
  by (auto simp: service_execute_def Let_def split: sum.splits if_splits prod.splits)

lemma agent_service_config:
  assumes "agent_main net ag args fs = (fs1, Agent_Service cfg)"
  shows "validate net cfg = None"
  using assms
  by (auto simp: agent_main_def Let_def load_config_Inr
      split: if_splits prod.splits sum.splits option.splits)

lemma updates_of_config:
  assumes "config_ok cfg"
  shows "interval (start_updates cfg) = update_check_interval_min cfg * 60000000000"
    "loop (start_updates cfg) = Loop_Off \<longleftrightarrow> update_check_interval_min cfg = 0"
    "sched_path (start_updates cfg) = updater_path cfg" "\<not> ctx_done (start_updates cfg)"
  using assms update_check_interval_exact [OF assms]
  by (auto simp: start_updates_def start_scheduler_def new_scheduler_def config_ok_def)

text \<open>
  C4: (safety) when the agent program runs as a service and its server is up, every state that server
  reaches is a state of a server with a validated configuration, so the theorems about the
  running server hold of it; if the kill-switch file was on the disk at the start no command can
  run; and the updater loop runs exactly when the configured interval is positive, with that
  many minutes, until the service ends.
\<close>

theorem running_service_is_safe:
  assumes "agent_main (e_net env) ag args fs = (fs1, Agent_Service cfg)"
    and "good_entropy (e_job_ids env)" and "good_entropy (e_session_ids env)"
    and "svc_server (service_execute env la cfg version fs1 events) = Some s"
    and "(server_step env)\<^sup>*\<^sup>* s t"
  shows "server_run env cfg s t \<and> (run_blocked (s_runner s) \<or> fs1 (kill_switch_path cfg) = None) \<and>
    (\<exists>sch. svc_updates (service_execute env la cfg version fs1 events) = Some sch \<and>
       (loop sch = Loop_Off \<longleftrightarrow> update_check_interval_min cfg = 0) \<and>
       interval sch = update_check_interval_min cfg * 60000000000 \<and> sched_path sch = updater_path cfg \<and>
       (ctx_done sch \<longleftrightarrow> svc_exit (service_execute env la cfg version fs1 events) \<noteq> None))"
proof (intro conjI)
  have v: "validate (e_net env) cfg = None"
    by (rule agent_service_config [OF assms(1)])
  note up = service_server_Some [OF assms(4)]
  then have new: "launch_server env la cfg version fs1 = Inr s" by blast
  then show "server_run env cfg s t"
    unfolding server_run_def launch_server_def using assms(2,3,5) v by blast
  show "run_blocked (s_runner s) \<or> fs1 (kill_switch_path cfg) = None"
    using launch_armed [OF new] by blast
  show "\<exists>sch. svc_updates (service_execute env la cfg version fs1 events) = Some sch \<and>
       (loop sch = Loop_Off \<longleftrightarrow> update_check_interval_min cfg = 0) \<and>
       interval sch = update_check_interval_min cfg * 60000000000 \<and> sched_path sch = updater_path cfg \<and>
       (ctx_done sch \<longleftrightarrow> svc_exit (service_execute env la cfg version fs1 events) \<noteq> None)"
    using up updates_of_config [OF validate_ok [OF v]] by (auto simp: stop_updates_def)
qed

subsection \<open>The statuses and the exit code\<close>

text \<open>The service manager repeats the status it was last told.\<close>

fun repeats :: "svc_status \<Rightarrow> svc_event \<Rightarrow> bool" where
  "repeats st (Server_Ended err) = True"
| "repeats st (Svc_Request cmd current) = (current = st)"

fun ends_loop :: "svc_event \<Rightarrow> bool" where
  "ends_loop (Server_Ended err) = True"
| "ends_loop (Svc_Request cmd current) = (cmd = Svc_Stop \<or> cmd = Svc_Shutdown)"

text \<open>The exit code the first event that ends the loop asks for.\<close>

fun exit_code :: "svc_event \<Rightarrow> nat" where
  "exit_code (Server_Ended None) = 0"
| "exit_code (Server_Ended (Some e)) = (if sublist server_closed e then 0 else 1)"
| "exit_code (Svc_Request cmd current) = 0"

definition pending_status :: svc_status where
  "pending_status = \<lparr>svc_state = Svc_Start_Pending, svc_accepts = []\<rparr>"

definition running_status :: svc_status where
  "running_status = \<lparr>svc_state = Svc_Running, svc_accepts = commands_accepted\<rparr>"

definition stopping_status :: svc_status where
  "stopping_status = \<lparr>svc_state = Svc_Stop_Pending, svc_accepts = []\<rparr>"

lemma service_loop_statuses:
  "list_all (repeats running_status) events \<Longrightarrow> service_loop events = (statuses, code, shut) \<Longrightarrow>
     \<exists>n. statuses = replicate n running_status @ (if shut then [stopping_status] else [])"
proof (induction events arbitrary: statuses code shut rule: service_loop.induct)
  case (3 cmd current events)
  show ?case
  proof (cases cmd)
    case Svc_Interrogate
    obtain sts where sts: "service_loop events = (sts, code, shut)" "statuses = current # sts"
      using 3(4) Svc_Interrogate by (auto split: prod.splits)
    then obtain n where "sts = replicate n running_status @ (if shut then [stopping_status] else [])"
      using 3 Svc_Interrogate by auto
    then have "statuses = replicate (Suc n) running_status @ (if shut then [stopping_status] else [])"
      using sts 3(3) by simp
    then show ?thesis by blast
  qed (use 3 in \<open>auto simp: stopping_status_def intro: exI [of _ 0]\<close>)
qed (auto intro: exI [of _ 0])

lemma service_loop_code:
  "service_loop events = (statuses, code, shut) \<Longrightarrow>
     code = map_option exit_code (find ends_loop events) \<and>
     (shut \<longleftrightarrow> (\<exists>cmd current. find ends_loop events = Some (Svc_Request cmd current)))"
  by (induction events arbitrary: statuses rule: service_loop.induct)
     (auto split: option.splits svc_cmd.splits prod.splits)

text \<open>
  C21: (invariant) while the service manager repeats what it was told, it hears \<open>StartPending\<close> first,
  \<open>Running\<close> only when the server is built and the port bound, again only as an answer to an
  interrogation, and \<open>StopPending\<close> last and only on a shutdown; a start that fails ends with exit
  code 1 and the first event that ends the loop decides the exit code.
\<close>

theorem service_reports_in_order:
  assumes "list_all (repeats running_status) events"
    and "service_execute env la cfg version fs events = r"
  shows "(svc_server r = None \<longleftrightarrow> isl (launch_server env la cfg version fs) \<or> start_listener la \<noteq> None) \<and>
    (if svc_server r = None then svc_statuses r = [pending_status] \<and> svc_exit r = Some 1
     else (\<exists>n. svc_statuses r = pending_status # replicate (Suc n) running_status @
                 (if svc_shut_down r then [stopping_status] else [])) \<and>
          svc_exit r = map_option exit_code (find ends_loop events))"
proof (cases "isl (launch_server env la cfg version fs) \<or> start_listener la \<noteq> None")
  case True
  then show ?thesis
    using assms(2) by (auto simp: service_execute_def pending_status_def Let_def split: sum.splits)
next
  case False
  then obtain s where s: "launch_server env la cfg version fs = Inr s" "start_listener la = None"
    by (cases "launch_server env la cfg version fs") auto
  obtain statuses code shut where l: "service_loop events = (statuses, code, shut)"
    by (cases "service_loop events")
  have r: "svc_server r = Some s" "svc_statuses r = pending_status # running_status # statuses"
      "svc_exit r = code" "svc_shut_down r = shut"
    using assms(2) s l
    by (auto simp: service_execute_def pending_status_def running_status_def Let_def)
  show ?thesis
    using service_loop_statuses [OF assms(1) l] service_loop_code [OF l] s by (auto simp: r)
qed

lemma calm_launches:
  assumes "fs (token_path agent_defaults) = Some (sample_random_token @ crlf)"
  shows "\<exists>s :: string server. launch_server (sample_env rq) calm_launch agent_defaults [] fs = Inr s"
proof -
  have "length (replicate 32 CHR ''r'') = 32" by simp
  note t = token_loads [OF this]
  show ?thesis
    using sample_audit_opens
    by (auto simp: launch_server_def calm_launch_def read_file_def assms
        new_server_def t sample_random_token_def Let_def)
qed

lemma calm_listens: "start_listener calm_launch = None"
  by (simp add: start_listener_def calm_launch_def)

theorem service_reports_in_order_witness:
  "svc_exit (service_execute (sample_env (\<lambda>_. post [''exec''])) calm_launch agent_defaults [] token_disk
     [Svc_Request Svc_Interrogate running_status, Server_Ended (Some ''broken''), Svc_Request Svc_Stop running_status]) =
   Some 1"
proof -
  let ?events = "[Svc_Request Svc_Interrogate running_status, Server_Ended (Some ''broken''),
     Svc_Request Svc_Stop running_status]"
  have broken: "exit_code (Server_Ended (Some ''broken'')) = 1"
    by (simp add: server_closed_def) code_simp
  show ?thesis
    using calm_listens service_reports_in_order [OF _ refl, of ?events "sample_env (\<lambda>_. post [''exec''])" calm_launch
        agent_defaults "[]" token_disk] calm_launches [of token_disk "\<lambda>_. post [''exec'']"] broken
    by (auto simp: token_disk_def)
qed

text \<open>The agent of the sample environment started as a service, on a disk with its token and an empty configuration.\<close>

definition agent_disk :: files where
  "agent_disk = token_disk(join_with [CHR 0x5C] [''C:'', ''config.json''] \<mapsto> [])"

lemma calm_logger: "\<exists>fs1. make_logger calm_agent base_dir fs = Some fs1"
proof -
  have opens: "\<exists>fs1. open_create True Open_Keep path fs = Some fs1" for path
    by (simp add: open_create_def split: option.split)
  have "ag_log_mkdir_ok calm_agent" "ag_log_open_ok calm_agent"
    by (simp_all add: calm_agent_def)
  then show ?thesis
    by (simp add: make_logger_def Let_def opens)
qed

lemma calm_service:
  obtains fs1 where "agent_main dotted_net calm_agent [] agent_disk = (fs1, Agent_Service agent_defaults)"
proof -
  have "load_config dotted_net (ag_decode calm_agent) agent_defaults (Inr []) = Inr agent_defaults"
    by (simp add: load_config_def calm_agent_def trim_prefix_def json_at_eof_def agent_defaults_valid)
  moreover have "default_config (path_join (ag_paths calm_agent)) ''C:'' = agent_defaults"
    by (simp add: agent_defaults_def calm_agent_def)
  moreover obtain fs1 where "make_logger calm_agent ''C:'' agent_disk = Some fs1"
    using calm_logger by blast
  ultimately have "agent_main dotted_net calm_agent [] agent_disk = (fs1, Agent_Service agent_defaults)"
    by (simp add: agent_main_def Let_def bool_flag_def string_flag_def read_file_def calm_agent_def agent_disk_def)
  then show ?thesis by (rule that)
qed

lemma agent_disk_token: "agent_disk (token_path agent_defaults) = Some (sample_random_token @ crlf)"
  by (simp add: agent_disk_def token_disk_def agent_defaults_def default_config_def)

theorem running_service_is_safe_witness:
  "\<exists>fs1 s. agent_main dotted_net calm_agent [] agent_disk = (fs1, Agent_Service agent_defaults) \<and>
     svc_server (service_execute (sample_env (\<lambda>_. post [''exec''])) calm_launch agent_defaults [] fs1 []) = Some s \<and>
     server_run (sample_env (\<lambda>_. post [''exec''])) agent_defaults s s"
proof -
  let ?env = "sample_env (\<lambda>_. post [''exec''])"
  obtain fs1 where fs1: "agent_main dotted_net calm_agent [] agent_disk = (fs1, Agent_Service agent_defaults)"
    by (rule calm_service)
  have "parse_flags agent_flags [] [] = Inr ([], [])" "\<not> bool_flag [] ''force''"
    by (simp_all add: bool_flag_def)
  then have "fs1 (token_path agent_defaults) = Some (sample_random_token @ crlf)"
    using agent_main_keeps [OF fs1 _ _ agent_disk_token] by blast
  then obtain s where s: "launch_server ?env calm_launch agent_defaults [] fs1 = Inr s"
    using calm_launches by blast
  then have up: "svc_server (service_execute ?env calm_launch agent_defaults [] fs1 []) = Some s"
    by (simp add: service_execute_def calm_listens)
  have "server_run ?env agent_defaults s s"
    using running_service_is_safe [OF _ _ _ up, of calm_agent "[]" agent_disk s] fs1
    by (simp add: counting_entropy_good)
  with fs1 up show ?thesis by blast
qed

end
