(* ===== verification/Platform.thy ===== *)
theory Platform
  imports WLM_Prelude "HOL-Library.Word"
begin

unbundle bit_operations_syntax

section \<open>Processes on Windows: process_windows.go and legacy_task_windows.go\<close>

text \<open>
  How the agent asks Windows for its processes: the creation flags, the job object that ends a
  PowerShell process with its handle, and the removal of the scheduled task of older versions.
  The answers of the Windows API are a record; what is modelled are the calls the program
  makes, in order, with the handles it passes, up to a started PowerShell (\<open>startChild\<close> of
  runner.go).
\<close>

subsection \<open>Commands\<close>

record command =
  cmd_path :: string
  cmd_args :: "string list"
  cmd_flags :: "32 word"
  cmd_hidden :: bool

definition exec_command :: "string \<Rightarrow> string list \<Rightarrow> command" where
  "exec_command path args = \<lparr>cmd_path = path, cmd_args = args, cmd_flags = 0, cmd_hidden = False\<rparr>"

definition create_no_window :: "32 word" where
  "create_no_window = 0x08000000"

definition prepare_command :: "command \<Rightarrow> command" where
  "prepare_command c = c\<lparr>cmd_flags := create_no_window, cmd_hidden := True\<rparr>"

text \<open>\<open>processLauncher.Start\<close>: the updater is detached and leaves the job of its parent.\<close>

definition updater_flags_word :: "32 word" where
  "updater_flags_word = 0x00000008 OR 0x00000200 OR 0x01000000"

definition launcher_command :: "string \<Rightarrow> string list \<Rightarrow> command" where
  "launcher_command path args =
     (exec_command path args)\<lparr>cmd_flags := updater_flags_word, cmd_hidden := True\<rparr>"

subsection \<open>The job object of a PowerShell process\<close>

text \<open>The handles and answers Windows gives, and the calls with what they are passed.\<close>

record job_api =
  api_job :: "nat option"
  api_configured :: bool
  api_process :: "nat option"
  api_assigned :: bool

datatype api_call =
    Create_Job nat | Limit_Job nat "32 word" | Open_Process nat "32 word" nat
  | Assign_Process nat nat | Close_Handle nat | Create_Pipe nat nat | Process_Started nat

datatype attach_error = No_Job | Job_Not_Configured | No_Process_Handle | Not_Assigned

definition kill_on_job_close :: "32 word" where
  "kill_on_job_close = 0x2000"

definition process_rights :: "32 word" where
  "process_rights = 0x0100 OR 0x0001"

text \<open>
  \<open>attachKillJob\<close>. The deferred close of the process handle comes after the other calls; the
  result is the handle that the returned function closes.
\<close>

definition attach_kill_job :: "job_api \<Rightarrow> nat \<Rightarrow> api_call list \<times> (attach_error + nat)" where
  "attach_kill_job api pid =
     (case api_job api of
        None \<Rightarrow> ([], Inl No_Job)
      | Some job \<Rightarrow>
          if \<not> api_configured api then
            ([Create_Job job, Limit_Job job kill_on_job_close, Close_Handle job], Inl Job_Not_Configured)
          else
            case api_process api of
              None \<Rightarrow> ([Create_Job job, Limit_Job job kill_on_job_close, Close_Handle job], Inl No_Process_Handle)
            | Some process \<Rightarrow>
                let calls = [Create_Job job, Limit_Job job kill_on_job_close,
                             Open_Process process process_rights pid, Assign_Process job process]
                in if \<not> api_assigned api then
                     (calls @ [Close_Handle job, Close_Handle process], Inl Not_Assigned)
                   else (calls @ [Close_Handle process], Inr job))"

text \<open>
  Sound use of handles: a call is passed open handles only, a new handle is none of the open
  ones, and a process enters a job only when the job ends it with its last handle.
\<close>

record handle_state =
  open_handles :: "nat set"
  killing_jobs :: "nat set"

fun use_handle :: "api_call \<Rightarrow> handle_state \<Rightarrow> handle_state option" where
  "use_handle (Create_Job j) h =
     (if j \<in> open_handles h then None else Some (h\<lparr>open_handles := insert j (open_handles h)\<rparr>))"
| "use_handle (Limit_Job j flags) h =
     (if j \<notin> open_handles h then None
      else Some (if flags AND kill_on_job_close = 0 then h
                 else h\<lparr>killing_jobs := insert j (killing_jobs h)\<rparr>))"
| "use_handle (Open_Process p rights pid) h =
     (if p \<in> open_handles h then None else Some (h\<lparr>open_handles := insert p (open_handles h)\<rparr>))"
| "use_handle (Assign_Process j p) h =
     (if j \<in> open_handles h \<and> p \<in> open_handles h \<and> j \<in> killing_jobs h then Some h else None)"
| "use_handle (Close_Handle j) h =
     (if j \<in> open_handles h
      then Some (h\<lparr>open_handles := open_handles h - {j}, killing_jobs := killing_jobs h - {j}\<rparr>) else None)"
| "use_handle (Create_Pipe r w) h =
     (if r \<in> open_handles h \<or> w \<in> open_handles h \<or> r = w then None
      else Some (h\<lparr>open_handles := {r, w} \<union> open_handles h\<rparr>))"
| "use_handle (Process_Started p) h =
     (if p \<in> open_handles h then None else Some (h\<lparr>open_handles := insert p (open_handles h)\<rparr>))"

fun use_handles :: "api_call list \<Rightarrow> handle_state \<Rightarrow> handle_state option" where
  "use_handles [] h = Some h"
| "use_handles (c # cs) h = Option.bind (use_handle c h) (use_handles cs)"

lemma use_handles_append:
  "use_handles (cs @ ds) h = Option.bind (use_handles cs h) (use_handles ds)"
proof (induction cs arbitrary: h)
  case (Cons c cs)
  then show ?case
    by (cases "use_handle c h") simp_all
qed simp

lemma close_handles:
  assumes "distinct hs" and "set hs \<subseteq> open_handles h"
  shows "use_handles (map Close_Handle hs) h =
    Some (h\<lparr>open_handles := open_handles h - set hs, killing_jobs := killing_jobs h - set hs\<rparr>)"
  using assms
proof (induction hs arbitrary: h)
  case (Cons x hs)
  let ?h = "h\<lparr>open_handles := open_handles h - {x}, killing_jobs := killing_jobs h - {x}\<rparr>"
  have minus: "A - {x} - set hs = A - set (x # hs)" for A
    by auto
  have "use_handles (map Close_Handle hs) ?h =
      Some (?h\<lparr>open_handles := open_handles ?h - set hs, killing_jobs := killing_jobs ?h - set hs\<rparr>)"
    using Cons(2,3) by (intro Cons(1)) auto
  then have "use_handles (map Close_Handle hs) ?h =
      Some (h\<lparr>open_handles := open_handles h - set (x # hs), killing_jobs := killing_jobs h - set (x # hs)\<rparr>)"
    using minus by simp
  then show ?case
    using Cons(3) by simp
qed simp

text \<open>
  Whatever Windows answers, each handle is used only while it is open, the process enters only a
  job that kills it on close, and no handle stays open but that of the job, on success.
\<close>

lemma attach_sound:
  assumes "attach_kill_job api pid = (calls, r)" and "api_job api \<noteq> None \<longrightarrow> api_process api \<noteq> api_job api"
    and "open_handles h \<inter> (set_option (api_job api) \<union> set_option (api_process api)) = {}"
  shows "\<exists>h'. use_handles calls h = Some h' \<and>
    (case r of Inl e \<Rightarrow> open_handles h' = open_handles h
     | Inr job \<Rightarrow> job \<in> killing_jobs h' \<and> open_handles h' = insert job (open_handles h) \<and>
         (\<exists>h''. use_handles (calls @ [Close_Handle job]) h = Some h'' \<and> open_handles h'' = open_handles h))"
proof (cases "api_job api")
  case None
  then show ?thesis using assms(1) by (auto simp: attach_kill_job_def)
next
  case (Some job)
  have kills: "kill_on_job_close AND kill_on_job_close \<noteq> 0"
    by (simp add: kill_on_job_close_def)
  show ?thesis
  proof (cases "api_process api")
    case None
    then show ?thesis
      using assms Some kills by (auto simp: attach_kill_job_def split: if_splits)
  next
    case p: (Some process)
    then show ?thesis
      using assms Some kills by (auto simp: attach_kill_job_def Let_def split: if_splits)
  qed
qed

subsection \<open>Starting PowerShell\<close>

text \<open>
  \<open>startChild\<close>: what its pipes and the start of the process answer, and what it does, in order.
  A pipe is the handle for the child and the one the agent keeps. \<open>cmd.Start\<close> makes the pipe of
  \<open>Stderr\<close> itself, closes the child's ends when it returns, and all six when it fails; a
  process comes with a handle. \<open>cmd.Wait\<close> releases that handle and closes the agent's ends. The
  goroutine that waits for a process that was started is the runner theory's.
\<close>

record child_env =
  ce_stdin :: "(nat \<times> nat) option"
  ce_stdout :: "(nat \<times> nat) option"
  ce_stderr :: "(nat \<times> nat) option"
  ce_started :: "(nat \<times> nat) option"
  ce_api :: job_api

text \<open>\<open>ce_started\<close>: the identifier and the handle of the process.\<close>

datatype child_error = No_Stdin | No_Stdout | Child_Not_Started | Child_Not_Attached attach_error

datatype child_call = Start_Process command nat | Api_Call api_call | Kill_Child nat | Wait_Child nat

definition child_command :: "bool \<Rightarrow> command" where
  "child_command persistent =
     prepare_command (exec_command ''powershell.exe''
       ([''-NoLogo'', ''-NoProfile'', ''-NonInteractive''] @ (if persistent then [''-NoExit''] else []) @
        [''-Command'', ''-'']))"

abbreviation closes :: "nat list \<Rightarrow> child_call list" where
  "closes hs \<equiv> map Api_Call (map Close_Handle hs)"

text \<open>The pipes and \<open>cmd.Start\<close>; with a process, the handles that \<open>cmd.Wait\<close> closes.\<close>

definition spawn :: "child_env \<Rightarrow> command \<Rightarrow> child_call list \<times> (child_error + nat \<times> nat list)" where
  "spawn ce cmd =
     (case ce_stdin ce of
        None \<Rightarrow> ([], Inl No_Stdin)
      | Some (in_child, in_agent) \<Rightarrow>
          (case ce_stdout ce of
             None \<Rightarrow> ([Api_Call (Create_Pipe in_child in_agent)], Inl No_Stdout)
           | Some (out_child, out_agent) \<Rightarrow>
               let pipes = [Api_Call (Create_Pipe in_child in_agent), Api_Call (Create_Pipe out_child out_agent)] in
               case ce_stderr ce of
                 None \<Rightarrow> (pipes @ closes [in_child, out_child, in_agent, out_agent], Inl Child_Not_Started)
               | Some (err_child, err_agent) \<Rightarrow>
                   let pipes = pipes @ [Api_Call (Create_Pipe err_child err_agent)] in
                   case ce_started ce of
                     None \<Rightarrow>
                       (pipes @ closes [in_child, out_child, err_child, in_agent, out_agent, err_agent],
                        Inl Child_Not_Started)
                   | Some (pid, process) \<Rightarrow>
                       (pipes @ [Start_Process cmd pid, Api_Call (Process_Started process)] @
                          closes [in_child, out_child, err_child],
                        Inr (pid, [process, in_agent, out_agent, err_agent]))))"

definition wait_child :: "nat \<Rightarrow> nat list \<Rightarrow> child_call list" where
  "wait_child pid hs = Wait_Child pid # closes hs"

definition start_child :: "child_env \<Rightarrow> bool \<Rightarrow> child_call list \<times> (child_error + nat \<times> nat \<times> nat list)" where
  "start_child ce persistent =
     (case spawn ce (child_command persistent) of
        (started, Inl err) \<Rightarrow> (started, Inl err)
      | (started, Inr (pid, hs)) \<Rightarrow>
          (case attach_kill_job (ce_api ce) pid of
             (calls, Inl err) \<Rightarrow>
               (started @ map Api_Call calls @ [Kill_Child pid] @ wait_child pid hs, Inl (Child_Not_Attached err))
           | (calls, Inr job) \<Rightarrow> (started @ map Api_Call calls, Inr (pid, job, hs))))"

text \<open>The calls on handles in a trace, the processes it leaves running, and those in a job.\<close>

fun api_calls :: "child_call list \<Rightarrow> api_call list" where
  "api_calls [] = []"
| "api_calls (Api_Call c # cs) = c # api_calls cs"
| "api_calls (Start_Process cmd pid # cs) = api_calls cs"
| "api_calls (Kill_Child pid # cs) = api_calls cs"
| "api_calls (Wait_Child pid # cs) = api_calls cs"

fun left_running :: "child_call list \<Rightarrow> nat set \<Rightarrow> nat set" where
  "left_running [] alive = alive"
| "left_running (Start_Process cmd pid # cs) alive = left_running cs (insert pid alive)"
| "left_running (Kill_Child pid # cs) alive = left_running cs (alive - {pid})"
| "left_running (Api_Call c # cs) alive = left_running cs alive"
| "left_running (Wait_Child pid # cs) alive = left_running cs alive"

lemma api_calls_append [simp]: "api_calls (cs @ ds) = api_calls cs @ api_calls ds"
  by (induction cs rule: api_calls.induct) simp_all

lemma api_calls_map [simp]: "api_calls (map Api_Call cs) = cs"
  by (induction cs) simp_all

lemma left_running_map [simp]: "left_running (map Api_Call cs @ ds) alive = left_running ds alive"
  by (induction cs) simp_all

lemma closes_simps [simp]:
  "api_calls (map (Api_Call \<circ> f) xs) = map f xs"
  "left_running (map (Api_Call \<circ> f) xs) alive = alive"
  by (induction xs) simp_all

lemma left_running_append: "left_running (cs @ ds) alive = left_running ds (left_running cs alive)"
  by (induction cs alive rule: left_running.induct) simp_all

lemmas left_running_api = left_running_map [of cs "[]" for cs, simplified]

text \<open>
  What is asked of the handles Windows gives: those of the pipes and of the process are new and
  different, those of \<open>attachKillJob\<close> are none of the handles open at that time (they may be
  the numbers of ends that were closed).
\<close>

definition pipe_ends :: "(nat \<times> nat) option \<Rightarrow> nat list" where
  "pipe_ends p = (case p of None \<Rightarrow> [] | Some (c, a) \<Rightarrow> [c, a])"

definition agent_ends :: "(nat \<times> nat) option \<Rightarrow> nat set" where
  "agent_ends p = snd ` set_option p"

definition fresh_handles :: "child_env \<Rightarrow> nat set \<Rightarrow> bool" where
  "fresh_handles ce H \<longleftrightarrow>
     (let used = pipe_ends (ce_stdin ce) @ pipe_ends (ce_stdout ce) @ pipe_ends (ce_stderr ce) @
                   (case ce_started ce of None \<Rightarrow> [] | Some (pid, process) \<Rightarrow> [process]);
          kept = agent_ends (ce_stdin ce) \<union> agent_ends (ce_stdout ce) \<union> agent_ends (ce_stderr ce) \<union>
                   agent_ends (ce_started ce);
          api = ce_api ce
      in distinct used \<and> set used \<inter> H = {} \<and> (api_job api \<noteq> None \<longrightarrow> api_process api \<noteq> api_job api) \<and>
         (set_option (api_job api) \<union> set_option (api_process api)) \<inter> (H \<union> kept) = {})"

lemma spawn_sound:
  assumes "spawn ce cmd = (t, r)" and "fresh_handles ce (open_handles h)"
  shows "\<exists>h'. use_handles (api_calls t) h = Some h' \<and>
    (case r of
       Inl No_Stdout \<Rightarrow> open_handles h' = set (pipe_ends (ce_stdin ce)) \<union> open_handles h \<and>
         left_running t alive = alive
     | Inl e \<Rightarrow> open_handles h' = open_handles h \<and> left_running t alive = alive
     | Inr (pid, hs) \<Rightarrow> ce_started ce \<noteq> None \<and> pid = fst (the (ce_started ce)) \<and>
         open_handles h' = set hs \<union> open_handles h \<and> distinct hs \<and> set hs \<inter> open_handles h = {} \<and>
         (set_option (api_job (ce_api ce)) \<union> set_option (api_process (ce_api ce))) \<inter> open_handles h' = {} \<and>
         left_running t alive = insert pid alive)"
proof (cases "ce_stdin ce")
  case None
  then show ?thesis using assms(1) by (auto simp: spawn_def)
next
  case i: (Some stdin)
  obtain ic ia where stdin: "stdin = (ic, ia)" by fastforce
  show ?thesis
  proof (cases "ce_stdout ce")
    case None
    then show ?thesis
      using assms i stdin by (auto simp: spawn_def fresh_handles_def pipe_ends_def Let_def)
  next
    case o1: (Some stdout)
    obtain oc oa where stdout: "stdout = (oc, oa)" by fastforce
    show ?thesis
    proof (cases "ce_stderr ce")
      case None
      then show ?thesis
        using assms i stdin o1 stdout
        by (auto simp: spawn_def fresh_handles_def pipe_ends_def Let_def)
    next
      case e: (Some stderr)
      obtain ec ea where stderr: "stderr = (ec, ea)" by fastforce
      show ?thesis
      proof (cases "ce_started ce")
        case None
        then show ?thesis
          using assms i stdin o1 stdout e stderr
          by (auto simp: spawn_def fresh_handles_def pipe_ends_def Let_def)
      next
        case p: (Some started)
        obtain pid process where started: "started = (pid, process)" by fastforce
        show ?thesis
          using assms i stdin o1 stdout e stderr p started
          by (auto simp: spawn_def fresh_handles_def pipe_ends_def agent_ends_def Let_def)
      qed
    qed
  qed
qed

text \<open>
  After a start: the calls of \<open>attachKillJob\<close> leave the handles that \<open>Wait\<close> closes and, on success,
  the job; what \<open>Wait\<close> does then closes the rest.
\<close>

lemma wait_closes:
  assumes "open_handles h1 = set hs \<union> open_handles h" and "distinct hs" and "set hs \<inter> open_handles h = {}"
    and "open_handles h' = open_handles h1"
  shows "\<exists>h''. use_handles (map Close_Handle hs) h' = Some h'' \<and> open_handles h'' = open_handles h"
  using assms by (subst close_handles) auto

lemma attach_then_wait:
  assumes at: "attach_kill_job api pid = (calls, a)"
    and fresh: "api_job api \<noteq> None \<longrightarrow> api_process api \<noteq> api_job api"
      "open_handles h1 \<inter> (set_option (api_job api) \<union> set_option (api_process api)) = {}"
    and wait: "open_handles h1 = set hs \<union> open_handles h" "distinct hs" "set hs \<inter> open_handles h = {}"
  shows "case a of
      Inl e \<Rightarrow> \<exists>h2. use_handles (calls @ map Close_Handle hs) h1 = Some h2 \<and> open_handles h2 = open_handles h
    | Inr job \<Rightarrow> (\<exists>h2. use_handles calls h1 = Some h2 \<and> job \<in> killing_jobs h2 \<and>
          open_handles h2 = insert job (set hs) \<union> open_handles h) \<and>
        (\<exists>h3. use_handles (calls @ Close_Handle job # map Close_Handle hs) h1 = Some h3 \<and>
          open_handles h3 = open_handles h) \<and>
        (\<exists>process. Assign_Process job process \<in> set calls \<and> Open_Process process process_rights pid \<in> set calls)"
proof -
  obtain h2 where h2: "use_handles calls h1 = Some h2" and attached:
    "case a of Inl e \<Rightarrow> open_handles h2 = open_handles h1
     | Inr job \<Rightarrow> job \<in> killing_jobs h2 \<and> open_handles h2 = insert job (open_handles h1) \<and>
       (\<exists>h''. use_handles (calls @ [Close_Handle job]) h1 = Some h'' \<and> open_handles h'' = open_handles h1)"
    using attach_sound [OF at fresh] by blast
  show ?thesis
  proof (cases a)
    case (Inl err)
    then show ?thesis
      using wait_closes [OF wait, of h2] attached h2 by (simp add: use_handles_append)
  next
    case (Inr job)
    obtain h3 where h3: "use_handles (calls @ [Close_Handle job]) h1 = Some h3" "open_handles h3 = open_handles h1"
      using attached Inr by auto
    obtain h4 where h4: "use_handles (map Close_Handle hs) h3 = Some h4" "open_handles h4 = open_handles h"
      using wait_closes [OF wait h3(2)] by blast
    have "use_handles ((calls @ [Close_Handle job]) @ map Close_Handle hs) h1 = Some h4"
      unfolding use_handles_append [of "calls @ [Close_Handle job]"] h3(1) by (simp add: h4(1))
    then have "use_handles (calls @ Close_Handle job # map Close_Handle hs) h1 = Some h4"
      by simp
    moreover have "\<exists>process. Assign_Process job process \<in> set calls \<and> Open_Process process process_rights pid \<in> set calls"
      using at Inr by (auto simp: attach_kill_job_def Let_def split: option.splits if_splits)
    ultimately show ?thesis
      using attached h2 h4(2) wait(1) by (auto simp: Inr)
  qed
qed

text \<open>
  C25: \<open>startChild\<close> gives a running PowerShell in a job that kills it on close, with the agent's ends
  of the three pipes and the handle of the process, and closing the job and waiting closes
  every one of these handles; or it gives an error and no process runs. After an error no
  handle is open that was not before, whichever of \<open>StdinPipe\<close>, \<open>Start\<close> and the five calls of the
  Windows API failed, with one exception: when \<open>StdoutPipe\<close> fails, both ends of the pipe that
  \<open>StdinPipe\<close> made are still open when the function returns, because it does not close them.
\<close>

theorem failed_start_leaves_nothing:
  assumes "start_child ce persistent = (trace, r)"
    and "fresh_handles ce (open_handles h)" and "alive \<inter> fst ` set_option (ce_started ce) = {}"
  shows "\<exists>h'. use_handles (api_calls trace) h = Some h' \<and>
    (case r of
       Inl No_Stdout \<Rightarrow> left_running trace alive = alive \<and>
         (\<exists>rd wr. ce_stdin ce = Some (rd, wr) \<and> open_handles h' = {rd, wr} \<union> open_handles h)
     | Inl e \<Rightarrow> left_running trace alive = alive \<and> open_handles h' = open_handles h
     | Inr (pid, job, hs) \<Rightarrow> left_running trace alive = insert pid alive \<and> job \<in> killing_jobs h' \<and>
         open_handles h' = insert job (set hs) \<union> open_handles h \<and>
         (\<exists>process. Assign_Process job process \<in> set (api_calls trace) \<and>
            Open_Process process process_rights pid \<in> set (api_calls trace)) \<and>
         (\<exists>h''. use_handles (api_calls (trace @ Api_Call (Close_Handle job) # wait_child pid hs)) h = Some h'' \<and>
            open_handles h'' = open_handles h))"
proof -
  obtain t s where spawn: "spawn ce (child_command persistent) = (t, s)"
    by fastforce
  from spawn_sound [OF this assms(2), of alive] obtain h1 where h1: "use_handles (api_calls t) h = Some h1"
    and sound: "case s of
       Inl No_Stdout \<Rightarrow> open_handles h1 = set (pipe_ends (ce_stdin ce)) \<union> open_handles h \<and>
         left_running t alive = alive
     | Inl e \<Rightarrow> open_handles h1 = open_handles h \<and> left_running t alive = alive
     | Inr (pid, hs) \<Rightarrow> ce_started ce \<noteq> None \<and> pid = fst (the (ce_started ce)) \<and>
         open_handles h1 = set hs \<union> open_handles h \<and> distinct hs \<and> set hs \<inter> open_handles h = {} \<and>
         (set_option (api_job (ce_api ce)) \<union> set_option (api_process (ce_api ce))) \<inter> open_handles h1 = {} \<and>
         left_running t alive = insert pid alive" by blast
  show ?thesis
  proof (cases s)
    case (Inl err)
    have "ce_stdin ce \<noteq> None" if "err = No_Stdout"
      using spawn that Inl by (auto simp: spawn_def split: option.splits)
    then show ?thesis
      using assms(1) spawn h1 sound Inl
      by (cases err) (auto simp: start_child_def pipe_ends_def)
  next
    case (Inr started)
    obtain pid hs where started: "started = (pid, hs)" by fastforce
    obtain calls a where at: "attach_kill_job (ce_api ce) pid = (calls, a)"
      by fastforce
    have running: "left_running t alive = insert pid alive" "pid \<notin> alive"
      and wait: "open_handles h1 = set hs \<union> open_handles h" "distinct hs" "set hs \<inter> open_handles h = {}"
      and fresh: "api_job (ce_api ce) \<noteq> None \<longrightarrow> api_process (ce_api ce) \<noteq> api_job (ce_api ce)"
        "open_handles h1 \<inter> (set_option (api_job (ce_api ce)) \<union> set_option (api_process (ce_api ce))) = {}"
      using sound assms(2,3) by (auto simp: Inr started fresh_handles_def Let_def)
    show ?thesis
      using attach_then_wait [OF at fresh wait] assms(1) running
      by (cases a) (auto simp: start_child_def spawn Inr started at wait_child_def use_handles_append h1
          left_running_append left_running_api)
  qed
qed

definition sample_child :: child_env where
  "sample_child = \<lparr>ce_stdin = Some (11, 12), ce_stdout = Some (13, 14), ce_stderr = Some (15, 16),
     ce_started = Some (99, 17),
     ce_api = \<lparr>api_job = Some 7, api_configured = True, api_process = Some 8, api_assigned = False\<rparr>\<rparr>"

theorem failed_start_leaves_nothing_witness:
  "\<exists>h'. use_handles (api_calls (fst (start_child sample_child True))) \<lparr>open_handles = {1}, killing_jobs = {}\<rparr> = Some h' \<and>
     left_running (fst (start_child sample_child True)) {5} = {5} \<and> open_handles h' = {1}"
proof -
  obtain trace where c: "start_child sample_child True = (trace, Inl (Child_Not_Attached Not_Assigned))"
    by (simp add: start_child_def spawn_def sample_child_def attach_kill_job_def Let_def)
  have "fresh_handles sample_child {1}"
    by (simp add: fresh_handles_def sample_child_def pipe_ends_def agent_ends_def)
  then show ?thesis
    using failed_start_leaves_nothing [OF c, of "\<lparr>open_handles = {1}, killing_jobs = {}\<rparr>" "{5}"]
    by (simp add: c) (simp add: sample_child_def)
qed

subsection \<open>The scheduled task of older versions\<close>

text \<open>The answers of \<open>schtasks.exe\<close>: whether the query and the deletion exit with zero.\<close>

definition legacy_task_name :: string where
  "legacy_task_name = ''WindowsLLMManagerUpdateCheck''"

definition schtasks :: "string list \<Rightarrow> command" where
  "schtasks args = prepare_command (exec_command ''schtasks.exe'' args)"

datatype legacy_error = Legacy_Not_Deleted string

definition remove_legacy_scheduled_task ::
  "bool \<Rightarrow> string option \<Rightarrow> command list \<times> bool \<times> legacy_error option" where
  "remove_legacy_scheduled_task found failed =
     (let query = schtasks [''/Query'', ''/TN'', legacy_task_name];
          remove = schtasks [''/Delete'', ''/TN'', legacy_task_name, ''/F'']
      in if \<not> found then ([query], False, None)
         else case failed of
                Some text \<Rightarrow> ([query, remove], False, Some (Legacy_Not_Deleted text))
              | None \<Rightarrow> ([query, remove], True, None))"

text \<open>\<open>removeLegacyUpdateTask\<close>: what the service logs of it.\<close>

datatype legacy_log = Cleanup_Failed legacy_error | Removed_Task string

definition remove_legacy_update_task :: "bool \<Rightarrow> string option \<Rightarrow> command list \<times> legacy_log list" where
  "remove_legacy_update_task found failed =
     (case remove_legacy_scheduled_task found failed of
        (cmds, removed, Some err) \<Rightarrow> (cmds, [Cleanup_Failed err])
      | (cmds, removed, None) \<Rightarrow> (cmds, if removed then [Removed_Task legacy_task_name] else []))"

lemma legacy_commands_name_the_task:
  "remove_legacy_update_task found failed = (cmds, logs) \<Longrightarrow> c \<in> set cmds \<Longrightarrow>
     legacy_task_name \<in> set (cmd_args c) \<and> cmd_path c = ''schtasks.exe'' \<and> cmd_hidden c"
  by (auto simp: remove_legacy_update_task_def remove_legacy_scheduled_task_def schtasks_def
      exec_command_def prepare_command_def Let_def split: if_splits option.splits)

subsection \<open>Other systems\<close>

text \<open>
  process_other.go, legacy_task_other.go, service_other.go and main_other.go: what the program
  does where there is no Windows API. A command is neither hidden nor detached, the function
  that ends a PowerShell process kills the process itself instead of closing a job, and
  everything about services is an error.
\<close>

datatype job_closer = Close_Job nat | Kill_Process nat

definition prepare_command_other :: "command \<Rightarrow> command" where
  "prepare_command_other c = c"

definition attach_kill_job_other :: "nat \<Rightarrow> attach_error + job_closer" where
  "attach_kill_job_other pid = Inr (Kill_Process pid)"

definition launcher_command_other :: "string \<Rightarrow> string list \<Rightarrow> command" where
  "launcher_command_other path args = exec_command path args"

definition remove_legacy_scheduled_task_other :: "bool \<times> legacy_error option" where
  "remove_legacy_scheduled_task_other = (False, None)"

datatype service_control_error = Control_Unavailable

definition stop_service_other :: "'w \<Rightarrow> 'w \<times> service_control_error option" where
  "stop_service_other w = (w, Some Control_Unavailable)"

definition start_service_other :: "'w \<Rightarrow> 'w \<times> service_control_error option" where
  "start_service_other w = (w, Some Control_Unavailable)"

definition agent_main_other :: string where
  "agent_main_other = ''agent.exe is supported on Windows only'' @ [CHR 0x0A]"

text \<open>\<open>prepareHiddenCommand\<close> of the updater, for \<open>agent.exe --version\<close>, on either system.\<close>

definition prepare_hidden_command :: "command \<Rightarrow> command" where
  "prepare_hidden_command c = c\<lparr>cmd_flags := 0x08000000, cmd_hidden := True\<rparr>"

definition prepare_hidden_command_other :: "command \<Rightarrow> command" where
  "prepare_hidden_command_other c = c"

definition version_command :: "bool \<Rightarrow> string \<Rightarrow> command" where
  "version_command windows path =
     (if windows then prepare_hidden_command else prepare_hidden_command_other)
       (exec_command path [''--version''])"

text \<open>\<open>startChild\<close> with the functions of the system it was built for.\<close>

definition start_child_other ::
  "child_env \<Rightarrow> bool \<Rightarrow> child_call list \<times> (child_error + nat \<times> job_closer \<times> nat list)" where
  "start_child_other ce persistent =
     (case spawn ce (prepare_command_other (exec_command ''powershell.exe'' (cmd_args (child_command persistent)))) of
        (started, Inl err) \<Rightarrow> (started, Inl err)
      | (started, Inr (pid, hs)) \<Rightarrow>
          (case attach_kill_job_other pid of
             Inl err \<Rightarrow> (started @ [Kill_Child pid] @ wait_child pid hs, Inl (Child_Not_Attached err))
           | Inr closer \<Rightarrow> (started, Inr (pid, closer, hs))))"

text \<open>What ending the process leaves: its own kill, or what the job kills when it is closed.\<close>

fun run_closer :: "job_closer \<Rightarrow> nat \<Rightarrow> child_call list" where
  "run_closer (Close_Job job) pid = [Api_Call (Close_Handle job), Kill_Child pid]"
| "run_closer (Kill_Process p) pid = [Kill_Child p, Kill_Child pid]"

text \<open>
  The two builds of \<open>startChild\<close> start the same program with the same arguments and fail at the
  same pipes, and after the kill of a process that was started neither leaves one running.
\<close>

lemma spawn_result: "snd (spawn ce cmd) = snd (spawn ce cmd')"
  by (simp add: spawn_def Let_def split: option.split)

lemma spawn_running:
  "spawn ce cmd = (t, Inr (pid, hs)) \<Longrightarrow> left_running t alive = insert pid alive \<and> fst ` set_option (ce_started ce) = {pid}"
  by (auto simp: spawn_def Let_def split: option.splits prod.splits)

lemma builds_agree:
  assumes "start_child_other ce persistent = (trace, r)"
  shows "case r of
      Inl e \<Rightarrow> snd (start_child ce persistent) = Inl e
    | Inr (pid, closer, hs) \<Rightarrow> fst ` set_option (ce_started ce) = {pid} \<and> closer = Kill_Process pid \<and>
        left_running (trace @ run_closer closer pid) alive = alive - {pid} \<and>
        (\<forall>trace' job. start_child ce persistent = (trace', Inr (pid, job, hs)) \<longrightarrow>
           left_running (trace' @ run_closer (Close_Job job) pid) alive = alive - {pid})"
proof -
  let ?cmd = "prepare_command_other (exec_command ''powershell.exe'' (cmd_args (child_command persistent)))"
  obtain t s where t: "spawn ce ?cmd = (t, s)" by fastforce
  obtain u where u: "spawn ce (child_command persistent) = (u, s)"
    using spawn_result [of ce "child_command persistent" ?cmd] t by (cases "spawn ce (child_command persistent)") simp
  show ?thesis
  proof (cases s)
    case (Inl e)
    then show ?thesis
      using assms t u by (auto simp: start_child_other_def start_child_def)
  next
    case (Inr started)
    obtain pid hs where "started = (pid, hs)" by fastforce
    then show ?thesis
      using assms t u Inr spawn_running
      by (auto simp: start_child_other_def start_child_def attach_kill_job_other_def left_running_append
          left_running_api split: prod.splits sum.splits)
  qed
qed

end
