(* ===== verification/Spec2Isabelle.thy ===== *)
theory Spec2Isabelle
  imports Security Api Config Frame Runner Jobs Sessions Version Updater Cmd_Updater Scheduler Pki Audit_Log
    Jobs_Spec Http Server_Props Server_Audit Server_Kill Server_Types Server_Live Server_Fair Agent Platform
begin

text \<open>
  Windows LLM Manager is an HTTPS service that runs PowerShell commands for an operator who holds a
  bearer token. A request passes the middleware (address block list, rate limit, token, kill
  switch), and its handler runs the command once, as a job to be polled, or in a persistent
  session. Every security event goes to an audit log. A scheduler in the agent starts a separate
  updater program, which replaces the agent by a signed release; a third program makes the
  certificates. This development models the Go code of all of them.

  \<^bold>\<open>Parts.\<close> Paths are relative to src/, names are those of the code in the style of HOL.

  \<^item> \<open>WLM_Prelude\<close>: Go's integers (\<open>int64\<close> wraps), maps as association lists (locale \<open>go_map\<close>),
    \<open>TrimSpace\<close>, and the locales of invariants: \<open>guarded_ops\<close> and \<open>op_invariant\<close> for operations,
    \<open>rel_invariant\<close> for step relations. \<open>Simulation\<close>: the locale of refinement by labelled
    steps. \<open>Go_Codec\<close>, \<open>Go_Json\<close>, \<open>Go_Flag\<close>, \<open>Go_Os\<close>: what the
    programs use of hex and Base64 (locale \<open>text_codec\<close>), JSON strings, flags, files and dates.
  \<^item> \<open>Security\<close>: internal/security (auth, blocklist, clientip, ratelimit). \<open>Api\<close>, \<open>Config\<close>:
    internal/api and internal/config.
  \<^item> \<open>Frame\<close>: internal/powershell wrapper.go, frame.go and buffer.go: the script sent to
    PowerShell and the reader of what it prints. \<open>Runner\<close>: runner.go, any number of concurrent
    calls of \<open>Run\<close> with \<open>KillAll\<close> and \<open>BlockAndKillAll\<close>, and the ends of the processes, which a
    call waits for in steps of their own (\<open>run_step\<close>). \<open>Sessions\<close>: session.go
    (\<open>pool_step\<close>). \<open>Jobs\<close>: internal/jobs/manager.go over a heap of jobs; what it needs of the
    runner is the locale \<open>job_runner\<close>, interpreted on the model of \<open>Run\<close>. \<open>Jobs_Spec\<close>: the
    specification of the manager, a book of snapshots by identifier, and the refinement.
  \<^item> \<open>Audit_Log\<close>: internal/audit/logger.go, the log, its rotation and its archives on a disk where
    each system call may fail.
  \<^item> \<open>Http\<close>, \<open>Server\<close>: internal/server/server.go. \<open>server\<close> is the state of all components and
    the position of each connection; one case of \<open>server_step\<close> is one critical section of the
    middleware, of a handler, of the kill switch or of the shutdown, or a step of the runner, of
    the sessions or of a job. \<open>Server_Inv\<close>, \<open>Server_Conns\<close> and \<open>Server_Sample\<close> hold the
    invariants, the responses and a concrete environment; \<open>Server_Props\<close>, \<open>Server_Audit\<close>,
    \<open>Server_Kill\<close>, \<open>Server_Types\<close>, \<open>Server_Live\<close> and \<open>Server_Fair\<close> the properties.
  \<^item> \<open>Version\<close>, \<open>Updater\<close>, \<open>Cmd_Updater\<close>: internal/updater and cmd/updater. \<open>Scheduler\<close>:
    internal/updatescheduler (\<open>sched_step\<close>). \<open>Pki\<close>: cmd/pki. \<open>Agent\<close>: cmd/agent: flags, token
    generator, console, and the loop of the Windows service around \<open>launch_server\<close> and
    \<open>start_updates\<close>. \<open>Platform\<close>: \<open>startChild\<close> of runner.go, process_windows.go and
    legacy_task_windows.go: the start of a PowerShell process, its creation flags and its job
    object, the removal of the old scheduled task; and the files *_other.go, with which the
    same program is built for other systems.

  \<^bold>\<open>What the lemmas show.\<close> Access: every process, job and session call belongs to a request whose
  token was checked and whose body was valid, and nothing exists before such a request; the
  token the agent generates is the one its server accepts; the block list refines a counter per
  address. Stopping: once a client is told that the kill switch is armed, in any later state no
  job runs, no one-shot process that was given a command is alive, and one that is alive was
  just started by a call that will only end it; removing the file does not undo this. Sessions
  are the exception: a creation that had passed the guard before is served after the switch was
  armed, and without the file the guard lets sessions be created again. Accounting: a result
  of \<open>POST /exec\<close> or of a session is told only after \<open>Write\<close> was called with its event, each call of
  a job's callback writes the event of its final snapshot, an acknowledged event is never lost,
  and no content of a field can forge an entry. Jobs: the manager refines its book, so every
  answer about a job is that of the last call or end of job that concerned it, and its callback
  is called once. Resources: jobs, stored results and sessions stay within the configuration,
  \<open>/health\<close> counts them exactly, when all calls of \<open>Run\<close> have returned no process is left untold to
  end, and a failed \<open>startChild\<close> leaves no process and no handle but, in one case, the pipe of its
  stdin. Progress: from every reachable state of the server every request can be brought to
  its answer, since calls of the runner and of a session can be brought to their return,
  locks freed and processes ended (locale \<open>session_call\<close>); and in every fair infinite execution
  a request that waits neither for a session nor for the kill switch is answered. The
  protocol with PowerShell: output is read back exactly, within bounds, and a command is only
  ever quoted data. Updates: only a binary that passed checksum, signature, version and kill
  switch is installed, a failure restores the former agent, one updater runs at a time and
  each tick can start the next. Composition: an agent that serves has a validated
  configuration, so the theorems on \<open>server_run\<close> hold of it; the service manager hears
  \<open>Running\<close> only after the port is bound.

  \<^bold>\<open>Bounds, fuel, interleaving.\<close> Nothing is bounded: connections, calls, jobs, sessions and
  processes are any number, and every theorem on a step relation is for every interleaving. No
  definition has fuel; loops are structural or have a measure. Integers are Go's: \<open>int64\<close>
  products wrap (\<open>accepted_retention_wraps\<close>, \<open>accepted_write_timeout_wraps\<close>), and the limits of the configuration are what
  excludes it elsewhere. Any answer of \<open>os.Stat\<close> on the kill-switch file but "missing"
  counts as armed, as in the code.

  \<^bold>\<open>Where a step is coarser than the code.\<close> These sections, which the code runs without a lock of
  their own, are one step together with what they follow: the record of a failed token and its
  audit events; the submission of a job and its event; at the end of a handler its audit event
  and the answer; the last event of the kill switch and its answer. The end of a job and its
  callback are two steps, and so are a process being told to end and its end. The last stage of
  the kill switch waits until the sessions it took out of the map have been aborted, but not
  for the ends of their processes, for which \<open>KillAll\<close> waits too: it allows more executions than the
  code. In \<open>Sessions\<close> a process ends in the step that kills it. A job's goroutine may end only
  after the step that submitted it.

  \<^bold>\<open>Small cases left out.\<close> A connection whose address is blocked is always dropped: the code answers
  an empty 200 when \<open>Hijack\<close> fails, which with HTTP/2 switched off it does not. The paths of \<open>route_of\<close>
  are cleaned, so the redirects of \<open>ServeMux\<close> are not seen. The best-effort \<open>os.Remove\<close> calls of
  \<open>download\<close> and \<open>cleanup_files\<close> succeed. The polls of \<open>wait_for_state\<close> may be none, where the code
  queries once. A service whose stop was accepted is taken to have no process from then on,
  whatever the polls still see. \<open>agent_main\<close> ends where the service or the console begins, and
  what these append to agent.log is not modelled; nor is the log file of the updater. The lines
  of \<open>emitted_lines\<close> are a reading of the \<open>WriteLine\<close> calls in the script, not derived from its text.

  \<^bold>\<open>Parameters.\<close> SHA-256, the JSON decoder, zip, X.509 and key generation, the address parser, cosign,
  HTTP downloads, the file system's failures, the clock and random bytes are arguments, either
  unconstrained or with a hypothesis their documentation states (\<open>good_entropy\<close>: fresh
  identifiers). PowerShell is a process that prints what the script asks for, or anything.

  \<^bold>\<open>Not modelled.\<close> TLS and the HTTP parser before a request reaches the middleware, writing a
  response to the socket and \<open>http.Server.Shutdown\<close>; what Windows does with the calls of
  \<open>attach_kill_job\<close> and beneath \<open>stop_service\<close> and \<open>start_service\<close>; log lines, except those of the
  removal of the old task; and the PowerShell scripts, which are not Go. The passing of time is not
  tied to the deadlines of contexts: a deadline may expire in any step in which the code
  looks at it.
\<close>

end
